(* ===== verification/Prelude.thy ===== *)
theory Prelude
  imports "HOL-Library.Word"
begin

text \<open>
  Shared vocabulary of the development: the machine integers of include/types.h, the flat
  physical memory the ELF-loader runs in, little-endian loads and stores, the alignment and
  rounding macros and the placement record of include/elfloader_common.h, and the generic lemmas about them.

  The type variable \<open>'a\<close> of an address is the machine word: \<open>32 word\<close> when
  \<^verbatim>\<open>__KERNEL_32__\<close> is defined, \<open>64 word\<close> when \<^verbatim>\<open>__KERNEL_64__\<close> is. The loader runs with
  the MMU off, so memory is a total function from addresses to bytes and a pointer is a word.
\<close>

unbundle bit_operations_syntax

section \<open>Machine integers\<close>

type_synonym byte = "8 word"
type_synonym uint16 = "16 word"
type_synonym uint32 = "32 word"
type_synonym uint64 = "64 word"

type_synonym 'a mem = "'a word \<Rightarrow> byte"

text \<open>The two configurations of include/types.h: a word has 32 or 64 bits.\<close>

definition kernel_word :: "'a::len itself \<Rightarrow> bool" where
  "kernel_word t \<longleftrightarrow> LENGTH('a) = 32 \<or> LENGTH('a) = 64"

definition BYTE_PER_WORD :: "'a::len itself \<Rightarrow> nat" where
  "BYTE_PER_WORD t = LENGTH('a) div 8"

definition UINT64_MAX :: uint64 where
  "UINT64_MAX = 0xffffffffffffffff"

section \<open>Where an image is\<close>

text \<open>\<^verbatim>\<open>struct image_info\<close> of include/elfloader_common.h.\<close>

record 'w image_info =
  phys_region_start :: 'w
  phys_region_end :: 'w
  virt_region_start :: 'w
  virt_region_end :: 'w
  virt_entry :: 'w
  phys_virt_offset :: 'w

section \<open>Collections\<close>

named_theorems region_simps \<open>reading and writing runs of bytes\<close>
named_theorems word_facts \<open>address arithmetic on machine words\<close>

section \<open>Address arithmetic\<close>

lemma unat_of_nat_less [word_facts]:
  "n < 2 ^ LENGTH('a) \<Longrightarrow> unat (of_nat n :: 'a::len word) = n"
  by (simp add: unat_of_nat)

lemma unat_lt2p [word_facts]: "unat (x :: 'a::len word) < 2 ^ LENGTH('a)"
  by (rule unsigned_less)

lemma unat_le2p [word_facts]: "unat (x :: 'a::len word) \<le> 2 ^ LENGTH('a)"
  using unat_lt2p [of x] by (rule less_imp_le)

lemma word_add_diff [simp]: "p + of_nat i - p = (of_nat i :: 'a::len word)"
  by simp

lemma unat_diff_offset:
  fixes a p :: "'a::len word"
  assumes "k < 2 ^ LENGTH('a)"
  shows "unat (a - (p + of_nat k)) =
    (if k \<le> unat (a - p) then unat (a - p) - k else unat (a - p) + 2 ^ LENGTH('a) - k)"
proof -
  have "a - (p + of_nat k) = (a - p) - of_nat k"
    by (simp add: diff_diff_eq)
  then have "unat (a - (p + of_nat k)) = unat ((a - p) - of_nat k)"
    by (rule arg_cong)
  also have "\<dots> = (if k \<le> unat (a - p) then unat (a - p) - k
      else unat (a - p) + 2 ^ LENGTH('a) - k)"
    by (simp only: unat_sub_if' unat_of_nat_less [OF assms])
  finally show ?thesis .
qed

lemma unat_minus_one_word: "unat (- 1 :: 'a::len word) = 2 ^ LENGTH('a) - 1"
  using unat_sub_if' [of "0 :: 'a word" 1] by simp

lemma offset_inj:
  fixes p :: "'a::len word"
  assumes "i < 2 ^ LENGTH('a)" and "j < 2 ^ LENGTH('a)"
  shows "p + of_nat i = p + of_nat j \<longleftrightarrow> i = j"
  by (metis add_left_cancel assms unat_of_nat_less)

lemma word_minus_less:
  fixes n k :: "'a::len word"
  assumes "0 < k" and "k \<le> n"
  shows "unat (n - k) < unat n"
  using assms by (simp add: unat_sub word_le_nat_alt word_less_nat_alt)

lemma ucast_add_ucast:
  fixes f :: "'a::len word" and off :: "'b::len word"
  assumes "LENGTH('a) \<le> LENGTH('b)"
  shows "ucast (ucast f + off) = f + ucast off"
proof -
  have "take_bit n (take_bit n x + y) = take_bit n (x + take_bit m y)" if "n \<le> m" for n m and x y :: int
    using that by (metis (no_types) min.absorb1 min.idem take_bit_add take_bit_take_bit)
  with assms show ?thesis by transfer simp
qed

section \<open>Runs of bytes\<close>

text \<open>The \<open>n\<close> bytes from address \<open>p\<close>, and memory with the bytes \<open>bs\<close> put there.\<close>

definition mem_bytes :: "'a::len mem \<Rightarrow> 'a word \<Rightarrow> nat \<Rightarrow> byte list" where
  "mem_bytes m p n = map (\<lambda>i. m (p + of_nat i)) [0..<n]"

definition write_bytes :: "'a::len mem \<Rightarrow> 'a word \<Rightarrow> byte list \<Rightarrow> 'a mem" where
  "write_bytes m p bs =
     (\<lambda>a. if unat (a - p) < length bs then bs ! unat (a - p) else m a)"

text \<open>The addresses of the \<open>n\<close> bytes from \<open>p\<close>, wrapping at the top of the address space.\<close>

definition region :: "'a::len word \<Rightarrow> nat \<Rightarrow> 'a word set" where
  "region p n = {a. unat (a - p) < n}"

lemma mem_region_iff [region_simps]: "a \<in> region p n \<longleftrightarrow> unat (a - p) < n"
  by (simp add: region_def)

lemma region_offset:
  "i < n \<Longrightarrow> i < 2 ^ LENGTH('a) \<Longrightarrow> (p :: 'a::len word) + of_nat i \<in> region p n"
  by (simp add: region_def unat_of_nat_less)

text \<open>A run that does not wrap is an interval of addresses.\<close>

lemma region_interval:
  fixes p :: "'a::len word"
  assumes "unat p + n \<le> 2 ^ LENGTH('a)"
  shows "a \<in> region p n \<longleftrightarrow> unat p \<le> unat a \<and> unat a < unat p + n"
  using assms unat_lt2p [of a] unat_lt2p [of p]
  by (auto simp: region_def unat_sub_if' split: if_splits)

lemma region_disjointI:
  fixes p q :: "'a::len word"
  assumes "unat p + n \<le> unat q" and "unat q + k \<le> 2 ^ LENGTH('a)"
  shows "region p n \<inter> region q k = {}"
  using assms region_interval [of p n] region_interval [of q k] unat_lt2p [of q] by auto

lemma region_sub:
  fixes p :: "'a::len word"
  assumes "k + j \<le> n" and "n \<le> 2 ^ LENGTH('a)"
  shows "region (p + of_nat k) j \<subseteq> region p n"
proof (cases "j = 0")
  case True
  then show ?thesis by (simp add: region_def)
next
  case False
  then have "k < 2 ^ LENGTH('a)" using assms by linarith
  then show ?thesis
    using assms unat_lt2p [of "_ - p"]
    by (auto simp: region_def unat_diff_offset split: if_splits)
qed

lemma length_mem_bytes [simp]: "length (mem_bytes m p n) = n"
  by (simp add: mem_bytes_def)

lemma nth_mem_bytes [simp]: "i < n \<Longrightarrow> mem_bytes m p n ! i = m (p + of_nat i)"
  by (simp add: mem_bytes_def)

lemma mem_bytes_0 [simp]: "mem_bytes m p 0 = []"
  by (simp add: mem_bytes_def)

lemma mem_bytes_add:
  "mem_bytes m p (i + j) = mem_bytes m p i @ mem_bytes m (p + of_nat i) j"
  by (rule nth_equalityI) (auto simp: nth_append algebra_simps)

lemma mem_bytes_Suc: "mem_bytes m p (Suc n) = m p # mem_bytes m (p + 1) n"
  using mem_bytes_add [of m p 1 n] by (simp add: mem_bytes_def)

lemma take_mem_bytes [simp]: "take k (mem_bytes m p n) = mem_bytes m p (min k n)"
  by (rule nth_equalityI) auto

lemma drop_mem_bytes: "k \<le> n \<Longrightarrow> drop k (mem_bytes m p n) = mem_bytes m (p + of_nat k) (n - k)"
  by (rule nth_equalityI) (auto simp: algebra_simps)

lemma write_bytes_Nil [simp]: "write_bytes m p [] = m"
  by (simp add: write_bytes_def)

lemma write_bytes_singleton: "write_bytes m p [b] = m(p := b)"
  by (auto simp: write_bytes_def fun_eq_iff unat_eq_zero)

lemma write_bytes_outside:
  "a \<notin> region p (length bs) \<Longrightarrow> write_bytes m p bs a = m a"
  by (simp add: write_bytes_def region_def)

lemma write_bytes_nth:
  "i < length bs \<Longrightarrow> i < 2 ^ LENGTH('a) \<Longrightarrow>
    write_bytes m (p :: 'a::len word) bs (p + of_nat i) = bs ! i"
  by (simp add: write_bytes_def unat_of_nat_less)

lemma write_bytes_append:
  fixes p :: "'a::len word"
  assumes "length xs + length ys \<le> 2 ^ LENGTH('a)"
  shows "write_bytes (write_bytes m p xs) (p + of_nat (length xs)) ys = write_bytes m p (xs @ ys)"
proof (cases "ys = []")
  case True
  then show ?thesis by simp
next
  case False
  then have len: "length xs < 2 ^ LENGTH('a)"
    using assms by (cases ys) auto
  show ?thesis
  proof
    fix a
    have bound: "unat (a - p) < 2 ^ LENGTH('a)"
      by (rule unat_lt2p)
    show "write_bytes (write_bytes m p xs) (p + of_nat (length xs)) ys a = write_bytes m p (xs @ ys) a"
      using assms bound unat_diff_offset [OF len, of a p]
      by (auto simp: write_bytes_def nth_append)
  qed
qed

lemma mem_bytes_write_same:
  fixes p :: "'a::len word"
  assumes "length bs \<le> 2 ^ LENGTH('a)"
  shows "mem_bytes (write_bytes m p bs) p (length bs) = bs"
  by (rule nth_equalityI) (use assms in \<open>auto simp: write_bytes_nth\<close>)

lemma mem_bytes_cong:
  "(\<And>i. i < n \<Longrightarrow> m (p + of_nat i) = m' (p + of_nat i)) \<Longrightarrow> mem_bytes m p n = mem_bytes m' p n"
  by (rule nth_equalityI) auto

lemma mem_bytes_write_disjoint:
  fixes p q :: "'a::len word"
  assumes "region q n \<inter> region p (length bs) = {}" and "n \<le> 2 ^ LENGTH('a)"
  shows "mem_bytes (write_bytes m p bs) q n = mem_bytes m q n"
proof (rule mem_bytes_cong)
  fix i assume "i < n"
  then have "q + of_nat i \<in> region q n"
    using assms(2) by (simp add: region_offset)
  then show "write_bytes m p bs (q + of_nat i) = m (q + of_nat i)"
    using assms(1) by (intro write_bytes_outside) auto
qed

text \<open>Reading inside a region that two memories agree on.\<close>

definition agree_on :: "'a::len mem \<Rightarrow> 'a mem \<Rightarrow> 'a word set \<Rightarrow> bool" where
  "agree_on m m' R \<longleftrightarrow> (\<forall>a \<in> R. m' a = m a)"

lemma mem_bytes_agree:
  fixes f :: "'a::len word"
  assumes "agree_on m m' (region f n)" and "k + j \<le> n" and "n \<le> 2 ^ LENGTH('a)"
  shows "mem_bytes m' (f + of_nat k) j = mem_bytes m (f + of_nat k) j"
proof (rule mem_bytes_cong)
  fix i assume "i < j"
  then have "f + of_nat (k + i) \<in> region f n" using assms(2,3) by (intro region_offset) auto
  then show "m' (f + of_nat k + of_nat i) = m (f + of_nat k + of_nat i)"
    using assms(1) by (simp add: agree_on_def add.assoc)
qed

text \<open>Reading back a part of what was written.\<close>

lemma mem_bytes_write_part:
  fixes p :: "'a::len word"
  assumes "k + n \<le> length bs" and "length bs \<le> 2 ^ LENGTH('a)"
  shows "mem_bytes (write_bytes m p bs) (p + of_nat k) n = take n (drop k bs)"
proof (rule nth_equalityI)
  show "length (mem_bytes (write_bytes m p bs) (p + of_nat k) n) = length (take n (drop k bs))"
    using assms(1) by simp
next
  fix i assume "i < length (mem_bytes (write_bytes m p bs) (p + of_nat k) n)"
  then have i: "i < n" by simp
  then have "write_bytes m p bs (p + of_nat (k + i)) = bs ! (k + i)"
    using assms by (intro write_bytes_nth) auto
  then show "mem_bytes (write_bytes m p bs) (p + of_nat k) n ! i = take n (drop k bs) ! i"
    using i assms(1) by (simp add: add.assoc)
qed

text \<open>Overwriting part of an array: \<open>p\<close> put at index \<open>r\<close> of \<open>b\<close>.\<close>

definition buf_put :: "byte list \<Rightarrow> nat \<Rightarrow> byte list \<Rightarrow> byte list" where
  "buf_put b r p = take r b @ p @ drop (r + length p) b"

lemma length_buf_put: "r + length p \<le> length b \<Longrightarrow> length (buf_put b r p) = length b"
  by (simp add: buf_put_def)

lemma take_buf_put: "r + length p \<le> length b \<Longrightarrow> take (r + length p) (buf_put b r p) = take r b @ p"
  by (simp add: buf_put_def)

lemma buf_put_Nil [simp]: "buf_put b r [] = b"
  by (simp add: buf_put_def)

lemma nth_buf_put:
  "r + length p \<le> length b \<Longrightarrow> i < length b \<Longrightarrow>
    buf_put b r p ! i = (if r \<le> i \<and> i < r + length p then p ! (i - r) else b ! i)"
  by (auto simp: buf_put_def nth_append)

lemma write_bytes_put:
  fixes p :: "'a::len word"
  assumes "k + length d \<le> length bs" and "length bs \<le> 2 ^ LENGTH('a)"
  shows "write_bytes (write_bytes m p bs) (p + of_nat k) d = write_bytes m p (buf_put bs k d)"
proof (cases "d = []")
  case True
  then show ?thesis by simp
next
  case False
  then have k: "k < 2 ^ LENGTH('a)" using assms by (cases d) auto
  show ?thesis
  proof
    fix a
    show "write_bytes (write_bytes m p bs) (p + of_nat k) d a = write_bytes m p (buf_put bs k d) a"
      using assms unat_lt2p [of "a - p"] unat_diff_offset [OF k, of a p]
      by (auto simp: write_bytes_def nth_buf_put length_buf_put)
  qed
qed

section \<open>Little-endian words in memory\<close>

definition bytes_le :: "nat \<Rightarrow> 'b::len word \<Rightarrow> byte list" where
  "bytes_le n v = map (\<lambda>k. ucast (drop_bit (8 * k) v)) [0..<n]"

primrec of_bytes_le :: "byte list \<Rightarrow> 'b::len word" where
  "of_bytes_le [] = 0"
| "of_bytes_le (b # bs) = ucast b OR push_bit 8 (of_bytes_le bs)"

lemma length_bytes_le [simp]: "length (bytes_le n v) = n"
  by (simp add: bytes_le_def)

lemma nth_bytes_le [simp]: "k < n \<Longrightarrow> bytes_le n v ! k = ucast (drop_bit (8 * k) v)"
  by (simp add: bytes_le_def)

lemma bit_of_bytes_le:
  "bit (of_bytes_le bs :: 'b::len word) i \<longleftrightarrow>
     i < LENGTH('b) \<and> i div 8 < length bs \<and> bit (bs ! (i div 8)) (i mod 8)"
proof (induction bs arbitrary: i)
  case Nil
  then show ?case by simp
next
  case (Cons b bs)
  show ?case
  proof (cases "i < 8")
    case True
    then show ?thesis by (auto simp: bit_simps)
  next
    case False
    then obtain j where i: "i = 8 + j"
      using le_Suc_ex not_less by blast
    then have "i div 8 = Suc (j div 8)" "i mod 8 = j mod 8" by simp_all
    moreover have "\<not> bit b i"
      using False bit_imp_le_length [of b i] by auto
    ultimately show ?thesis
      using Cons.IH [of j] i by (auto simp: bit_simps dest: bit_imp_le_length)
  qed
qed

lemma of_bytes_le_bytes_le:
  fixes v :: "'b::len word"
  assumes "LENGTH('b) \<le> 8 * n"
  shows "of_bytes_le (bytes_le n v) = v"
proof (rule bit_eqI)
  fix i
  show "bit (of_bytes_le (bytes_le n v) :: 'b word) i = bit v i"
  proof (cases "i < LENGTH('b)")
    case True
    then have "i div 8 < n" using assms by auto
    then show ?thesis using True by (simp add: bit_of_bytes_le bit_simps)
  next
    case False
    then show ?thesis by (auto simp: bit_of_bytes_le dest: bit_imp_le_length)
  qed
qed

lemma bytes_le_of_bytes_le:
  assumes "8 * length bs \<le> LENGTH('b)"
  shows "bytes_le (length bs) (of_bytes_le bs :: 'b::len word) = bs"
proof (rule nth_equalityI)
  fix k assume "k < length (bytes_le (length bs) (of_bytes_le bs :: 'b word))"
  then have k: "k < length bs" by simp
  have "(ucast (drop_bit (8 * k) (of_bytes_le bs :: 'b word)) :: byte) = bs ! k"
  proof (rule bit_eqI)
    fix i
    show "bit (ucast (drop_bit (8 * k) (of_bytes_le bs :: 'b word)) :: byte) i = bit (bs ! k) i"
    proof (cases "i < 8")
      case True
      then have "8 * k + i < LENGTH('b)" using assms k by linarith
      then show ?thesis using True k by (simp add: bit_simps bit_of_bytes_le)
    next
      case False
      then show ?thesis by (auto simp: bit_simps dest: bit_imp_le_length)
    qed
  qed
  then show "bytes_le (length bs) (of_bytes_le bs :: 'b word) ! k = bs ! k"
    using k by simp
qed simp

lemma of_bytes_le_Cons_plus:
  "of_bytes_le (b # bs) = ucast b + 256 * (of_bytes_le bs :: 'b::len word)"
proof -
  have "(ucast b :: 'b word) + push_bit 8 (of_bytes_le bs) = ucast b OR push_bit 8 (of_bytes_le bs)"
    by (rule disjunctive_add) (auto simp: bit_simps dest: bit_imp_le_length)
  then show ?thesis by (simp add: push_bit_eq_mult mult.commute)
qed

definition load16 :: "'a::len mem \<Rightarrow> 'a word \<Rightarrow> uint16" where
  "load16 m p = of_bytes_le (mem_bytes m p 2)"

definition load32 :: "'a::len mem \<Rightarrow> 'a word \<Rightarrow> uint32" where
  "load32 m p = of_bytes_le (mem_bytes m p 4)"

definition load64 :: "'a::len mem \<Rightarrow> 'a word \<Rightarrow> uint64" where
  "load64 m p = of_bytes_le (mem_bytes m p 8)"

lemma load_write_part:
  fixes p :: "'a::len word"
  assumes "length bs \<le> 2 ^ LENGTH('a)"
  shows "k + 2 \<le> length bs \<Longrightarrow> load16 (write_bytes m p bs) (p + of_nat k) = of_bytes_le (take 2 (drop k bs))"
    and "k + 4 \<le> length bs \<Longrightarrow> load32 (write_bytes m p bs) (p + of_nat k) = of_bytes_le (take 4 (drop k bs))"
    and "k + 8 \<le> length bs \<Longrightarrow> load64 (write_bytes m p bs) (p + of_nat k) = of_bytes_le (take 8 (drop k bs))"
  using assms by (simp_all add: load16_def load32_def load64_def mem_bytes_write_part)

lemma load_agree:
  fixes f :: "'a::len word"
  assumes "agree_on m m' (region f n)" and "n \<le> 2 ^ LENGTH('a)"
  shows "k + 2 \<le> n \<Longrightarrow> load16 m' (f + of_nat k) = load16 m (f + of_nat k)"
    and "k + 4 \<le> n \<Longrightarrow> load32 m' (f + of_nat k) = load32 m (f + of_nat k)"
    and "k + 8 \<le> n \<Longrightarrow> load64 m' (f + of_nat k) = load64 m (f + of_nat k)"
  using assms by (simp_all add: load16_def load32_def load64_def mem_bytes_agree)

text \<open>A store of an \<open>n\<close>-byte integer.\<close>

definition store_le :: "nat \<Rightarrow> 'a::len mem \<Rightarrow> 'a word \<Rightarrow> 'b::len word \<Rightarrow> 'a mem" where
  "store_le n m p v = write_bytes m p (bytes_le n v)"

section \<open>Alignment and rounding\<close>

definition PAGE_BITS :: nat where
  "PAGE_BITS = 12"

text \<open>\<^verbatim>\<open>BIT\<close> and \<^verbatim>\<open>MASK\<close> are ints in the source; every use here fits, so they are
  taken at the width of the word they meet.\<close>

definition BIT :: "nat \<Rightarrow> 'b::len word" where
  "BIT x = push_bit x 1"

definition MASK :: "nat \<Rightarrow> 'b::len word" where
  "MASK n = BIT n - 1"

definition IS_ALIGNED :: "'b::len word \<Rightarrow> nat \<Rightarrow> bool" where
  "IS_ALIGNED n b \<longleftrightarrow> n AND MASK b = 0"

definition ROUND_UP :: "'b::len word \<Rightarrow> nat \<Rightarrow> 'b word" where
  "ROUND_UP n b = push_bit b (drop_bit b (n - 1) + 1)"

lemma MASK_eq_mask: "MASK n = mask n"
  by (simp add: MASK_def BIT_def mask_eq_exp_minus_1 push_bit_of_1)

lemma IS_ALIGNED_iff_dvd:
  fixes n :: "'b::len word"
  shows "IS_ALIGNED n b \<longleftrightarrow> 2 ^ b dvd unat n"
proof -
  have "IS_ALIGNED n b \<longleftrightarrow> take_bit b n = 0"
    by (simp add: IS_ALIGNED_def MASK_eq_mask take_bit_eq_mask)
  also have "\<dots> \<longleftrightarrow> unat (take_bit b n) = 0"
    by (simp add: unat_eq_zero)
  also have "\<dots> \<longleftrightarrow> take_bit b (unat n) = 0"
    by (simp add: unsigned_take_bit_eq)
  also have "\<dots> \<longleftrightarrow> 2 ^ b dvd unat n"
    by (simp add: take_bit_eq_mod dvd_eq_mod_eq_0)
  finally show ?thesis .
qed

end
