(* ===== verification/Strops.thy ===== *)
theory Strops
  imports Prelude
begin

text \<open>
  The string and memory routines of src/string.c. A C string is read through a reader, a
  function from the index to the byte there: \<open>str_at m p\<close> reads memory from the pointer
  \<open>p\<close>, \<open>str_lit s\<close> is a string literal of the source. \<open>memset\<close> and \<open>memcpy\<close> are the
  word-at-a-time loops of the source; the lemmas show that they equal the byte-wise fill and copy.
\<close>

section \<open>Strings\<close>

definition str_at :: "'a::len mem \<Rightarrow> 'a word \<Rightarrow> nat \<Rightarrow> byte" where
  "str_at m p i = m (p + of_nat i)"

definition str_lit :: "string \<Rightarrow> nat \<Rightarrow> byte" where
  "str_lit s i = (if i < length s then of_char (s ! i) else 0)"

text \<open>A \<^verbatim>\<open>char *\<close> of the program: a literal of the source or an address.\<close>

datatype 'w c_string = Literal string | At 'w

fun chars_of :: "'a::len mem \<Rightarrow> 'a word c_string \<Rightarrow> nat \<Rightarrow> byte" where
  "chars_of m (Literal s) = str_lit s"
| "chars_of m (At p) = str_at m p"

text \<open>\<open>strlen\<close> may run forever (no NUL anywhere), which is \<open>None\<close>. The loop walks the
  pointer \<open>s\<close>; the result is the difference of the two pointers.\<close>

partial_function (option) strlen_loop :: "'a::len mem \<Rightarrow> 'a word \<Rightarrow> 'a word option" where
  "strlen_loop m s = (if m s \<noteq> 0 then strlen_loop m (s + 1) else Some s)"

definition strlen :: "'a::len mem \<Rightarrow> 'a word \<Rightarrow> 'a word option" where
  "strlen m str = map_option (\<lambda>s. s - str) (strlen_loop m str)"

partial_function (option) strcmp_loop ::
    "(nat \<Rightarrow> byte) \<Rightarrow> (nat \<Rightarrow> byte) \<Rightarrow> nat \<Rightarrow> int option" where
  "strcmp_loop a b i =
     (if a i \<noteq> b i then Some (uint (a i) - uint (b i))
      else if a i = 0 then Some 0
      else strcmp_loop a b (i + 1))"

definition strcmp :: "(nat \<Rightarrow> byte) \<Rightarrow> (nat \<Rightarrow> byte) \<Rightarrow> int option" where
  "strcmp a b = strcmp_loop a b 0"

function strncmp_loop :: "(nat \<Rightarrow> byte) \<Rightarrow> (nat \<Rightarrow> byte) \<Rightarrow> nat \<Rightarrow> nat \<Rightarrow> int" where
  "strncmp_loop s1 s2 n i =
     (if i < n then
        let diff = uint (s1 i) - uint (s2 i)
        in if diff \<noteq> 0 \<or> s1 i = 0 then diff else strncmp_loop s1 s2 n (i + 1)
      else 0)"
  by pat_completeness auto
termination
  by (relation "measure (\<lambda>(s1, s2, n, i). n - i)") auto

definition strncmp :: "(nat \<Rightarrow> byte) \<Rightarrow> (nat \<Rightarrow> byte) \<Rightarrow> nat \<Rightarrow> int" where
  "strncmp s1 s2 n = strncmp_loop s1 s2 n 0"

declare strncmp_loop.simps [simp del]

section \<open>memset\<close>

text \<open>Byte by byte until the pointer is word aligned.\<close>

function memset_align :: "'a::len mem \<Rightarrow> 'a word \<Rightarrow> byte \<Rightarrow> 'a word \<Rightarrow> 'a mem \<times> 'a word \<times> 'a word" where
  "memset_align s mem c n =
     (if unat mem mod BYTE_PER_WORD TYPE('a) \<noteq> 0 \<and> 0 < n
      then memset_align (s(mem := c)) (mem + 1) c (n - 1)
      else (s, mem, n))"
  by pat_completeness auto
termination
  by (relation "measure (\<lambda>(s, mem, c, n). unat n)") (auto simp: measure_unat)

definition memset_filler :: "byte \<Rightarrow> 'a::len word" where
  "memset_filler c = (- 1 div 255) * ucast c"

text \<open>As many word writes as fit, then the remaining bytes. (A word of include/types.h has
  several bytes: the second conjunct of the guard is about no configuration of the source.)\<close>

function memset_words ::
    "'a::len mem \<Rightarrow> 'a word \<Rightarrow> 'a word \<Rightarrow> 'a word \<Rightarrow> 'a mem \<times> 'a word \<times> 'a word" where
  "memset_words s mem fill n =
     (if unat n > BYTE_PER_WORD TYPE('a) - 1 \<and> 0 < BYTE_PER_WORD TYPE('a)
      then memset_words (store_le (BYTE_PER_WORD TYPE('a)) s mem fill)
             (mem + of_nat (BYTE_PER_WORD TYPE('a))) fill (n - of_nat (BYTE_PER_WORD TYPE('a)))
      else (s, mem, n))"
  by pat_completeness auto
termination
proof (relation "measure (\<lambda>(s, mem, c, n). unat n)", goal_cases)
  case (2 s mem fill n)
  let ?b = "BYTE_PER_WORD TYPE('a)"
  have "?b \<le> unat n" and b: "0 < ?b" using 2 by linarith+
  moreover have "unat n < 2 ^ LENGTH('a)" by (rule unsigned_less)
  ultimately have "unat (of_nat ?b :: 'a word) = ?b"
    by (intro unat_of_nat_less) linarith
  with \<open>?b \<le> unat n\<close> b show ?case
    by (auto simp: unat_sub word_le_nat_alt)
qed simp

function memset_bytes :: "'a::len mem \<Rightarrow> 'a word \<Rightarrow> byte \<Rightarrow> 'a word \<Rightarrow> 'a mem" where
  "memset_bytes s mem c n =
     (if 0 < n then memset_bytes (s(mem := c)) (mem + 1) c (n - 1) else s)"
  by pat_completeness auto
termination
  by (relation "measure (\<lambda>(s, mem, c, n). unat n)") (auto simp: measure_unat)

definition memset :: "'a::len mem \<Rightarrow> 'a word \<Rightarrow> byte \<Rightarrow> 'a word \<Rightarrow> 'a mem" where
  "memset s p c n =
     (let (s1, mem1, n1) = memset_align s p c n;
          fill = memset_filler c;
          (s2, mem2, n2) = memset_words s1 mem1 fill n1
      in memset_bytes s2 mem2 c n2)"

declare memset_align.simps [simp del] memset_words.simps [simp del] memset_bytes.simps [simp del]

section \<open>memcpy\<close>

text \<open>The largest copy unit (a power of two up to the word) both pointers can be aligned to.
  The source stops at \<^verbatim>\<open>copy_unit == 1\<close>; \<open>0\<close> is never reached from a word size.\<close>

function copy_unit_loop :: "nat \<Rightarrow> nat \<Rightarrow> nat \<Rightarrow> nat" where
  "copy_unit_loop s d u =
     (let rs = s mod u; rd = d mod u
      in if rs = rd then u else if u \<le> 1 then u else copy_unit_loop s d (u div 2))"
  by pat_completeness auto
termination
  by (relation "measure (\<lambda>(s, d, u). u)") (auto intro: Nat.gr0I)

function memcpy_align ::
    "'a::len mem \<Rightarrow> 'a word \<Rightarrow> 'a word \<Rightarrow> 'a word \<Rightarrow> nat \<Rightarrow> 'a mem \<times> 'a word \<times> 'a word \<times> 'a word" where
  "memcpy_align m d s n u =
     (if unat d mod u \<noteq> 0 \<and> 0 < n
      then memcpy_align (m(d := m s)) (d + 1) (s + 1) (n - 1) u
      else (m, d, s, n))"
  by pat_completeness auto
termination
  by (relation "measure (\<lambda>(m, d, s, n, u). unat n)") (auto simp: measure_unat)

text \<open>One copy of a whole unit: the \<^verbatim>\<open>switch\<close>, whose default prints a message and aborts
  (\<open>None\<close>).\<close>

definition copy_one :: "'a::len mem \<Rightarrow> 'a word \<Rightarrow> 'a word \<Rightarrow> nat \<Rightarrow> 'a mem option" where
  "copy_one m d s u =
     (if u = 8 then Some (store_le 8 m d (load64 m s))
      else if u = 4 then Some (store_le 4 m d (load32 m s))
      else if u = 2 then Some (store_le 2 m d (load16 m s))
      else if u = 1 then Some (m(d := m s))
      else None)"

function memcpy_units ::
    "'a::len mem \<Rightarrow> 'a word \<Rightarrow> 'a word \<Rightarrow> 'a word \<Rightarrow> nat \<Rightarrow>
     ('a mem \<times> 'a word \<times> 'a word \<times> 'a word) option" where
  "memcpy_units m d s n u =
     (if unat n > u - 1 then
        (case copy_one m d s u of
           None \<Rightarrow> None
         | Some m' \<Rightarrow> memcpy_units m' (d + of_nat u) (s + of_nat u) (n - of_nat u) u)
      else Some (m, d, s, n))"
  by pat_completeness auto
termination
proof (relation "measure (\<lambda>(m, d, s, n, u). unat n)", goal_cases)
  case (2 m d s n u m')
  then have "0 < u" and "u \<le> unat n"
    by (auto simp: copy_one_def split: if_splits)
  moreover have "unat n < 2 ^ LENGTH('a)" by (rule unsigned_less)
  ultimately have "unat (of_nat u :: 'a word) = u"
    by (intro unat_of_nat_less) linarith
  with \<open>0 < u\<close> \<open>u \<le> unat n\<close> show ?case
    by (auto simp: unat_sub word_le_nat_alt)
qed simp

function memcpy_bytes :: "'a::len mem \<Rightarrow> 'a word \<Rightarrow> 'a word \<Rightarrow> 'a word \<Rightarrow> 'a mem" where
  "memcpy_bytes m d s n =
     (if 0 < n then memcpy_bytes (m(d := m s)) (d + 1) (s + 1) (n - 1) else m)"
  by pat_completeness auto
termination
  by (relation "measure (\<lambda>(m, d, s, n). unat n)") (auto simp: measure_unat)

definition memcpy :: "'a::len mem \<Rightarrow> 'a word \<Rightarrow> 'a word \<Rightarrow> 'a word \<Rightarrow> 'a mem option" where
  "memcpy m dest src n =
     (let copy_unit = copy_unit_loop (unat src) (unat dest) (BYTE_PER_WORD TYPE('a));
          (m1, d1, s1, n1) = memcpy_align m dest src n copy_unit
      in case memcpy_units m1 d1 s1 n1 copy_unit of
           None \<Rightarrow> None
         | Some (m2, d2, s2, n2) \<Rightarrow> Some (memcpy_bytes m2 d2 s2 n2))"

declare copy_unit_loop.simps [simp del] memcpy_align.simps [simp del]
  memcpy_units.simps [simp del] memcpy_bytes.simps [simp del]

section \<open>memset is a fill\<close>

lemma minus_one_div_255:
  assumes "kernel_word TYPE('a::len)"
  shows "(- 1 div 255 :: 'a word) = of_nat ((2 ^ LENGTH('a) - 1) div 255)"
proof -
  have "unat (255 :: 'a word) = 255"
    using assms by (auto simp: kernel_word_def unsigned_numeral take_bit_eq_mod)
  then show ?thesis by (simp only: word_arith_nat_div unat_minus_one_word)
qed
lemma of_bytes_le_replicate:
  "(of_bytes_le (replicate 4 c) :: 'a::len word) = 16843009 * ucast c"
  "(of_bytes_le (replicate 8 c) :: 'a::len word) = 72340172838076673 * ucast c"
proof -
  have r4: "replicate 4 c = [c, c, c, c]" and r8: "replicate 8 c = [c, c, c, c, c, c, c, c]"
    by (simp_all add: eval_nat_numeral)
  show "(of_bytes_le (replicate 4 c) :: 'a word) = 16843009 * ucast c"
    by (simp only: r4 of_bytes_le_Cons_plus of_bytes_le.simps(1)) (simp add: algebra_simps)
  show "(of_bytes_le (replicate 8 c) :: 'a word) = 72340172838076673 * ucast c"
    by (simp only: r8 of_bytes_le_Cons_plus of_bytes_le.simps(1)) (simp add: algebra_simps)
qed
lemma memset_filler_bytes:
  assumes "kernel_word TYPE('a::len)"
  shows "(memset_filler c :: 'a word) = of_bytes_le (replicate (BYTE_PER_WORD TYPE('a)) c)"
  using assms unfolding kernel_word_def
    by (rule disjE) (simp_all add: BYTE_PER_WORD_def memset_filler_def minus_one_div_255 [OF assms] of_bytes_le_replicate)

text \<open>One state of the fill loops follows another after filling \<open>k\<close> bytes.\<close>

definition fills :: "byte \<Rightarrow> 'a::len mem \<times> 'a word \<times> 'a word \<Rightarrow> 'a mem \<times> 'a word \<times> 'a word \<Rightarrow> bool" where
  "fills c = (\<lambda>(s, p, n) (s', p', n').
     \<exists>k \<le> unat n. s' = write_bytes s p (replicate k c) \<and> p' = p + of_nat k \<and> n' = n - of_nat k)"

lemma unat_minus_of_nat:
  fixes n :: "'a::len word"
  shows "k \<le> unat n \<Longrightarrow> unat (n - of_nat k) = unat n - k"
  using unat_diff_offset [of k n 0] unat_lt2p [of n] by simp

lemma fills_refl [simp]: "fills c t t"
  by (auto simp: fills_def split: prod.splits intro: exI [of _ 0])

lemma fills_trans:
  fixes s :: "'a::len mem"
  assumes "fills c (s, p, n) (s', p', n')" and "fills c (s', p', n') t"
  shows "fills c (s, p, n) t"
proof -
  obtain s'' p'' n'' where t: "t = (s'', p'', n'')" by (cases t)
  from assms(1) obtain k where k: "k \<le> unat n" "s' = write_bytes s p (replicate k c)"
    "p' = p + of_nat k" "n' = n - of_nat k"
    by (auto simp: fills_def)
  from assms(2) t obtain j where j: "j \<le> unat n'" "s'' = write_bytes s' p' (replicate j c)"
    "p'' = p' + of_nat j" "n'' = n' - of_nat j"
    by (auto simp: fills_def)
  have kj: "k + j \<le> unat n"
    using j(1) k(1,4) by (simp add: unat_minus_of_nat)
  then have "s'' = write_bytes s p (replicate (k + j) c)"
    using write_bytes_append [of "replicate k c" "replicate j c" s p] unat_lt2p [of n] j k
    by (simp add: replicate_add)
  with kj j k t show ?thesis
    by (auto simp: fills_def algebra_simps intro!: exI [of _ "k + j"])
qed

lemma fills_byte: "0 < n \<Longrightarrow> fills c (s, p, n) (s(p := c), p + 1, n - 1)"
  by (auto simp: fills_def write_bytes_singleton word_gt_0_no unat_gt_0 Suc_le_eq intro!: exI [of _ 1])

lemma fills_word:
  assumes "kernel_word TYPE('a::len)" and "BYTE_PER_WORD TYPE('a) \<le> unat n"
  shows "fills c (s, p, n) (store_le (BYTE_PER_WORD TYPE('a)) s p (memset_filler c :: 'a word),
    p + of_nat (BYTE_PER_WORD TYPE('a)), n - of_nat (BYTE_PER_WORD TYPE('a)))"
proof -
  let ?b = "BYTE_PER_WORD TYPE('a)"
  have "bytes_le ?b (memset_filler c :: 'a word) = replicate ?b c"
    using bytes_le_of_bytes_le [of "replicate ?b c", where 'b = 'a]
    by (simp add: memset_filler_bytes [OF assms(1)] BYTE_PER_WORD_def)
  with assms(2) show ?thesis
    by (auto simp: fills_def store_le_def intro!: exI [of _ ?b])
qed

lemma memset_align_fills: "fills c (s, p, n) (memset_align s p c n)"
proof (induction s p c n rule: memset_align.induct)
  case (1 s p c n)
  then show ?case
    by (subst memset_align.simps) (auto intro: fills_trans [OF fills_byte] simp del: fun_upd_apply)
qed

lemma memset_words_fills:
  fixes s :: "'a::len mem"
  assumes "kernel_word TYPE('a)"
  shows "fills c (s, p, n) (memset_words s p (memset_filler c) n)"
proof (induction s p "memset_filler c :: 'a word" n rule: memset_words.induct)
  case (1 s p n)
  show ?case
  proof (cases "unat n > BYTE_PER_WORD TYPE('a) - 1 \<and> 0 < BYTE_PER_WORD TYPE('a)")
    case True
    then have "BYTE_PER_WORD TYPE('a) \<le> unat n" by linarith
    note step = fills_trans [OF fills_word [OF assms this] "1" [OF True]]
    show ?thesis
      by (subst memset_words.simps) (simp only: True if_True simp_thms step)
  next
    case False
    then show ?thesis by (subst memset_words.simps) auto
  qed
qed

lemma memset_bytes_fill:
  "memset_bytes s p c n = write_bytes s p (replicate (unat n) c)"
proof (induction s p c n rule: memset_bytes.induct)
  case (1 s p c n)
  show ?case
  proof (cases "0 < n")
    case True
    define k where "k = unat (n - 1)"
    from True have n: "unat n = Suc k"
      by (simp add: k_def word_gt_0 unat_minus_one unat_gt_0)
    have "write_bytes (write_bytes s p [c]) (p + of_nat (length [c])) (replicate k c) =
      write_bytes s p ([c] @ replicate k c)"
      using n unat_lt2p [of n] by (intro write_bytes_append) simp
    with True 1 show ?thesis
      by (subst memset_bytes.simps) (simp add: write_bytes_singleton n del: fun_upd_apply flip: k_def)
  next
    case False
    then show ?thesis by (subst memset_bytes.simps) (simp add: word_gt_0)
  qed
qed

lemma memset_eq_fill:
  fixes s :: "'a::len mem"
  assumes "kernel_word TYPE('a)"
  shows "memset s p c n = write_bytes s p (replicate (unat n) c)"
proof -
  obtain s1 p1 n1 where 1: "memset_align s p c n = (s1, p1, n1)" by (rule prod_cases3)
  obtain s2 p2 n2 where 2: "memset_words s1 p1 (memset_filler c) n1 = (s2, p2, n2)"
    by (rule prod_cases3)
  have "fills c (s, p, n) (s2, p2, n2)"
    using fills_trans memset_align_fills memset_words_fills [OF assms] 1 2 by metis
  then obtain k where k: "k \<le> unat n" "s2 = write_bytes s p (replicate k c)"
    "p2 = p + of_nat k" "n2 = n - of_nat k"
    by (auto simp: fills_def)
  then have "write_bytes s2 p2 (replicate (unat n2) c) = write_bytes s p (replicate (unat n) c)"
    using write_bytes_append [of "replicate k c" "replicate (unat n - k) c" s p] unat_lt2p [of n]
    by (simp add: unat_minus_of_nat flip: replicate_add)
  then show ?thesis
    by (simp add: memset_def 1 2 memset_bytes_fill)
qed

section \<open>memcpy is a copy\<close>

text \<open>One state of the copy loops follows another after copying \<open>k\<close> bytes.\<close>

definition copies ::
  "'a::len mem \<times> 'a word \<times> 'a word \<times> 'a word \<Rightarrow> 'a mem \<times> 'a word \<times> 'a word \<times> 'a word \<Rightarrow> bool" where
  "copies = (\<lambda>(m, d, s, n) (m', d', s', n').
     \<exists>k \<le> unat n. m' = write_bytes m d (mem_bytes m s k) \<and>
       d' = d + of_nat k \<and> s' = s + of_nat k \<and> n' = n - of_nat k)"

text \<open>The contract of \<^verbatim>\<open>restrict\<close>: source and destination do not overlap.\<close>

definition disjoint_regions :: "'a::len word \<Rightarrow> 'a word \<Rightarrow> nat \<Rightarrow> bool" where
  "disjoint_regions d s n \<longleftrightarrow> region d n \<inter> region s n = {}"

lemma copies_refl [simp]: "copies (m, d, s, n) (m, d, s, n)"
  by (auto simp: copies_def intro: exI [of _ 0])

lemma copies_trans:
  fixes m :: "'a::len mem"
  assumes dis: "disjoint_regions d s (unat n)"
    and "copies (m, d, s, n) (m', d', s', n')" and "copies (m', d', s', n') t"
  shows "copies (m, d, s, n) t"
proof -
  obtain m'' d'' s'' n'' where t: "t = (m'', d'', s'', n'')" by (cases t)
  from assms(2) obtain k where k: "k \<le> unat n" "m' = write_bytes m d (mem_bytes m s k)"
    "d' = d + of_nat k" "s' = s + of_nat k" "n' = n - of_nat k"
    by (auto simp: copies_def)
  from assms(3) t obtain j where j: "j \<le> unat n'" "m'' = write_bytes m' d' (mem_bytes m' s' j)"
    "d'' = d' + of_nat j" "s'' = s' + of_nat j" "n'' = n' - of_nat j"
    by (auto simp: copies_def)
  have kj: "k + j \<le> unat n"
    using j(1) k(1,5) by (simp add: unat_minus_of_nat)
  have len: "unat n \<le> 2 ^ LENGTH('a)"
    by (rule unat_le2p)
  have "region s' j \<subseteq> region s (unat n)" and "region d k \<subseteq> region d (unat n)"
    using region_sub [of k j "unat n" s] region_sub [of 0 k "unat n" d] kj len k by auto
  then have "region s' j \<inter> region d (length (mem_bytes m s k)) = {}"
    using dis by (auto simp: disjoint_regions_def)
  then have "mem_bytes m' s' j = mem_bytes m s' j"
    using mem_bytes_write_disjoint [of s' j d "mem_bytes m s k" m] kj len k(2) by simp
  then have "m'' = write_bytes m d (mem_bytes m s (k + j))"
    using write_bytes_append [of "mem_bytes m s k" "mem_bytes m s' j" m d] kj len j k
    by (simp add: mem_bytes_add)
  with kj j k t show ?thesis
    by (auto simp: copies_def algebra_simps intro!: exI [of _ "k + j"])
qed

lemma disjoint_regions_step:
  fixes d n :: "'a::len word"
  assumes "disjoint_regions d s (unat n)" and "k \<le> unat n"
  shows "disjoint_regions (d + of_nat k) (s + of_nat k) (unat (n - of_nat k))"
proof -
  have "region (p + of_nat k) (unat n - k) \<subseteq> region p (unat n)" for p :: "'a word"
    using assms(2) by (intro region_sub unat_le2p) auto
  with assms show ?thesis
    by (fastforce simp: disjoint_regions_def unat_minus_of_nat)
qed

lemma copies_byte: "0 < n \<Longrightarrow> copies (m, d, s, n) (m(d := m s), d + 1, s + 1, n - 1)"
  by (auto simp: copies_def write_bytes_singleton mem_bytes_Suc word_gt_0_no unat_gt_0 Suc_le_eq
      simp del: fun_upd_apply intro!: exI [of _ 1])

lemma copy_one_write:
  assumes "u \<in> {1, 2, 4, 8}"
  shows "copy_one m d s u = Some (write_bytes m d (mem_bytes m s u))"
  using assms bytes_le_of_bytes_le [of "mem_bytes m s 2", where 'b = 16]
    bytes_le_of_bytes_le [of "mem_bytes m s 4", where 'b = 32]
    bytes_le_of_bytes_le [of "mem_bytes m s 8", where 'b = 64]
  by (auto simp: copy_one_def store_le_def load16_def load32_def load64_def write_bytes_singleton
      mem_bytes_Suc)

lemma memcpy_align_copies:
  "disjoint_regions d s (unat n) \<Longrightarrow> copies (m, d, s, n) (memcpy_align m d s n u)"
proof (induction m d s n u rule: memcpy_align.induct)
  case (1 m d s n u)
  show ?case
  proof (cases "unat d mod u \<noteq> 0 \<and> 0 < n")
    case True
    then have "1 \<le> unat n" by (simp add: word_gt_0 unat_gt_0 Suc_le_eq)
    then have "disjoint_regions (d + 1) (s + 1) (unat (n - 1))"
      using disjoint_regions_step [OF "1.prems", of 1] by simp
    from copies_trans [OF "1.prems" copies_byte "1.IH" [OF True this]] True show ?thesis
      by (subst memcpy_align.simps) (simp del: fun_upd_apply)
  next
    case False
    then show ?thesis by (subst memcpy_align.simps) auto
  qed
qed

lemma memcpy_units_copies:
  "disjoint_regions d s (unat n) \<Longrightarrow> u \<in> {1, 2, 4, 8} \<Longrightarrow>
    \<exists>t. memcpy_units m d s n u = Some t \<and> copies (m, d, s, n) t"
proof (induction m d s n u rule: memcpy_units.induct)
  case (1 m d s n u)
  show ?case
  proof (cases "unat n > u - 1")
    case True
    with "1.prems"(2) have u: "u \<le> unat n" by auto
    let ?m = "write_bytes m d (mem_bytes m s u)"
    have step: "copies (m, d, s, n) (?m, d + of_nat u, s + of_nat u, n - of_nat u)"
      using u by (auto simp: copies_def)
    obtain t where "memcpy_units ?m (d + of_nat u) (s + of_nat u) (n - of_nat u) u = Some t"
      and "copies (?m, d + of_nat u, s + of_nat u, n - of_nat u) t"
      using "1.IH" [OF True copy_one_write disjoint_regions_step] "1.prems" u by blast
    with copies_trans [OF "1.prems"(1) step] True show ?thesis
      by (subst memcpy_units.simps) (simp add: copy_one_write [OF "1.prems"(2)])
  next
    case False
    then show ?thesis by (subst memcpy_units.simps) auto
  qed
qed

lemma memcpy_bytes_copies:
  "disjoint_regions d s (unat n) \<Longrightarrow>
    copies (m, d, s, n) (memcpy_bytes m d s n, d + n, s + n, 0)"
proof (induction m d s n rule: memcpy_bytes.induct)
  case (1 m d s n)
  show ?case
  proof (cases "0 < n")
    case True
    then have "1 \<le> unat n" by (simp add: word_gt_0 unat_gt_0 Suc_le_eq)
    then have "disjoint_regions (d + 1) (s + 1) (unat (n - 1))"
      using disjoint_regions_step [OF "1.prems", of 1] by simp
    from copies_trans [OF "1.prems" copies_byte "1.IH" [OF True this]] True show ?thesis
      by (subst memcpy_bytes.simps) (simp del: fun_upd_apply)
  next
    case False
    then show ?thesis by (subst memcpy_bytes.simps) (simp add: word_gt_0)
  qed
qed

lemma copy_unit_loop_cases:
  "u \<in> {1, 2, 4, 8} \<Longrightarrow> copy_unit_loop s d u \<in> {1, 2, 4, 8}"
proof (induction s d u rule: copy_unit_loop.induct)
  case (1 s d u)
  then show ?case
    by (subst copy_unit_loop.simps) (auto simp: Let_def)
qed

lemma copy_unit_loop_congruent:
  "0 < u \<Longrightarrow> s mod copy_unit_loop s d u = d mod copy_unit_loop s d u"
proof (induction s d u rule: copy_unit_loop.induct)
  case (1 s d u)
  show ?case
  proof (cases "s mod u = d mod u \<or> u \<le> 1")
    case True
    with "1.prems" have "u = 1 \<or> s mod u = d mod u" by auto
    with True show ?thesis by (subst (1 2) copy_unit_loop.simps) auto
  next
    case False
    with 1 show ?thesis by (subst (1 2) copy_unit_loop.simps) auto
  qed
qed

lemma memcpy_eq_copy:
  fixes m :: "'a::len mem"
  assumes word: "kernel_word TYPE('a)" and dis: "disjoint_regions dest src (unat n)"
  shows "memcpy m dest src n = Some (write_bytes m dest (mem_bytes m src (unat n)))"
proof -
  define u where "u = copy_unit_loop (unat src) (unat dest) (BYTE_PER_WORD TYPE('a))"
  have u: "u \<in> {1, 2, 4, 8}"
    unfolding u_def using word
    by (intro copy_unit_loop_cases) (auto simp: kernel_word_def BYTE_PER_WORD_def)
  obtain m1 d1 s1 n1 where 1: "memcpy_align m dest src n u = (m1, d1, s1, n1)"
    by (metis prod_cases4)
  have c1: "copies (m, dest, src, n) (m1, d1, s1, n1)"
    using memcpy_align_copies [OF dis, of m u] 1 by simp
  then have "disjoint_regions d1 s1 (unat n1)"
    using disjoint_regions_step [OF dis] by (auto simp: copies_def)
  then obtain m2 d2 s2 n2 where 2: "memcpy_units m1 d1 s1 n1 u = Some (m2, d2, s2, n2)"
    and c2: "copies (m1, d1, s1, n1) (m2, d2, s2, n2)"
    using memcpy_units_copies [of d1 s1 n1 u m1] u by (metis prod_cases4)
  have c12: "copies (m, dest, src, n) (m2, d2, s2, n2)"
    by (rule copies_trans [OF dis c1 c2])
  then have "disjoint_regions d2 s2 (unat n2)"
    using disjoint_regions_step [OF dis] by (auto simp: copies_def)
  then have "copies (m, dest, src, n) (memcpy_bytes m2 d2 s2 n2, d2 + n2, s2 + n2, 0)"
    by (rule copies_trans [OF dis c12 memcpy_bytes_copies])
  then obtain k where k: "k \<le> unat n" "n = of_nat k"
    "memcpy_bytes m2 d2 s2 n2 = write_bytes m dest (mem_bytes m src k)"
    by (auto simp: copies_def)
  then have "k = unat n"
    by (metis order.strict_trans1 unat_lt2p unat_of_nat_less)
  then show ?thesis
    by (simp add: memcpy_def 1 2 k(3) flip: u_def)
qed

text \<open>Without that contract the loops still write their \<open>n\<close> bytes and nothing else.\<close>

lemma copies_some_bytes:
  fixes d n :: "'a::len word"
  assumes "k \<le> unat n" and m: "m' = write_bytes m d bs" and k: "length bs = k"
    and rest: "\<exists>cs. r = write_bytes m' (d + of_nat k) cs \<and> length cs = unat (n - of_nat k)"
  shows "\<exists>bs. r = write_bytes m d bs \<and> length bs = unat n"
proof -
  from rest obtain cs where cs: "r = write_bytes m' (d + of_nat k) cs" "length cs = unat n - k"
    using assms(1) by (auto simp: unat_minus_of_nat)
  have "r = write_bytes m d (bs @ cs)"
    using write_bytes_append [of bs cs m d] cs assms(1) k unat_le2p [of n] by (simp add: m)
  then show ?thesis using cs(2) k assms(1) by (intro exI [of _ "bs @ cs"]) simp
qed

lemma memcpy_bytes_writes: "\<exists>bs. memcpy_bytes m d s n = write_bytes m d bs \<and> length bs = unat n"
proof (induction m d s n rule: memcpy_bytes.induct)
  case (1 m d s n)
  show ?case
  proof (cases "0 < n")
    case True
    then have "1 \<le> unat n" by (simp add: word_gt_0 unat_gt_0 Suc_le_eq)
    from copies_some_bytes [OF this refl, of "[m s]"] "1.IH" [OF True] show ?thesis
      using True by (subst memcpy_bytes.simps) (simp add: write_bytes_singleton del: fun_upd_apply)
  qed (subst memcpy_bytes.simps, simp add: word_gt_0)
qed

lemma memcpy_units_writes:
  assumes "u \<in> {1, 2, 4, 8}"
  shows "\<exists>m' d' s' n' bs. memcpy_units m d s n u = Some (m', d', s', n') \<and>
    memcpy_bytes m' d' s' n' = write_bytes m d bs \<and> length bs = unat n"
  using assms
proof (induction m d s n u rule: memcpy_units.induct)
  case (1 m d s n u)
  show ?case
  proof (cases "unat n > u - 1")
    case True
    with "1.prems" have u: "u \<le> unat n" by auto
    let ?m = "write_bytes m d (mem_bytes m s u)"
    obtain m' d' s' n' where r: "memcpy_units ?m (d + of_nat u) (s + of_nat u) (n - of_nat u) u = Some (m', d', s', n')"
      and "\<exists>bs. memcpy_bytes m' d' s' n' = write_bytes ?m (d + of_nat u) bs \<and> length bs = unat (n - of_nat u)"
      using "1.IH" [OF True copy_one_write "1.prems"] "1.prems" by blast
    from copies_some_bytes [OF u refl _ this(2)] show ?thesis
      using r True by (subst memcpy_units.simps) (simp add: copy_one_write [OF "1.prems"])
  next
    case False
    then show ?thesis using memcpy_bytes_writes [of m d s n] by (subst memcpy_units.simps) auto
  qed
qed

lemma memcpy_align_writes:
  assumes "u \<in> {1, 2, 4, 8}"
  shows "\<exists>m1 d1 s1 n1 m' d' s' n' bs. memcpy_align m d s n u = (m1, d1, s1, n1) \<and>
    memcpy_units m1 d1 s1 n1 u = Some (m', d', s', n') \<and>
    memcpy_bytes m' d' s' n' = write_bytes m d bs \<and> length bs = unat n"
  using assms
proof (induction m d s n u rule: memcpy_align.induct)
  case (1 m d s n u)
  show ?case
  proof (cases "unat d mod u \<noteq> 0 \<and> 0 < n")
    case True
    then have "1 \<le> unat n" by (simp add: word_gt_0 unat_gt_0 Suc_le_eq)
    from copies_some_bytes [OF this refl, of "[m s]"] "1.IH" [OF True "1.prems"] show ?thesis
      using True by (subst memcpy_align.simps) (fastforce simp: write_bytes_singleton simp del: fun_upd_apply)
  next
    case False
    then show ?thesis using memcpy_units_writes [OF "1.prems", of m d s n] by (subst memcpy_align.simps) auto
  qed
qed

lemma memcpy_writes:
  fixes m :: "'a::len mem"
  assumes word: "kernel_word TYPE('a)"
  shows "\<exists>bs. memcpy m d s n = Some (write_bytes m d bs) \<and> length bs = unat n"
proof -
  have "copy_unit_loop (unat s) (unat d) (BYTE_PER_WORD TYPE('a)) \<in> {1, 2, 4, 8}"
    using word by (intro copy_unit_loop_cases) (auto simp: kernel_word_def BYTE_PER_WORD_def)
  from memcpy_align_writes [OF this, of m d s n] show ?thesis by (auto simp: memcpy_def Let_def)
qed

section \<open>String lengths and comparisons\<close>

lemma strlen_loop_Some:
  "m (s + of_nat n) = 0 \<Longrightarrow> (\<And>i. i < n \<Longrightarrow> m (s + of_nat i) \<noteq> 0) \<Longrightarrow>
    strlen_loop m s = Some (s + of_nat n)"
proof (induction n arbitrary: s)
  case 0
  then show ?case by (subst strlen_loop.simps) simp
next
  case (Suc n)
  have "m s \<noteq> 0" using Suc.prems(2) [of 0] by simp
  moreover have "strlen_loop m (s + 1) = Some (s + 1 + of_nat n)"
  proof (rule Suc.IH)
    show "m (s + 1 + of_nat n) = 0" using Suc.prems(1) by (simp add: algebra_simps)
  next
    fix i assume "i < n"
    then show "m (s + 1 + of_nat i) \<noteq> 0"
      using Suc.prems(2) [of "Suc i"] by (simp add: algebra_simps)
  qed
  ultimately show ?case by (subst strlen_loop.simps) (simp add: algebra_simps)
qed

lemma strlen_loop_NUL:
  assumes "strlen_loop m s = Some p"
  shows "m p = 0"
  by (rule strlen_loop.raw_induct [where P = "\<lambda>m s p. m p = 0", OF _ assms])
    (auto split: if_splits)

lemma strlen_eq:
  "strlen m str =
    (if \<exists>a. m a = 0 then Some (of_nat (LEAST n. m (str + of_nat n) = 0)) else None)"
proof (cases "\<exists>a. m a = 0")
  case True
  then obtain a where "m a = 0" by blast
  then have "m (str + of_nat (unat (a - str))) = 0" by simp
  then have ex: "\<exists>n. m (str + of_nat n) = 0" by blast
  let ?n = "LEAST n. m (str + of_nat n) = 0"
  have "strlen_loop m str = Some (str + of_nat ?n)"
    by (rule strlen_loop_Some) (use LeastI_ex [OF ex] not_less_Least in auto)
  with True show ?thesis by (simp add: strlen_def)
next
  case False
  then have "strlen_loop m str = None"
    using strlen_loop_NUL [of m str] by (cases "strlen_loop m str") auto
  with False show ?thesis
    by (simp add: strlen_def)
qed

text \<open>A reader holds the NUL-terminated string \<open>s\<close>.\<close>

definition is_cstr :: "(nat \<Rightarrow> byte) \<Rightarrow> byte list \<Rightarrow> bool" where
  "is_cstr a s \<longleftrightarrow> (\<forall>i < length s. a i = s ! i \<and> s ! i \<noteq> 0) \<and> a (length s) = 0"

lemma is_cstr_Nil [simp]: "is_cstr a [] \<longleftrightarrow> a 0 = 0"
  by (simp add: is_cstr_def)

lemma is_cstr_Cons:
  "is_cstr a (x # s) \<longleftrightarrow> a 0 = x \<and> x \<noteq> 0 \<and> is_cstr (\<lambda>i. a (Suc i)) s"
  by (auto simp: is_cstr_def All_less_Suc2)

lemma strcmp_loop_prefix:
  "i \<le> k \<Longrightarrow> (\<And>j. i \<le> j \<Longrightarrow> j < k \<Longrightarrow> a j = b j \<and> a j \<noteq> 0) \<Longrightarrow>
    strcmp_loop a b i = strcmp_loop a b k"
proof (induction "k - i" arbitrary: i)
  case 0
  then show ?case by simp
next
  case (Suc n)
  have "strcmp_loop a b (i + 1) = strcmp_loop a b k"
    by (rule Suc.hyps(1)) (use Suc.hyps(2) Suc.prems(1) in linarith, use Suc.hyps(2) in linarith,
        metis Suc.prems(2) Suc_eq_plus1 Suc_leD)
  moreover have "i < k" using Suc.hyps(2) by linarith
  then have "a i = b i \<and> a i \<noteq> 0" by (rule Suc.prems(2) [OF order_refl])
  ultimately show ?case by (subst strcmp_loop.simps) auto
qed

lemma common_prefix:
  obtains ps s' t' where "s = ps @ s'" and "t = ps @ t'"
    and "s' = [] \<or> t' = [] \<or> hd s' \<noteq> hd t'"
proof (induction s arbitrary: t thesis)
  case Nil
  then show ?case by auto
next
  case (Cons x s)
  show ?case
  proof (cases "t \<noteq> [] \<and> hd t = x")
    case True
    then obtain u where t: "t = x # u" by (cases t) auto
    obtain ps s' t' where "s = ps @ s'" "u = ps @ t'" "s' = [] \<or> t' = [] \<or> hd s' \<noteq> hd t'"
      by (rule Cons.IH)
    with t show ?thesis by (intro Cons.prems [of "x # ps" s' t']) auto
  next
    case False
    then show ?thesis by (intro Cons.prems [of "[]" "x # s" t]) auto
  qed
qed

lemma is_cstr_prefix: "is_cstr a (ps @ s) \<Longrightarrow> j < length ps \<Longrightarrow> a j = ps ! j \<and> a j \<noteq> 0"
  by (auto simp: is_cstr_def nth_append dest: spec [of _ j])

lemma is_cstr_next:
  "is_cstr a (ps @ s) \<Longrightarrow> a (length ps) = (case s of [] \<Rightarrow> 0 | x # _ \<Rightarrow> x) \<and> (s \<noteq> [] \<longrightarrow> hd s \<noteq> 0)"
  by (cases s) (auto simp: is_cstr_def dest: spec [of _ "length ps"])

abbreviation byte_less :: "(byte \<times> byte) set" where
  "byte_less \<equiv> {(x, y). x < y}"

lemma lexord_prefix: "(ps @ s, ps @ t) \<in> lexord byte_less \<longleftrightarrow> (s, t) \<in> lexord byte_less"
  by (auto simp: lexord_same_pref_iff)

lemma uint_diff_sign:
  fixes x y :: byte
  shows "uint x - uint y < 0 \<longleftrightarrow> x < y" and "uint x - uint y = 0 \<longleftrightarrow> x = y"
  by (simp_all add: word_less_def word_uint_eq_iff)

lemma strcmp_order:
  assumes a: "is_cstr a s" and b: "is_cstr b t"
  shows "\<exists>r. strcmp a b = Some r \<and> (r = 0 \<longleftrightarrow> s = t) \<and> (r < 0 \<longleftrightarrow> (s, t) \<in> lexord byte_less)"
proof -
  obtain ps s' t' where s: "s = ps @ s'" and t: "t = ps @ t'"
    and d: "s' = [] \<or> t' = [] \<or> hd s' \<noteq> hd t'"
    by (rule common_prefix)
  let ?k = "length ps"
  have "strcmp a b = strcmp_loop a b ?k"
    unfolding strcmp_def
    by (rule strcmp_loop_prefix)
      (simp, metis is_cstr_prefix [OF a [unfolded s]] is_cstr_prefix [OF b [unfolded t]])
  moreover have "strcmp_loop a b ?k = Some (uint (a ?k) - uint (b ?k))"
    using is_cstr_next [of a ps s'] is_cstr_next [of b ps t'] a b s t d
    by (subst strcmp_loop.simps) (auto split: list.splits)
  moreover have "(uint (a ?k) - uint (b ?k) = 0 \<longleftrightarrow> s = t) \<and>
      (uint (a ?k) - uint (b ?k) < 0 \<longleftrightarrow> (s, t) \<in> lexord byte_less)"
    unfolding uint_diff_sign s t lexord_prefix
    using is_cstr_next [OF a [unfolded s]] is_cstr_next [OF b [unfolded t]] d
    by (cases s'; cases t') (auto simp: word_gt_0)
  ultimately show ?thesis by auto
qed

text \<open>The strings agree at every index in \<open>[i, n)\<close> that no NUL of the first one precedes.\<close>

definition agree_from :: "(nat \<Rightarrow> byte) \<Rightarrow> (nat \<Rightarrow> byte) \<Rightarrow> nat \<Rightarrow> nat \<Rightarrow> bool" where
  "agree_from s1 s2 n i \<longleftrightarrow>
     (\<forall>j. i \<le> j \<and> j < n \<and> (\<forall>k. i \<le> k \<and> k < j \<longrightarrow> s1 k \<noteq> 0) \<longrightarrow> s1 j = s2 j)"

lemma agree_from_step:
  assumes "i < n"
  shows "agree_from s1 s2 n i \<longleftrightarrow> s1 i = s2 i \<and> (s1 i = 0 \<or> agree_from s1 s2 n (Suc i))"
proof
  assume L: "agree_from s1 s2 n i"
  have "s1 i = s2 i" using L assms by (auto simp: agree_from_def dest: spec [of _ i])
  moreover have "agree_from s1 s2 n (Suc i)" if "s1 i \<noteq> 0"
    unfolding agree_from_def
  proof (intro allI impI)
    fix j assume j: "Suc i \<le> j \<and> j < n \<and> (\<forall>k. Suc i \<le> k \<and> k < j \<longrightarrow> s1 k \<noteq> 0)"
    then have "\<forall>k. i \<le> k \<and> k < j \<longrightarrow> s1 k \<noteq> 0"
      using that by (metis le_antisym not_less_eq_eq)
    with L j show "s1 j = s2 j" by (simp add: agree_from_def)
  qed
  ultimately show "s1 i = s2 i \<and> (s1 i = 0 \<or> agree_from s1 s2 n (Suc i))" by blast
next
  assume R: "s1 i = s2 i \<and> (s1 i = 0 \<or> agree_from s1 s2 n (Suc i))"
  show "agree_from s1 s2 n i"
    unfolding agree_from_def
  proof (intro allI impI)
    fix j assume j: "i \<le> j \<and> j < n \<and> (\<forall>k. i \<le> k \<and> k < j \<longrightarrow> s1 k \<noteq> 0)"
    show "s1 j = s2 j"
      using R j by (cases "j = i") (auto simp: agree_from_def)
  qed
qed

lemma strncmp_loop_zero: "strncmp_loop s1 s2 n i = 0 \<longleftrightarrow> agree_from s1 s2 n i"
proof (induction s1 s2 n i rule: strncmp_loop.induct)
  case (1 s1 s2 n i)
  show ?case
  proof (cases "i < n")
    case True
    have diff: "uint (s1 i) - uint (s2 i) \<noteq> 0 \<longleftrightarrow> s1 i \<noteq> s2 i"
      by (simp add: word_uint_eq_iff)
    show ?thesis
      unfolding strncmp_loop.simps [of s1 s2 n i] agree_from_step [OF True]
      using True diff 1 by (auto simp: Let_def)
  next
    case False
    then show ?thesis
      unfolding strncmp_loop.simps [of s1 s2 n i] by (auto simp: agree_from_def)
  qed
qed

section \<open>Properties\<close>

text \<open>C18: memset stores the byte c at each of the n addresses from p, however the alignment,
  word and remainder loops split the run, and changes no other byte.\<close>

theorem memset_fills_exactly:
  fixes s :: "'a::len mem"
  assumes "kernel_word TYPE('a)"
  shows "memset s p c n a = (if a \<in> region p (unat n) then c else s a)"
  by (simp add: memset_eq_fill [OF assms] write_bytes_def region_def)

lemma memset_fills_exactly_witness:
  "kernel_word TYPE(32) \<and> memset (\<lambda>_. 0) (3 :: 32 word) 7 10 12 = 7"
proof -
  have "kernel_word TYPE(32)" by (simp add: kernel_word_def)
  then show ?thesis
    using memset_fills_exactly [of "\<lambda>_. 0" "3 :: 32 word" 7 10 12] by (simp add: region_def)
qed

text \<open>C17: on regions that do not overlap memcpy returns (its switch never reaches the aborting
  default), leaves the source bytes at the destination and every other byte, the source included,
  as it was, for every alignment of the two pointers.\<close>

theorem memcpy_copies_exactly:
  fixes m :: "'a::len mem"
  assumes "kernel_word TYPE('a)" and "disjoint_regions dest src (unat n)"
  shows "\<exists>m'. memcpy m dest src n = Some m' \<and>
    mem_bytes m' dest (unat n) = mem_bytes m src (unat n) \<and>
    (\<forall>a. a \<notin> region dest (unat n) \<longrightarrow> m' a = m a)"
  using memcpy_eq_copy [OF assms, of m] mem_bytes_write_same [of "mem_bytes m src (unat n)" m dest]
  by (auto simp: write_bytes_outside unat_le2p)

lemma memcpy_copies_exactly_witness:
  "kernel_word TYPE(64) \<and> disjoint_regions (0x1003 :: 64 word) 0x2001 11 \<and>
   (\<exists>m'. memcpy (\<lambda>a. ucast a) (0x1003 :: 64 word) 0x2001 11 = Some m' \<and>
     mem_bytes m' 0x1003 11 = mem_bytes (\<lambda>a. ucast a) (0x2001 :: 64 word) 11)"
proof -
  have w: "kernel_word TYPE(64)" by (simp add: kernel_word_def)
  have "region (0x1003 :: 64 word) 11 \<inter> region 0x2001 11 = {}"
    by (rule region_disjointI) simp_all
  then have d: "disjoint_regions (0x1003 :: 64 word) 0x2001 (unat (11 :: 64 word))"
    by (simp add: disjoint_regions_def)
  show ?thesis
    using memcpy_copies_exactly [OF w d, of "\<lambda>a. ucast a"] w d by auto
qed

text \<open>C23: on two NUL-terminated strings strcmp returns; the result is zero exactly for equal
  strings and negative exactly when the first precedes the second in the lexicographic order of
  unsigned bytes.\<close>

theorem strcmp_is_lexicographic:
  assumes "is_cstr a s" and "is_cstr b t"
  shows "\<exists>r. strcmp a b = Some r \<and> (r = 0 \<longleftrightarrow> s = t) \<and> (r < 0 \<longleftrightarrow> (s, t) \<in> lexord byte_less)"
  by (rule strcmp_order [OF assms])

lemma strcmp_is_lexicographic_witness:
  "\<exists>r. strcmp (str_lit ''ab'') (str_lit ''b'') = Some r \<and> r < 0"
proof -
  have "is_cstr (str_lit ''ab'') [97, 98]" and "is_cstr (str_lit ''b'') [98]"
    by (simp_all add: is_cstr_Cons str_lit_def)
  from strcmp_is_lexicographic [OF this] show ?thesis by auto
qed

text \<open>strlen returns exactly when there is a NUL somewhere in memory, and then gives the
  distance from the string to the first NUL at or after it.\<close>

theorem strlen_first_NUL:
  "strlen m str =
    (if \<exists>a. m a = 0 then Some (of_nat (LEAST n. m (str + of_nat n) = 0)) else None)"
  by (rule strlen_eq)

text \<open>strncmp is zero exactly when the bytes agree at every index below n that no NUL of the
  first string precedes: bytes behind a common NUL are not compared.\<close>

theorem strncmp_zero_iff:
  "strncmp s1 s2 n = 0 \<longleftrightarrow>
    (\<forall>j < n. (\<forall>k < j. s1 k \<noteq> 0) \<longrightarrow> s1 j = s2 j)"
  by (auto simp: strncmp_def strncmp_loop_zero agree_from_def)

lemma strncmp_zero_iff_witness:
  "strncmp (str_lit ''a'') (str_lit ''a'') 5 = 0 \<and> strncmp (str_lit ''a'') (str_lit ''b'') 5 \<noteq> 0"
  using strncmp_zero_iff [of "str_lit ''a''" "str_lit ''a''" 5]
    strncmp_zero_iff [of "str_lit ''a''" "str_lit ''b''" 5]
  by (auto simp: str_lit_def intro!: exI [of _ 0])

end
