(* ===== verification/Block_Hash.thy ===== *)
theory Block_Hash
  imports Prelude
begin

text \<open>
  The buffering that utils/crypt_sha256.c and utils/crypt_md5.c share word for word: a context
  holds the message length, the hash state and a 64-byte block buffer; \<open>update\<close> feeds bytes
  through the buffer and \<open>pad\<close> appends the padding. Both are parametrised here by the file's
  own \<open>processblock\<close> (and by the byte order of the length for \<open>pad\<close>). The locale
  \<open>block_hash\<close> states what \<open>processblock\<close> promises and proves the buffering correct once; the
  two hash theories interpret it.
\<close>

section \<open>The context and its operations\<close>

text \<open>\<^verbatim>\<open>sha256_t\<close> and \<^verbatim>\<open>md5_t\<close> (eight and four state words).\<close>

record hash_ctx =
  len :: uint64
  h :: "uint32 list"
  buf :: "byte list"

function update_loop ::
    "(hash_ctx \<Rightarrow> byte list \<Rightarrow> hash_ctx) \<Rightarrow> hash_ctx \<Rightarrow> byte list \<Rightarrow> hash_ctx" where
  "update_loop processblock s p =
     (if length p \<ge> 64 then update_loop processblock (processblock s (take 64 p)) (drop 64 p)
      else s\<lparr>buf := buf_put (buf s) 0 p\<rparr>)"
  by pat_completeness auto
termination
  by (relation "measure (\<lambda>(f, s, p). length p)") auto

declare update_loop.simps [simp del]

definition update_with ::
    "(hash_ctx \<Rightarrow> byte list \<Rightarrow> hash_ctx) \<Rightarrow> hash_ctx \<Rightarrow> byte list \<Rightarrow> hash_ctx" where
  "update_with processblock s0 m =
     (let r = unat (len s0) mod 64;
          s = s0\<lparr>len := len s0 + of_nat (length m)\<rparr>
      in if r \<noteq> 0 then
           (if length m < 64 - r then s\<lparr>buf := buf_put (buf s) r m\<rparr>
            else let s1 = s\<lparr>buf := buf_put (buf s) r (take (64 - r) m)\<rparr>
                 in update_loop processblock (processblock s1 (buf s1)) (drop (64 - r) m))
         else update_loop processblock s m)"

text \<open>\<open>lenbytes\<close> gives the eight bytes \<^verbatim>\<open>buf[56]\<close> to \<^verbatim>\<open>buf[63]\<close> for the bit length.\<close>

definition pad_with ::
    "(hash_ctx \<Rightarrow> byte list \<Rightarrow> hash_ctx) \<Rightarrow> (uint64 \<Rightarrow> byte list) \<Rightarrow> hash_ctx \<Rightarrow> hash_ctx" where
  "pad_with processblock lenbytes s0 =
     (let r0 = unat (len s0) mod 64;
          s1 = s0\<lparr>buf := (buf s0)[r0 := 0x80]\<rparr>;
          r1 = r0 + 1;
          (s2, r2) =
            (if r1 > 56
             then let s = s1\<lparr>buf := buf_put (buf s1) r1 (replicate (64 - r1) 0)\<rparr>
                  in (processblock s (buf s), 0)
             else (s1, r1));
          s3 = s2\<lparr>buf := buf_put (buf s2) r2 (replicate (56 - r2) 0)\<rparr>;
          s4 = s3\<lparr>len := len s3 * 8\<rparr>;
          s5 = s4\<lparr>buf := buf_put (buf s4) 56 (lenbytes (len s4))\<rparr>
      in processblock s5 (buf s5))"

section \<open>Blocks of a message\<close>

text \<open>The full 64-byte blocks of a byte string, and what is left after them.\<close>

function blocks :: "byte list \<Rightarrow> byte list list" where
  "blocks m = (if length m < 64 then [] else take 64 m # blocks (drop 64 m))"
  by pat_completeness auto
termination
  by (relation "measure length") auto

declare blocks.simps [simp del]

definition leftover :: "byte list \<Rightarrow> byte list" where
  "leftover m = drop (64 * (length m div 64)) m"

lemma blocks_short [simp]: "length m < 64 \<Longrightarrow> blocks m = []"
  by (simp add: blocks.simps)

lemma blocks_Cons: "length b = 64 \<Longrightarrow> blocks (b @ m) = b # blocks m"
  by (subst blocks.simps) simp

lemma blocks_single: "length b = 64 \<Longrightarrow> blocks b = [b]"
  using blocks_Cons [of b "[]"] by simp

lemma length_leftover [simp]: "length (leftover m) = length m mod 64"
  by (simp add: leftover_def minus_mult_div_eq_mod)

lemma blocks_append:
  "64 dvd length a \<Longrightarrow> blocks (a @ b) = blocks a @ blocks b"
proof (induction a rule: blocks.induct)
  case (1 m)
  show ?case
  proof (cases "m = []")
    case True
    then show ?thesis by simp
  next
    case False
    then have m: "64 \<le> length m" using "1.prems" by (auto dest: dvd_imp_le)
    then have d: "64 dvd length (drop 64 m)" using "1.prems" by (simp add: dvd_diff_nat)
    have "blocks (m @ b) = blocks (take 64 m @ (drop 64 m @ b))" by (simp flip: append_assoc)
    also have "\<dots> = take 64 m # blocks (drop 64 m @ b)"
      using m by (intro blocks_Cons) simp
    also have "\<dots> = take 64 m # blocks (drop 64 m) @ blocks b"
      using 1 m d by simp
    finally show ?thesis
      using m by (simp add: blocks.simps [of m])
  qed
qed

lemma leftover_append_blocks: "64 dvd length p \<Longrightarrow> leftover (p @ x) = leftover x"
  by (auto simp: leftover_def elim!: dvdE)

lemma leftover_split: obtains p where "a = p @ leftover a" and "64 dvd length p"
proof
  show "a = take (64 * (length a div 64)) a @ leftover a" by (simp add: leftover_def)
  show "64 dvd length (take (64 * (length a div 64)) a)" by (simp add: min_absorb2)
qed

lemma leftover_short [simp]: "length m < 64 \<Longrightarrow> leftover m = m"
  by (simp add: leftover_def)

text \<open>Only the leftover of what came before matters for the blocks that follow.\<close>

lemma blocks_append_leftover: "blocks (a @ b) = blocks a @ blocks (leftover a @ b)"
proof -
  obtain p where a: "a = p @ leftover a" and p: "64 dvd length p" by (rule leftover_split)
  have "blocks a = blocks p"
    using blocks_append [OF p, of "leftover a"] a by simp
  moreover have "blocks (a @ b) = blocks p @ blocks (leftover a @ b)"
    using blocks_append [OF p, of "leftover a @ b"] by (metis a append_assoc)
  ultimately show ?thesis by simp
qed

lemma leftover_append: "leftover (a @ b) = leftover (leftover a @ b)"
proof -
  obtain p where a: "a = p @ leftover a" and p: "64 dvd length p" by (rule leftover_split)
  have "leftover (a @ b) = leftover (p @ (leftover a @ b))" by (metis a append_assoc)
  then show ?thesis by (simp only: leftover_append_blocks [OF p])
qed

lemma leftover_Cons: "length b = 64 \<Longrightarrow> leftover (b @ m) = leftover m"
  by (simp add: leftover_append_blocks)

text \<open>A word of a block.\<close>

lemma take_4: "length b = 64 \<Longrightarrow> i < 16 \<Longrightarrow>
    take 4 (drop (4 * i) b) = [b ! (4 * i), b ! (4 * i + 1), b ! (4 * i + 2), b ! (4 * i + 3)]"
  by (rule nth_equalityI) (auto simp: less_Suc_eq numeral_eq_Suc nth_Cons')

section \<open>The contract of processblock and what the buffering makes of it\<close>

locale block_hash =
  fixes processblock :: "hash_ctx \<Rightarrow> byte list \<Rightarrow> hash_ctx"
    and compress :: "uint32 list \<Rightarrow> byte list \<Rightarrow> uint32 list"
    and iv :: "uint32 list"
    and lenbytes :: "uint64 \<Rightarrow> byte list"
  assumes process: "length b = 64 \<Longrightarrow> processblock s b = s\<lparr>h := compress (h s) b\<rparr>"
    and lenbytes_8: "length (lenbytes n) = 8"
begin

text \<open>The context has consumed the message \<open>m\<close>.\<close>

definition holds :: "hash_ctx \<Rightarrow> byte list \<Rightarrow> bool" where
  "holds s m \<longleftrightarrow> len s = of_nat (length m) \<and> h s = foldl compress iv (blocks m) \<and>
     length (buf s) = 64 \<and> take (length m mod 64) (buf s) = leftover m"

definition padding :: "nat \<Rightarrow> byte list" where
  "padding n = 0x80 # replicate ((119 - n mod 64) mod 64) 0 @ lenbytes (of_nat (8 * n))"

lemma holds_unat_len: "holds s m \<Longrightarrow> unat (len s) mod 64 = length m mod 64"
  by (simp add: holds_def unat_of_nat mod_mod_cancel)

lemma holds_init: "len s = 0 \<Longrightarrow> h s = iv \<Longrightarrow> length (buf s) = 64 \<Longrightarrow> holds s []"
  by (simp add: holds_def)

text \<open>The loop over whole blocks, from a context whose buffer holds nothing.\<close>

lemma update_loop_eq:
  "length (buf s) = 64 \<Longrightarrow>
    update_loop processblock s p =
      s\<lparr>h := foldl compress (h s) (blocks p), buf := buf_put (buf s) 0 (leftover p)\<rparr>"
proof (induction p arbitrary: s rule: blocks.induct)
  case (1 p)
  show ?case
  proof (cases "length p < 64")
    case True
    then show ?thesis by (subst update_loop.simps) simp
  next
    case False
    then have 64: "length (take 64 p) = 64" by simp
    have "blocks p = take 64 p # blocks (drop 64 p)"
      using False by (simp add: blocks.simps [of p])
    moreover have "leftover p = leftover (drop 64 p)"
      using leftover_Cons [OF 64, of "drop 64 p"] by simp
    ultimately show ?thesis
      using False 1 by (subst update_loop.simps) (simp add: process [OF 64])
  qed
qed

lemma holds_update:
  assumes "holds s a"
  shows "holds (update_with processblock s b) (a @ b)"
proof -
  define r where "r = length a mod 64"
  have r: "unat (len s) mod 64 = r" using holds_unat_len [OF assms] by (simp add: r_def)
  have buf: "length (buf s) = 64" "take r (buf s) = leftover a" and r64: "r < 64"
    and leftover: "length (leftover a) = r"
    using assms by (simp_all add: holds_def r_def)
  have state: "len s = of_nat (length a)" "h s = foldl compress iv (blocks a)"
    using assms by (simp_all add: holds_def)
  have B: "blocks (a @ b) = blocks a @ blocks (leftover a @ b)"
    and L: "leftover (a @ b) = leftover (leftover a @ b)"
    by (rule blocks_append_leftover, rule leftover_append)
  consider (short) "r \<noteq> 0" "length b < 64 - r" | (fill) "r \<noteq> 0" "\<not> length b < 64 - r" | (empty) "r = 0"
    by blast
  then show ?thesis
  proof cases
    case short
    have "length (a @ b) mod 64 = (r + length b) mod 64" by (simp only: r_def length_append mod_add_left_eq)
    also have "\<dots> = r + length b" using short(2) by (intro mod_less) linarith
    finally have "length (a @ b) mod 64 = r + length b" .
    with short buf state B L r leftover show ?thesis
      using take_buf_put [of r b "buf s"]
      by (simp add: holds_def update_with_def Let_def length_buf_put)
  next
    case fill
    define blk q where "blk = leftover a @ take (64 - r) b" and "q = drop (64 - r) b"
    have blk: "length blk = 64" "buf_put (buf s) r (take (64 - r) b) = blk"
      using fill buf r64 leftover by (auto simp: buf_put_def blk_def)
    have "leftover a @ b = blk @ q" by (simp add: blk_def q_def)
    then have B': "blocks (leftover a @ b) = blk # blocks q"
      and L': "leftover (leftover a @ b) = leftover q"
      using blocks_Cons [OF blk(1)] leftover_Cons [OF blk(1)] by metis+
    have len: "length (leftover q) = length (a @ b) mod 64"
      using L L' by (metis length_leftover)
    have put: "take (length (leftover q)) (buf_put blk 0 (leftover q)) = leftover q"
      using take_buf_put [of 0 "leftover q" blk] blk(1) by simp
    have "update_with processblock s b =
      update_loop processblock (s\<lparr>len := len s + of_nat (length b), buf := blk, h := compress (h s) blk\<rparr>) q"
      using fill r blk by (simp add: update_with_def Let_def process flip: q_def)
    then have "update_with processblock s b =
      s\<lparr>len := of_nat (length (a @ b)), h := foldl compress iv (blocks (a @ b)),
        buf := buf_put blk 0 (leftover q)\<rparr>"
      using state B B' blk(1) by (simp add: update_loop_eq)
    then show ?thesis
      using put blk(1) unfolding L L' holds_def len by (simp add: length_buf_put)
  next
    case empty
    then have "leftover a = []" using leftover by (metis length_0_conv)
    moreover have "length (leftover b) = length (a @ b) mod 64"
      using L \<open>leftover a = []\<close> by (metis append_Nil length_leftover)
    ultimately show ?thesis
      using empty r buf state B L take_buf_put [of 0 "leftover b" "buf s"]
      by (simp add: update_with_def Let_def update_loop_eq holds_def length_buf_put)
  qed
qed

lemma holds_updates:
  "holds s m \<Longrightarrow> holds (foldl (update_with processblock) s chunks) (m @ concat chunks)"
  using holds_update by (induction chunks arbitrary: s m) (simp, fastforce)

lemma padding_cases:
  "padding n = (if n mod 64 < 56 then 0x80 # replicate (55 - n mod 64) 0 @ lenbytes (of_nat (8 * n))
     else (0x80 # replicate (63 - n mod 64) 0) @ replicate 56 0 @ lenbytes (of_nat (8 * n)))"
proof -
  have r: "n mod 64 < 64" by simp
  show ?thesis
  proof (cases "n mod 64 < 56")
    case True
    define r where "r = n mod 64"
    then have "r < 56" using True by simp
    then have e: "119 - r = (55 - r) + 64" by arith
    have "(119 - r) mod 64 = ((55 - r) + 64) mod 64" by (subst e) (rule refl)
    also have "\<dots> = (55 - r) mod 64" by (rule mod_add_self2)
    also have "\<dots> = 55 - r" by (rule mod_less) arith
    finally have "(119 - n mod 64) mod 64 = 55 - n mod 64" by (unfold r_def)
    with True show ?thesis by (simp add: padding_def)
  next
    case False
    then have "(119 - n mod 64) mod 64 = 119 - n mod 64" by simp
    moreover have e: "119 - n mod 64 = (63 - n mod 64) + 56" using r False by linarith
    have "replicate (119 - n mod 64) (0 :: byte) = replicate (63 - n mod 64) 0 @ replicate 56 0"
      by (subst e) (rule replicate_add)
    ultimately show ?thesis
      using False by (simp add: padding_def del: replicate_Suc)
  qed
qed

lemma length_padding: "(length m + length (padding (length m))) mod 64 = 0"
proof -
  have "64 dvd length m mod 64 + length (padding (length m))"
    by (auto simp: padding_cases lenbytes_8)
  then show ?thesis by (simp add: dvd_eq_mod_eq_0 mod_simps)
qed

lemma buf_put_append: "length a = r \<Longrightarrow> buf_put (a @ b) r p = a @ buf_put b 0 p"
  by (simp add: buf_put_def)

lemma pad_state:
  assumes "holds s m"
  shows "h (pad_with processblock lenbytes s) = foldl compress iv (blocks (m @ padding (length m)))"
proof -
  let ?r = "length m mod 64"
  define n where "n = lenbytes (of_nat (8 * length m))"
  have n8: "length n = 8" by (simp add: n_def lenbytes_8)
  have pad: "padding (length m) = (if ?r < 56 then 0x80 # replicate (55 - ?r) 0 @ n
      else (0x80 # replicate (63 - ?r) 0) @ replicate 56 0 @ n)"
    by (simp add: padding_cases n_def)
  have r: "unat (len s) mod 64 = ?r" and r64: "?r < 64"
    using holds_unat_len [OF assms] by simp_all
  obtain t where buf: "buf s = leftover m @ t" and t: "length t = 64 - ?r"
    using assms by (metis append_take_drop_id holds_def length_drop)
  obtain x u where tx: "t = x # u" and u: "length u = 63 - ?r"
    using t r64 by (cases t) auto
  have state: "len s = of_nat (length m)" "h s = foldl compress iv (blocks m)"
    using assms by (simp_all add: holds_def)
  have b1: "(buf s)[?r := 0x80] = (leftover m @ [0x80]) @ u"
    by (simp add: buf tx list_update_append)
  have n: "lenbytes (len s * 8) = n" using state by (simp add: n_def mult.commute)
  have B: "blocks (m @ padding (length m)) = blocks m @ blocks (leftover m @ padding (length m))"
    by (rule blocks_append_leftover)
  show ?thesis
  proof (cases "?r < 56")
    case True
    let ?blk = "leftover m @ 0x80 # replicate (55 - ?r) 0 @ n"
    have blk: "length ?blk = 64" using True by (simp add: n8)
    have "buf_put ((leftover m @ [0x80]) @ u) (?r + 1) (replicate (55 - ?r) 0) =
        (leftover m @ 0x80 # replicate (55 - ?r) 0) @ drop (55 - ?r) u"
      by (simp add: buf_put_def)
    moreover have "56 - ?r = Suc (55 - ?r)" "Suc (63 - ?r) = 64 - ?r" using True by linarith+
    then have "buf_put ((leftover m @ 0x80 # replicate (55 - ?r) 0) @ drop (55 - ?r) u) 56 n = ?blk"
      using True u by (simp add: buf_put_def n8)
    ultimately have "h (pad_with processblock lenbytes s) = compress (h s) ?blk"
      using True r b1 n by (simp add: pad_with_def Let_def process [OF blk])
    with True state B blocks_single [OF blk] show ?thesis
      by (simp add: pad)
  next
    case False
    let ?b1 = "leftover m @ 0x80 # replicate (63 - ?r) 0" and ?b2 = "replicate 56 0 @ n"
    have blk: "length ?b1 = 64" "length ?b2 = 64" using False r64 by (simp_all add: n8)
    have "buf_put ((leftover m @ [0x80]) @ u) (?r + 1) (replicate (63 - ?r) 0) = ?b1"
      using u by (simp add: buf_put_def)
    moreover have "buf_put (buf_put ?b1 0 (replicate 56 0)) 56 n = ?b2"
      using blk(1) by (simp add: buf_put_def n8)
    ultimately have "h (pad_with processblock lenbytes s) = compress (compress (h s) ?b1) ?b2"
      using False r b1 n by (simp add: pad_with_def Let_def process [OF blk(1)] process [OF blk(2)])
    with False state B blocks_Cons [OF blk(1), of ?b2] blocks_single [OF blk(2)] show ?thesis
      by (simp add: pad)
  qed
qed

end

end
