(* ===== verification/Sha256.thy ===== *)
theory Sha256
  imports Block_Hash
begin

text \<open>
  utils/crypt_sha256.c: the block function, padding, init, update and sum, and the SHA-256 of
  FIPS 180-3 they implement. The standard is written out from its own defining equations (the
  functions with their boolean formulas, the message schedule as a recursion on the word
  number, the padding with its congruence), and the code is proved to compute it however the
  message is cut into updates.
\<close>

section \<open>The code\<close>

text \<open>Only called with \<open>0 < k < 32\<close>, so no shift in the source has the full width.\<close>

definition ror :: "uint32 \<Rightarrow> nat \<Rightarrow> uint32" where
  "ror n k = drop_bit k n OR push_bit (32 - k) n"

definition Ch :: "uint32 \<Rightarrow> uint32 \<Rightarrow> uint32 \<Rightarrow> uint32" where
  "Ch x y z = z XOR (x AND (y XOR z))"

definition Maj :: "uint32 \<Rightarrow> uint32 \<Rightarrow> uint32 \<Rightarrow> uint32" where
  "Maj x y z = (x AND y) OR (z AND (x OR y))"

definition S0 :: "uint32 \<Rightarrow> uint32" where
  "S0 x = ror x 2 XOR ror x 13 XOR ror x 22"

definition S1 :: "uint32 \<Rightarrow> uint32" where
  "S1 x = ror x 6 XOR ror x 11 XOR ror x 25"

definition R0 :: "uint32 \<Rightarrow> uint32" where
  "R0 x = ror x 7 XOR ror x 18 XOR drop_bit 3 x"

definition R1 :: "uint32 \<Rightarrow> uint32" where
  "R1 x = ror x 17 XOR ror x 19 XOR drop_bit 10 x"

text \<open>The table, row by row.\<close>

definition K :: "uint32 list" where
  "K = concat [
    [0x428a2f98, 0x71374491, 0xb5c0fbcf, 0xe9b5dba5, 0x3956c25b, 0x59f111f1, 0x923f82a4, 0xab1c5ed5],
    [0xd807aa98, 0x12835b01, 0x243185be, 0x550c7dc3, 0x72be5d74, 0x80deb1fe, 0x9bdc06a7, 0xc19bf174],
    [0xe49b69c1, 0xefbe4786, 0x0fc19dc6, 0x240ca1cc, 0x2de92c6f, 0x4a7484aa, 0x5cb0a9dc, 0x76f988da],
    [0x983e5152, 0xa831c66d, 0xb00327c8, 0xbf597fc7, 0xc6e00bf3, 0xd5a79147, 0x06ca6351, 0x14292967],
    [0x27b70a85, 0x2e1b2138, 0x4d2c6dfc, 0x53380d13, 0x650a7354, 0x766a0abb, 0x81c2c92e, 0x92722c85],
    [0xa2bfe8a1, 0xa81a664b, 0xc24b8b70, 0xc76c51a3, 0xd192e819, 0xd6990624, 0xf40e3585, 0x106aa070],
    [0x19a4c116, 0x1e376c08, 0x2748774c, 0x34b0bcb5, 0x391c0cb3, 0x4ed8aa4a, 0x5b9cca4f, 0x682e6ff3],
    [0x748f82ee, 0x78a5636f, 0x84c87814, 0x8cc70208, 0x90befffa, 0xa4506ceb, 0xbef9a3f7, 0xc67178f2]]"

text \<open>The two loops that fill \<^verbatim>\<open>W\<close>: the sixteen words of the block, then 48 derived ones.\<close>

definition W_block :: "byte list \<Rightarrow> uint32 list" where
  "W_block b = map (\<lambda>i.
     push_bit 24 (ucast (b ! (4 * i))) OR push_bit 16 (ucast (b ! (4 * i + 1))) OR
     push_bit 8 (ucast (b ! (4 * i + 2))) OR ucast (b ! (4 * i + 3))) [0..<16]"

definition W_next :: "uint32 list \<Rightarrow> nat \<Rightarrow> uint32 list" where
  "W_next W i = W @ [R1 (W ! (i - 2)) + W ! (i - 7) + R0 (W ! (i - 15)) + W ! (i - 16)]"

type_synonym working = "uint32 \<times> uint32 \<times> uint32 \<times> uint32 \<times> uint32 \<times> uint32 \<times> uint32 \<times> uint32"

definition sha_round :: "uint32 list \<Rightarrow> working \<Rightarrow> nat \<Rightarrow> working" where
  "sha_round W = (\<lambda>(a, b, c, d, e, f, g, h) i.
     let t1 = h + S1 e + Ch e f g + K ! i + W ! i;
         t2 = S0 a + Maj a b c
     in (t1 + t2, a, b, c, d + t1, e, f, g))"

definition processblock :: "hash_ctx \<Rightarrow> byte list \<Rightarrow> hash_ctx" where
  "processblock s b =
     (let W = foldl W_next (W_block b) [16..<64];
          (a, b', c, d, e, f, g, h') =
            foldl (sha_round W)
              (h s ! 0, h s ! 1, h s ! 2, h s ! 3, h s ! 4, h s ! 5, h s ! 6, h s ! 7) [0..<64]
      in s\<lparr>h := [h s ! 0 + a, h s ! 1 + b', h s ! 2 + c, h s ! 3 + d,
                 h s ! 4 + e, h s ! 5 + f, h s ! 6 + g, h s ! 7 + h']\<rparr>)"

definition lenbytes :: "uint64 \<Rightarrow> byte list" where
  "lenbytes n = [ucast (drop_bit 56 n), ucast (drop_bit 48 n), ucast (drop_bit 40 n),
     ucast (drop_bit 32 n), ucast (drop_bit 24 n), ucast (drop_bit 16 n), ucast (drop_bit 8 n), ucast n]"

definition pad :: "hash_ctx \<Rightarrow> hash_ctx" where
  "pad = pad_with processblock lenbytes"

definition sha256_init :: "hash_ctx \<Rightarrow> hash_ctx" where
  "sha256_init s = s\<lparr>len := 0,
     h := [0x6a09e667, 0xbb67ae85, 0x3c6ef372, 0xa54ff53a, 0x510e527f, 0x9b05688c, 0x1f83d9ab, 0x5be0cd19]\<rparr>"

definition sha256_sum :: "hash_ctx \<Rightarrow> hash_ctx \<times> byte list" where
  "sha256_sum s =
     (let s' = pad s
      in (s', concat (map (\<lambda>i. [ucast (drop_bit 24 (h s' ! i)), ucast (drop_bit 16 (h s' ! i)),
                               ucast (drop_bit 8 (h s' ! i)), ucast (h s' ! i)]) [0..<8])))"

definition sha256_update :: "hash_ctx \<Rightarrow> byte list \<Rightarrow> hash_ctx" where
  "sha256_update = update_with processblock"

section \<open>FIPS 180-3\<close>

text \<open>Big-endian bytes of a word (section 3.1).\<close>

definition be_bytes :: "'b::len word \<Rightarrow> byte list" where
  "be_bytes v = rev (bytes_le (LENGTH('b) div 8) v)"

definition be_word :: "byte list \<Rightarrow> uint32" where
  "be_word bs = of_bytes_le (rev bs)"

definition fips_Ch :: "uint32 \<Rightarrow> uint32 \<Rightarrow> uint32 \<Rightarrow> uint32" where
  "fips_Ch x y z = (x AND y) XOR (NOT x AND z)"

definition fips_Maj :: "uint32 \<Rightarrow> uint32 \<Rightarrow> uint32 \<Rightarrow> uint32" where
  "fips_Maj x y z = (x AND y) XOR (x AND z) XOR (y AND z)"

definition fips_Sigma0 :: "uint32 \<Rightarrow> uint32" where
  "fips_Sigma0 x = word_rotr 2 x XOR word_rotr 13 x XOR word_rotr 22 x"

definition fips_Sigma1 :: "uint32 \<Rightarrow> uint32" where
  "fips_Sigma1 x = word_rotr 6 x XOR word_rotr 11 x XOR word_rotr 25 x"

definition fips_sigma0 :: "uint32 \<Rightarrow> uint32" where
  "fips_sigma0 x = word_rotr 7 x XOR word_rotr 18 x XOR drop_bit 3 x"

definition fips_sigma1 :: "uint32 \<Rightarrow> uint32" where
  "fips_sigma1 x = word_rotr 17 x XOR word_rotr 19 x XOR drop_bit 10 x"

text \<open>The message schedule (section 6.2.2, step 1).\<close>

fun fips_W :: "byte list \<Rightarrow> nat \<Rightarrow> uint32" where
  "fips_W M t =
     (if t < 16 then be_word (take 4 (drop (4 * t) M))
      else fips_sigma1 (fips_W M (t - 2)) + fips_W M (t - 7) + fips_sigma0 (fips_W M (t - 15)) +
           fips_W M (t - 16))"

declare fips_W.simps [simp del]

text \<open>Steps 2 to 4: the working variables, a to h, as a list.\<close>

fun fips_step :: "byte list \<Rightarrow> nat \<Rightarrow> uint32 list \<Rightarrow> uint32 list" where
  "fips_step M t [a, b, c, d, e, f, g, h1] =
     (let T1 = h1 + fips_Sigma1 e + fips_Ch e f g + K ! t + fips_W M t;
          T2 = fips_Sigma0 a + fips_Maj a b c
      in [T1 + T2, a, b, c, d + T1, e, f, g])"
| "fips_step M t v = v"

definition fips_compress :: "uint32 list \<Rightarrow> byte list \<Rightarrow> uint32 list" where
  "fips_compress H M = map2 (+) H (fold (fips_step M) [0..<64] H)"

text \<open>The initial hash value (section 5.3.3).\<close>

definition fips_H0 :: "uint32 list" where
  "fips_H0 = [0x6a09e667, 0xbb67ae85, 0x3c6ef372, 0xa54ff53a, 0x510e527f, 0x9b05688c, 0x1f83d9ab, 0x5be0cd19]"

text \<open>Padding (section 5.1.1): one 1 bit, \<open>k\<close> zero bits for the least \<open>k\<close> with
  \<open>l + 1 + k \<equiv> 448 (mod 512)\<close>, the length \<open>l\<close> in 64 bits. Messages here are whole bytes, so
  the 1 bit and seven of the \<open>k\<close> zero bits are the byte 0x80.\<close>

definition fips_pad :: "byte list \<Rightarrow> byte list" where
  "fips_pad M =
     (let l = 8 * length M; k = (448 + 511 * (l + 1)) mod 512
      in M @ 0x80 # replicate ((k - 7) div 8) 0 @ be_bytes (of_nat l :: uint64))"

definition SHA256 :: "byte list \<Rightarrow> byte list" where
  "SHA256 M = concat (map be_bytes (foldl fips_compress fips_H0 (blocks (fips_pad M))))"

section \<open>The code's formulas are the standard's\<close>

lemma ror_word_rotr: "0 < k \<Longrightarrow> k < 32 \<Longrightarrow> ror n k = word_rotr k n"
proof (rule bit_eqI)
  fix i
  assume k: "0 < k" "k < 32" and "possible_bit TYPE(32 word) i"
  then have i: "i < 32" by simp
  have m: "(i + k) mod 32 = (if i + k < 32 then i + k else i + k - 32)"
    using i k by (auto simp: mod_if)
  have "\<not> bit n j" if "32 \<le> j" for j
    using that bit_imp_le_length [of n j] by auto
  with i k m show "bit (ror n k) i \<longleftrightarrow> bit (word_rotr k n) i"
    by (auto simp: ror_def bit_word_rotr_iff bit_simps add.commute)
qed

lemma Ch_fips: "Ch x y z = fips_Ch x y z"
  by (rule bit_eqI) (auto simp: Ch_def fips_Ch_def bit_simps)

lemma Maj_fips: "Maj x y z = fips_Maj x y z"
  by (rule bit_eqI) (auto simp: Maj_def fips_Maj_def bit_simps)

lemma sigmas_fips:
  "S0 x = fips_Sigma0 x" "S1 x = fips_Sigma1 x" "R0 x = fips_sigma0 x" "R1 x = fips_sigma1 x"
  by (simp_all add: S0_def S1_def R0_def R1_def fips_Sigma0_def fips_Sigma1_def fips_sigma0_def
      fips_sigma1_def ror_word_rotr)

lemma lenbytes_be_bytes: "lenbytes n = be_bytes n"
  by (simp add: lenbytes_def be_bytes_def bytes_le_def upt_rec)

lemma be_word_4:
  "be_word [a, b, c, d] = push_bit 24 (ucast a) OR push_bit 16 (ucast b) OR push_bit 8 (ucast c) OR ucast d"
  by (simp add: be_word_def push_bit_or or.commute or.left_commute or.assoc)

lemma W_block_fips: "length b = 64 \<Longrightarrow> i < 16 \<Longrightarrow> W_block b ! i = fips_W b i"
  by (simp add: W_block_def fips_W.simps take_4 be_word_4)

lemma length_W_block [simp]: "length (W_block b) = 16"
  by (simp add: W_block_def)

lemma schedule_fips:
  assumes b: "length b = 64" and n: "16 \<le> n"
  shows "foldl W_next (W_block b) [16..<n] = map (fips_W b) [0..<n]"
  using n
proof (induction n rule: dec_induct)
  case base
  show ?case by (rule nth_equalityI) (simp_all add: W_block_fips b)
next
  case (step n)
  have "fips_W b n = fips_sigma1 (fips_W b (n - 2)) + fips_W b (n - 7) + fips_sigma0 (fips_W b (n - 15)) +
      fips_W b (n - 16)"
    using step.hyps by (subst fips_W.simps) simp
  with step show ?case by (simp add: W_next_def sigmas_fips)
qed

definition working_list :: "working \<Rightarrow> uint32 list" where
  "working_list = (\<lambda>(a, b, c, d, e, f, g, h). [a, b, c, d, e, f, g, h])"

lemma sha_round_fips:
  "W ! t = fips_W b t \<Longrightarrow> working_list (sha_round W v t) = fips_step b t (working_list v)"
  by (simp add: working_list_def sha_round_def Let_def Ch_fips Maj_fips sigmas_fips split: prod.split)

lemma rounds_fips:
  "(\<And>t. t \<in> set ts \<Longrightarrow> W ! t = fips_W b t) \<Longrightarrow>
    working_list (foldl (sha_round W) v ts) = fold (fips_step b) ts (working_list v)"
  by (induction ts arbitrary: v) (simp_all add: sha_round_fips)

lemma list_8:
  assumes "length H = 8"
  shows "H = [H ! 0, H ! 1, H ! 2, H ! 3, H ! 4, H ! 5, H ! 6, H ! 7]"
  by (rule nth_equalityI) (use assms in \<open>auto simp: less_Suc_eq numeral_eq_Suc nth_Cons'\<close>)

text \<open>\<^verbatim>\<open>processblock\<close> reads eight state words, whatever the context holds.\<close>

definition state8 :: "uint32 list \<Rightarrow> uint32 list" where
  "state8 H = [H ! 0, H ! 1, H ! 2, H ! 3, H ! 4, H ! 5, H ! 6, H ! 7]"

lemma processblock_fips:
  assumes "length b = 64"
  shows "processblock s b = s\<lparr>h := fips_compress (state8 (h s)) b\<rparr>"
proof -
  let ?W = "foldl W_next (W_block b) [16..<64]"
  let ?v = "(h s ! 0, h s ! 1, h s ! 2, h s ! 3, h s ! 4, h s ! 5, h s ! 6, h s ! 7)"
  have "?W ! t = fips_W b t" if "t < 64" for t
    using that by (simp add: schedule_fips assms del: upt_rec_numeral)
  then have "working_list (foldl (sha_round ?W) ?v [0..<64]) = fold (fips_step b) [0..<64] (working_list ?v)"
    by (intro rounds_fips) auto
  then have "fold (fips_step b) [0..<64] (state8 (h s)) = working_list (foldl (sha_round ?W) ?v [0..<64])"
    by (simp add: working_list_def state8_def del: upt_rec_numeral)
  then show ?thesis
    by (cases "foldl (sha_round ?W) ?v [0..<64]")
      (simp add: processblock_def Let_def fips_compress_def working_list_def state8_def
        split: prod.split del: upt_rec_numeral)
qed

section \<open>The digest of a message cut into updates\<close>

interpretation sha: block_hash processblock "\<lambda>H b. fips_compress (state8 H) b" fips_H0 lenbytes
  by unfold_locales (simp_all add: processblock_fips lenbytes_def)

lemma length_fips_step: "length H = 8 \<Longrightarrow> length (fips_step M t H) = 8"
  by (cases "(M, t, H)" rule: fips_step.cases) (simp_all add: Let_def)

lemma length_fips_compress: "length H = 8 \<Longrightarrow> length (fips_compress H M) = 8"
proof -
  have "length (fold (fips_step M) ts H) = 8" if "length H = 8" for ts H
    using that by (induction ts arbitrary: H) (simp_all add: length_fips_step)
  then show "length H = 8 \<Longrightarrow> length (fips_compress H M) = 8"
    by (simp add: fips_compress_def del: upt_rec_numeral)
qed

lemma state8_id: "length H = 8 \<Longrightarrow> state8 H = H"
  unfolding state8_def by (rule list_8 [symmetric])

lemma compress_blocks:
  "length H = 8 \<Longrightarrow>
    foldl (\<lambda>H b. fips_compress (state8 H) b) H bs = foldl fips_compress H bs \<and>
    length (foldl fips_compress H bs) = 8"
  by (induction bs arbitrary: H) (simp_all add: state8_id length_fips_compress)

lemma pad_zeros: "((448 + 511 * (8 * n + 1)) mod 512 - 7) div 8 = (119 - n mod 64) mod (64 :: nat)"
proof -
  define r where "r = n mod 64"
  have r: "r < 64" by (simp add: r_def)
  have "448 + 511 * (8 * n + 1) = 7 + 8 * (119 + 511 * n)" by simp
  then have "(448 + 511 * (8 * n + 1)) mod 512 = 8 * ((119 + 511 * n) mod 64) + 7"
    using mod_mult2_eq [of "7 + 8 * (119 + 511 * n)" 8 64] div_mult_self2 [of 8 7 "119 + 511 * n"]
    by (simp only: mod_mult_self2) simp
  moreover have "(119 + 511 * n) mod 64 = (119 + 511 * r) mod 64"
    unfolding r_def by (metis mod_add_right_eq mod_mult_right_eq)
  moreover have "119 + 511 * r = (119 - r) + 64 * (8 * r)" using r by simp
  then have "(119 + 511 * r) mod 64 = (119 - r) mod 64" by (metis mod_mult_self2)
  ultimately show ?thesis by (simp add: r_def)
qed

lemma fips_pad_eq: "fips_pad M = M @ sha.padding (length M)"
  by (simp only: fips_pad_def Let_def sha.padding_def pad_zeros lenbytes_be_bytes)

lemma be_bytes_32:
  "be_bytes (v :: uint32) =
    [ucast (drop_bit 24 v), ucast (drop_bit 16 v), ucast (drop_bit 8 v), ucast v]"
  by (simp add: be_bytes_def bytes_le_def upt_rec)

lemma sha256_sum_holds:
  assumes "sha.holds s M"
  shows "snd (sha256_sum s) = SHA256 M"
proof -
  let ?H = "foldl fips_compress fips_H0 (blocks (fips_pad M))"
  have H: "h (pad s) = ?H" "length ?H = 8"
    using sha.pad_state [OF assms] compress_blocks [of fips_H0 "blocks (fips_pad M)"]
    by (simp_all add: pad_def fips_pad_eq fips_H0_def)
  have "map be_bytes ?H = map be_bytes (map ((!) ?H) [0..<8])"
    using map_nth [of ?H] H(2) by simp
  then show ?thesis
    using H(1) by (simp add: sha256_sum_def SHA256_def Let_def be_bytes_32 comp_def del: upt_rec_numeral)
qed

lemma sha256_updates_hold:
  "sha.holds s M \<Longrightarrow> sha.holds (foldl sha256_update s chunks) (M @ concat chunks)"
  unfolding sha256_update_def by (rule sha.holds_updates)

lemma sha256_init_holds: "length (buf s) = 64 \<Longrightarrow> sha.holds (sha256_init s) []"
  by (rule sha.holds_init) (simp_all add: sha256_init_def fips_H0_def)

text \<open>C8: Hashing a message with \<^verbatim>\<open>sha256_init\<close>, any sequence of
  \<^verbatim>\<open>sha256_update\<close> calls and \<^verbatim>\<open>sha256_sum\<close> gives the FIPS 180-3 digest of the
  concatenated pieces, however the message is cut (through the 64-byte block buffer, block
  boundaries, empty pieces and the one- or two-block padding).\<close>

theorem sha256_is_fips_180_3:
  assumes "length (buf s) = 64"
  shows "snd (sha256_sum (foldl sha256_update (sha256_init s) chunks)) = SHA256 (concat chunks)"
  using sha256_updates_hold [OF sha256_init_holds [OF assms], of chunks] by (simp add: sha256_sum_holds)

theorem sha256_is_fips_180_3_witness:
  "snd (sha256_sum (foldl sha256_update (sha256_init \<lparr>len = 7, h = [], buf = replicate 64 0xff\<rparr>)
      [[0x61], replicate 70 0x62, [], [0x63]])) = SHA256 (0x61 # replicate 70 0x62 @ [0x63])"
  using sha256_is_fips_180_3 [of "\<lparr>len = 7, h = [], buf = replicate 64 0xff\<rparr>"
      "[[0x61], replicate 70 0x62, [], [0x63]]"] by simp

section \<open>The constants\<close>

text \<open>The first 32 bits of the fractional part of the cube (square) root of \<open>p\<close> are the word
  \<open>k\<close>, by integer arithmetic: \<open>c\<close> is the root's integer part.\<close>

definition cube_root_frac :: "int \<Rightarrow> uint32 \<Rightarrow> bool" where
  "cube_root_frac p k \<longleftrightarrow> list_ex (\<lambda>c.
     (c * 2 ^ 32 + uint k) ^ 3 \<le> p * 2 ^ 96 \<and> p * 2 ^ 96 < (c * 2 ^ 32 + uint k + 1) ^ 3) [1..7]"

definition square_root_frac :: "int \<Rightarrow> uint32 \<Rightarrow> bool" where
  "square_root_frac p k \<longleftrightarrow> list_ex (\<lambda>c.
     (c * 2 ^ 32 + uint k) ^ 2 \<le> p * 2 ^ 64 \<and> p * 2 ^ 64 < (c * 2 ^ 32 + uint k + 1) ^ 2) [1..7]"

definition first_primes :: "int list" where
  "first_primes = [
    2, 3, 5, 7, 11, 13, 17, 19, 23, 29, 31, 37, 41, 43, 47, 53,
    59, 61, 67, 71, 73, 79, 83, 89, 97, 101, 103, 107, 109, 113, 127, 131,
    137, 139, 149, 151, 157, 163, 167, 173, 179, 181, 191, 193, 197, 199, 211, 223,
    227, 229, 233, 239, 241, 251, 257, 263, 269, 271, 277, 281, 283, 293, 307, 311]"

text \<open>The 64 round constants of the table are the first 32 bits of the fractional parts of
  the cube roots of the first 64 primes, and the eight words of \<^verbatim>\<open>sha256_init\<close> those of the
  square roots of the first eight: a wrong digit anywhere in the table is excluded.\<close>

theorem sha256_constants:
  "list_all2 cube_root_frac first_primes K \<and>
   list_all2 square_root_frac (take 8 first_primes) (h (sha256_init s))"
proof
  show "list_all2 cube_root_frac first_primes K" by code_simp
  have "list_all2 square_root_frac (take 8 first_primes) fips_H0" by code_simp
  then show "list_all2 square_root_frac (take 8 first_primes) (h (sha256_init s))"
    by (simp add: sha256_init_def fips_H0_def)
qed

end
