(* ===== verification/Sine_Table.thy ===== *)
theory Sine_Table
  imports Prelude Complex_Main
begin

text \<open>
  The constants of RFC 1321: number \<open>i\<close> is the integer part of 2^32 times the absolute value of the sine of
  \<open>i\<close> radians. A table of them is checked by computing the sines in fixed point, with a bound
  for the error, from the addition theorems.
\<close>

definition rfc_T :: "nat \<Rightarrow> uint32" where
  "rfc_T i = of_int \<lfloor>4294967296 * \<bar>sin (real i)\<bar>\<rfloor>"

section \<open>The sine and cosine of 1\<close>

text \<open>Fixed point with 88 binary places.\<close>

abbreviation one_88 :: int where
  "one_88 \<equiv> 0x10000000000000000000000"

definition sin_1 :: int where "sin_1 = 0xd76aa47848677020c6e9e9"
definition cos_1 :: int where "cos_1 = 0x8a51407da8345c91c2466d"

lemma sin_bound: "\<bar>sin 1 - (\<Sum>m<36. sin_coeff m)\<bar> \<le> (1 / fact 36 :: real)"
  using Maclaurin_sin_bound [of 1 36] by (simp add: inverse_eq_divide)

lemma cos_bound: "\<bar>cos 1 - (\<Sum>m<36. cos_coeff m)\<bar> \<le> (1 / fact 36 :: real)"
proof -
  obtain t :: real where "cos 1 = (\<Sum>m<36. cos_coeff m * 1 ^ m) + (cos (t + 1 / 2 * real 36 * pi) / fact 36) * 1 ^ 36"
    using Maclaurin_cos_expansion [of 1 36] by blast
  then have "\<bar>cos 1 - (\<Sum>m<36. cos_coeff m)\<bar> = \<bar>cos (t + 1 / 2 * real 36 * pi)\<bar> / fact 36"
    by (simp del: of_nat_numeral)
  also have "\<dots> \<le> 1 / fact 36" by (intro divide_right_mono abs_cos_le_one) simp
  finally show ?thesis .
qed

lemma sin_sum: "(\<Sum>m<36. sin_coeff m) = (8695044195440662442699982866274228962149 / 10333147966386144929666651337523200000000 :: real)"
  by (simp add: eval_nat_numeral sin_coeff_Suc cos_coeff_Suc)

lemma cos_sum: "(\<Sum>m<36. cos_coeff m) = (159514962089003222313242436031601809697 / 295232799039604140847618609643520000000 :: real)"
  by (simp add: eval_nat_numeral sin_coeff_Suc cos_coeff_Suc)

text \<open>An integer \<open>s\<close> stands for \<open>x\<close> up to \<open>e\<close> units.\<close>

definition approx :: "int \<Rightarrow> real \<Rightarrow> int \<Rightarrow> bool" where
  "approx e x s \<longleftrightarrow> \<bar>of_int one_88 * x - of_int s\<bar> \<le> of_int e"

lemma approx_one: "approx 2 (sin 1) sin_1" "approx 2 (cos 1) cos_1"
proof -
  have f: "fact 36 = (371993326789901217467999448150835200000000 :: real)"
    by (simp add: fact_numeral)
  show "approx 2 (sin 1) sin_1"
    using sin_bound unfolding sin_sum f approx_def sin_1_def abs_le_iff of_int_numeral by linarith
  show "approx 2 (cos 1) cos_1"
    using cos_bound unfolding cos_sum f approx_def cos_1_def abs_le_iff of_int_numeral by linarith
qed

section \<open>The next number\<close>

lemma approx_mult:
  assumes x: "approx e x s" "\<bar>x\<bar> \<le> 1" and y: "approx 2 y t"
  shows "\<bar>of_int one_88 * (of_int one_88 * (x * y)) - of_int (s * t)\<bar> \<le> of_int (2 * one_88 + e * \<bar>t\<bar>)"
proof -
  let ?D = "of_int one_88 :: real"
  have "?D * (?D * (x * y)) - of_int (s * t) = (?D * x) * (?D * y - of_int t) + (?D * x - of_int s) * of_int t"
    by (simp add: algebra_simps)
  also have "\<bar>\<dots>\<bar> \<le> \<bar>?D * x\<bar> * \<bar>?D * y - of_int t\<bar> + \<bar>?D * x - of_int s\<bar> * \<bar>of_int t\<bar>"
    by (rule order_trans [OF abs_triangle_ineq]) (simp add: abs_mult)
  also have "\<dots> \<le> ?D * 2 + of_int e * \<bar>of_int t\<bar>"
    using x y unfolding approx_def by (intro add_mono mult_mono) (simp_all add: abs_mult)
  finally show ?thesis by (simp add: mult.commute)
qed

text \<open>The error grows by a half, as the sine and the cosine of 1 add up to less than 3/2.\<close>

definition next_error :: "int \<Rightarrow> int" where
  "next_error e = 3 * e div 2 + 6"

definition turn :: "int \<times> int \<Rightarrow> int \<times> int" where
  "turn = (\<lambda>(s, c). (drop_bit 88 (s * cos_1 + c * sin_1), drop_bit 88 (c * cos_1 - s * sin_1)))"

lemma approx_div:
  assumes "\<bar>of_int one_88 * (of_int one_88 * x) - of_int a\<bar> \<le> of_int b" and "b \<le> (e - 1) * one_88"
  shows "approx e x (drop_bit 88 a)"
proof -
  have d: "drop_bit 88 a = a div one_88" by (simp add: drop_bit_eq_div)
  let ?D = "of_int one_88 :: real" and ?q = "a div one_88" and ?r = "a mod one_88"
  have a: "of_int a = ?D * of_int ?q + of_int ?r"
    using arg_cong [OF mult_div_mod_eq [of one_88 a, symmetric], of real_of_int] by (simp only: of_int_add of_int_mult)
  have r: "0 \<le> ?r" "?r < one_88" by simp_all
  have "of_int b \<le> (of_int ((e - 1) * one_88) :: real)" using assms(2) by (simp only: of_int_le_iff)
  then have "\<bar>?D * (?D * x) - ?D * of_int ?q\<bar> \<le> (of_int e - 1) * ?D + of_int ?r"
    using assms(1) r(1) unfolding a by (simp add: algebra_simps)
  also have "\<dots> \<le> ?D * of_int e" using r(2) by (simp add: algebra_simps)
  finally have "?D * \<bar>?D * x - of_int ?q\<bar> \<le> ?D * of_int e"
    by (simp add: abs_mult flip: right_diff_distrib)
  then show ?thesis unfolding approx_def d by simp
qed

lemma approx_turn:
  assumes s: "approx e (sin x) s" and c: "approx e (cos x) c" and e: "0 \<le> e"
  shows "approx (next_error e) (sin (x + 1)) (fst (turn (s, c)))"
    and "approx (next_error e) (cos (x + 1)) (snd (turn (s, c)))"
proof -
  have b: "2 * one_88 + e * \<bar>cos_1\<bar> + (2 * one_88 + e * \<bar>sin_1\<bar>) \<le> (next_error e - 1) * one_88"
  proof -
    have "2 * (\<bar>cos_1\<bar> + \<bar>sin_1\<bar>) \<le> 3 * one_88" by (simp add: cos_1_def sin_1_def)
    then have "2 * (e * (\<bar>cos_1\<bar> + \<bar>sin_1\<bar>)) \<le> 3 * e * one_88"
      using e mult_left_mono [of "2 * (\<bar>cos_1\<bar> + \<bar>sin_1\<bar>)" "3 * one_88" e] by (simp add: algebra_simps)
    moreover have "3 * e \<le> 2 * (3 * e div 2) + 1" by presburger
    ultimately show ?thesis unfolding next_error_def by (simp add: algebra_simps)
  qed
  note m = approx_mult [OF _ _ approx_one(1)] approx_mult [OF _ _ approx_one(2)]
  let ?D = "of_int one_88 :: real"
  have "\<bar>?D * (?D * sin (x + 1)) - of_int (s * cos_1 + c * sin_1)\<bar> \<le>
      of_int (2 * one_88 + e * \<bar>cos_1\<bar> + (2 * one_88 + e * \<bar>sin_1\<bar>))"
    using m(2) [OF s] m(1) [OF c] unfolding sin_add of_int_add distrib_left by simp
  from approx_div [OF this b] show "approx (next_error e) (sin (x + 1)) (fst (turn (s, c)))"
    by (simp add: turn_def)
  have "\<bar>?D * (?D * cos (x + 1)) - of_int (c * cos_1 - s * sin_1)\<bar> \<le>
      of_int (2 * one_88 + e * \<bar>cos_1\<bar> + (2 * one_88 + e * \<bar>sin_1\<bar>))"
    using m(2) [OF c] m(1) [OF s] unfolding cos_add of_int_add of_int_diff right_diff_distrib by simp
  from approx_div [OF this b] show "approx (next_error e) (cos (x + 1)) (snd (turn (s, c)))"
    by (simp add: turn_def)
qed

section \<open>Checking a table\<close>

text \<open>All numbers within the error of the approximation have the same integer part.\<close>

fun table_ok :: "int \<times> int \<Rightarrow> int \<Rightarrow> int list \<Rightarrow> bool" where
  "table_ok sc e [] \<longleftrightarrow> True"
| "table_ok sc e (t # ts) \<longleftrightarrow>
     t * one_88 \<le> (\<bar>fst sc\<bar> - e) * 4294967296 \<and> (\<bar>fst sc\<bar> + e) * 4294967296 < (t + 1) * one_88 \<and>
     table_ok (turn sc) (next_error e) ts"

lemma integer_part:
  assumes s: "approx e x s" and t: "t * one_88 \<le> (\<bar>s\<bar> - e) * 4294967296" "(\<bar>s\<bar> + e) * 4294967296 < (t + 1) * one_88"
  shows "\<lfloor>4294967296 * \<bar>x\<bar>\<rfloor> = t"
proof (rule floor_unique)
  let ?D = "of_int one_88 :: real"
  have "\<bar>?D * \<bar>x\<bar> - \<bar>of_int s\<bar>\<bar> \<le> of_int e"
    using s abs_triangle_ineq3 [of "?D * x" "of_int s"] unfolding approx_def by (simp add: abs_mult)
  then have d: "of_int (\<bar>s\<bar> - e) \<le> ?D * \<bar>x\<bar>" "?D * \<bar>x\<bar> \<le> of_int (\<bar>s\<bar> + e)" by (simp_all add: abs_le_iff)
  have "?D * of_int t \<le> of_int (\<bar>s\<bar> - e) * 4294967296"
    using t(1) of_int_le_iff [of "t * one_88" "(\<bar>s\<bar> - e) * 4294967296", where 'a = real] by (simp add: mult.commute)
  with d(1) show "of_int t \<le> 4294967296 * \<bar>x\<bar>" by simp
  have "of_int (\<bar>s\<bar> + e) * 4294967296 < ?D * (of_int t + 1)"
    using t(2) of_int_less_iff [of "(\<bar>s\<bar> + e) * 4294967296" "(t + 1) * one_88", where 'a = real] by (simp add: mult.commute)
  with d(2) show "4294967296 * \<bar>x\<bar> < of_int t + 1" by simp
qed

lemma table_ok_nth:
  assumes "approx e (sin (real k)) (fst sc)" "approx e (cos (real k)) (snd sc)" "0 \<le> e" "table_ok sc e ts" "i < length ts"
  shows "\<lfloor>4294967296 * \<bar>sin (real (k + i))\<bar>\<rfloor> = ts ! i"
  using assms
proof (induction ts arbitrary: sc e k i)
  case (Cons t ts)
  show ?case
  proof (cases i)
    case 0
    then show ?thesis using Cons.prems integer_part [of e "sin (real k)" "fst sc" t] by simp
  next
    case (Suc j)
    have "approx (next_error e) (sin (real (Suc k))) (fst (turn sc))" "approx (next_error e) (cos (real (Suc k))) (snd (turn sc))"
      using approx_turn [of e "real k" "fst sc" "snd sc"] Cons.prems by (simp_all add: add.commute)
    moreover have "0 \<le> next_error e" using Cons.prems by (simp add: next_error_def)
    ultimately show ?thesis using Cons.IH [of "next_error e" "Suc k" "turn sc" j] Cons.prems Suc by simp
  qed
qed simp

lemma table_is_rfc_T:
  assumes "table_ok (sin_1, cos_1) 2 (map uint ts)" and "i < length ts"
  shows "ts ! i = rfc_T (Suc i)"
  using table_ok_nth [of 2 1 "(sin_1, cos_1)" "map uint ts" i] approx_one assms by (simp add: rfc_T_def add.commute)

end
