(* ===== verification/Md5.thy ===== *)
theory Md5
  imports Block_Hash Sine_Table
begin

text \<open>
  utils/crypt_md5.c: the four unrolled loops of the block function, padding, init, update and
  sum. The specification is RFC 1321 in its single-step form (one operation per step, the four
  registers rotating, the constants \<open>rfc_T\<close> from the sine function), and the code, with its table, is proved
  to compute it however the message is cut into updates.
\<close>

section \<open>The code\<close>

definition rol :: "uint32 \<Rightarrow> nat \<Rightarrow> uint32" where
  "rol n k = push_bit k n OR drop_bit (32 - k) n"

definition md5_F :: "uint32 \<Rightarrow> uint32 \<Rightarrow> uint32 \<Rightarrow> uint32" where
  "md5_F x y z = z XOR (x AND (y XOR z))"

definition md5_G :: "uint32 \<Rightarrow> uint32 \<Rightarrow> uint32 \<Rightarrow> uint32" where
  "md5_G x y z = y XOR (z AND (y XOR x))"

definition md5_H :: "uint32 \<Rightarrow> uint32 \<Rightarrow> uint32 \<Rightarrow> uint32" where
  "md5_H x y z = x XOR y XOR z"

definition md5_I :: "uint32 \<Rightarrow> uint32 \<Rightarrow> uint32 \<Rightarrow> uint32" where
  "md5_I x y z = y XOR (x OR NOT z)"

text \<open>The macros assign their first argument; here they are the value assigned.\<close>

definition FF :: "uint32 \<Rightarrow> uint32 \<Rightarrow> uint32 \<Rightarrow> uint32 \<Rightarrow> uint32 \<Rightarrow> nat \<Rightarrow> uint32 \<Rightarrow> uint32" where
  "FF a b c d w s t = rol (a + (md5_F b c d + w + t)) s + b"

definition GG :: "uint32 \<Rightarrow> uint32 \<Rightarrow> uint32 \<Rightarrow> uint32 \<Rightarrow> uint32 \<Rightarrow> nat \<Rightarrow> uint32 \<Rightarrow> uint32" where
  "GG a b c d w s t = rol (a + (md5_G b c d + w + t)) s + b"

definition HH :: "uint32 \<Rightarrow> uint32 \<Rightarrow> uint32 \<Rightarrow> uint32 \<Rightarrow> uint32 \<Rightarrow> nat \<Rightarrow> uint32 \<Rightarrow> uint32" where
  "HH a b c d w s t = rol (a + (md5_H b c d + w + t)) s + b"

definition II :: "uint32 \<Rightarrow> uint32 \<Rightarrow> uint32 \<Rightarrow> uint32 \<Rightarrow> uint32 \<Rightarrow> nat \<Rightarrow> uint32 \<Rightarrow> uint32" where
  "II a b c d w s t = rol (a + (md5_I b c d + w + t)) s + b"

definition tab :: "uint32 list" where
  "tab = [
    0xd76aa478, 0xe8c7b756, 0x242070db, 0xc1bdceee, 0xf57c0faf, 0x4787c62a, 0xa8304613, 0xfd469501,
    0x698098d8, 0x8b44f7af, 0xffff5bb1, 0x895cd7be, 0x6b901122, 0xfd987193, 0xa679438e, 0x49b40821,
    0xf61e2562, 0xc040b340, 0x265e5a51, 0xe9b6c7aa, 0xd62f105d, 0x02441453, 0xd8a1e681, 0xe7d3fbc8,
    0x21e1cde6, 0xc33707d6, 0xf4d50d87, 0x455a14ed, 0xa9e3e905, 0xfcefa3f8, 0x676f02d9, 0x8d2a4c8a,
    0xfffa3942, 0x8771f681, 0x6d9d6122, 0xfde5380c, 0xa4beea44, 0x4bdecfa9, 0xf6bb4b60, 0xbebfbc70,
    0x289b7ec6, 0xeaa127fa, 0xd4ef3085, 0x04881d05, 0xd9d4d039, 0xe6db99e5, 0x1fa27cf8, 0xc4ac5665,
    0xf4292244, 0x432aff97, 0xab9423a7, 0xfc93a039, 0x655b59c3, 0x8f0ccc92, 0xffeff47d, 0x85845dd1,
    0x6fa87e4f, 0xfe2ce6e0, 0xa3014314, 0x4e0811a1, 0xf7537e82, 0xbd3af235, 0x2ad7d2bb, 0xeb86d391]"

definition W_md5 :: "byte list \<Rightarrow> uint32 list" where
  "W_md5 b = map (\<lambda>i.
     ucast (b ! (4 * i)) OR push_bit 8 (ucast (b ! (4 * i + 1))) OR
     push_bit 16 (ucast (b ! (4 * i + 2))) OR push_bit 24 (ucast (b ! (4 * i + 3)))) [0..<16]"

type_synonym md5_vars = "uint32 \<times> uint32 \<times> uint32 \<times> uint32"

text \<open>The bodies of the four loops: four operations each.\<close>

definition FF_quad :: "uint32 list \<Rightarrow> md5_vars \<Rightarrow> nat \<Rightarrow> md5_vars" where
  "FF_quad W = (\<lambda>(a, b, c, d) i.
     let a = FF a b c d (W ! i) 7 (tab ! i);
         d = FF d a b c (W ! (i + 1)) 12 (tab ! (i + 1));
         c = FF c d a b (W ! (i + 2)) 17 (tab ! (i + 2));
         b = FF b c d a (W ! (i + 3)) 22 (tab ! (i + 3))
     in (a, b, c, d))"

definition GG_quad :: "uint32 list \<Rightarrow> md5_vars \<Rightarrow> nat \<Rightarrow> md5_vars" where
  "GG_quad W = (\<lambda>(a, b, c, d) i.
     let a = GG a b c d (W ! ((5 * i + 1) mod 16)) 5 (tab ! i);
         d = GG d a b c (W ! ((5 * (i + 1) + 1) mod 16)) 9 (tab ! (i + 1));
         c = GG c d a b (W ! ((5 * (i + 2) + 1) mod 16)) 14 (tab ! (i + 2));
         b = GG b c d a (W ! ((5 * (i + 3) + 1) mod 16)) 20 (tab ! (i + 3))
     in (a, b, c, d))"

definition HH_quad :: "uint32 list \<Rightarrow> md5_vars \<Rightarrow> nat \<Rightarrow> md5_vars" where
  "HH_quad W = (\<lambda>(a, b, c, d) i.
     let a = HH a b c d (W ! ((3 * i + 5) mod 16)) 4 (tab ! i);
         d = HH d a b c (W ! ((3 * (i + 1) + 5) mod 16)) 11 (tab ! (i + 1));
         c = HH c d a b (W ! ((3 * (i + 2) + 5) mod 16)) 16 (tab ! (i + 2));
         b = HH b c d a (W ! ((3 * (i + 3) + 5) mod 16)) 23 (tab ! (i + 3))
     in (a, b, c, d))"

definition II_quad :: "uint32 list \<Rightarrow> md5_vars \<Rightarrow> nat \<Rightarrow> md5_vars" where
  "II_quad W = (\<lambda>(a, b, c, d) i.
     let a = II a b c d (W ! (7 * i mod 16)) 6 (tab ! i);
         d = II d a b c (W ! (7 * (i + 1) mod 16)) 10 (tab ! (i + 1));
         c = II c d a b (W ! (7 * (i + 2) mod 16)) 15 (tab ! (i + 2));
         b = II b c d a (W ! (7 * (i + 3) mod 16)) 21 (tab ! (i + 3))
     in (a, b, c, d))"

text \<open>\<^verbatim>\<open>while (i < n)\<close> around such a body.\<close>

function md5_while :: "nat \<Rightarrow> (md5_vars \<Rightarrow> nat \<Rightarrow> md5_vars) \<Rightarrow> md5_vars \<times> nat \<Rightarrow> md5_vars \<times> nat" where
  "md5_while n body (v, i) = (if i < n then md5_while n body (body v i, i + 4) else (v, i))"
  by pat_completeness auto
termination
  by (relation "measure (\<lambda>(n, body, v, i). n - i)") auto

declare md5_while.simps [simp del]

definition processblock :: "hash_ctx \<Rightarrow> byte list \<Rightarrow> hash_ctx" where
  "processblock s b =
     (let W = W_md5 b;
          st = md5_while 16 (FF_quad W) ((h s ! 0, h s ! 1, h s ! 2, h s ! 3), 0);
          st = md5_while 32 (GG_quad W) st;
          st = md5_while 48 (HH_quad W) st;
          ((a, b', c, d), i) = md5_while 64 (II_quad W) st
      in s\<lparr>h := [h s ! 0 + a, h s ! 1 + b', h s ! 2 + c, h s ! 3 + d]\<rparr>)"

definition lenbytes :: "uint64 \<Rightarrow> byte list" where
  "lenbytes n = [ucast n, ucast (drop_bit 8 n), ucast (drop_bit 16 n), ucast (drop_bit 24 n),
     ucast (drop_bit 32 n), ucast (drop_bit 40 n), ucast (drop_bit 48 n), ucast (drop_bit 56 n)]"

definition pad :: "hash_ctx \<Rightarrow> hash_ctx" where
  "pad = pad_with processblock lenbytes"

definition md5_init :: "hash_ctx \<Rightarrow> hash_ctx" where
  "md5_init s = s\<lparr>len := 0, h := [0x67452301, 0xefcdab89, 0x98badcfe, 0x10325476]\<rparr>"

definition md5_sum :: "hash_ctx \<Rightarrow> hash_ctx \<times> byte list" where
  "md5_sum s =
     (let s' = pad s
      in (s', concat (map (\<lambda>i. [ucast (h s' ! i), ucast (drop_bit 8 (h s' ! i)),
                               ucast (drop_bit 16 (h s' ! i)), ucast (drop_bit 24 (h s' ! i))]) [0..<4])))"

definition md5_update :: "hash_ctx \<Rightarrow> byte list \<Rightarrow> hash_ctx" where
  "md5_update = update_with processblock"

section \<open>RFC 1321\<close>

text \<open>Section 3.4, with the auxiliary functions in their conditional form.\<close>

definition rfc_fun :: "nat \<Rightarrow> uint32 \<Rightarrow> uint32 \<Rightarrow> uint32 \<Rightarrow> uint32" where
  "rfc_fun i x y z =
     (if i < 16 then (x AND y) OR (NOT x AND z)
      else if i < 32 then (x AND z) OR (y AND NOT z)
      else if i < 48 then x XOR y XOR z
      else y XOR (x OR NOT z))"

text \<open>The index of the message word, and the shift, of step \<open>i\<close>.\<close>

definition rfc_k :: "nat \<Rightarrow> nat" where
  "rfc_k i = (if i < 16 then i else if i < 32 then 5 * i + 1 else if i < 48 then 3 * i + 5 else 7 * i) mod 16"

definition rfc_s :: "nat \<Rightarrow> nat" where
  "rfc_s i = [[7, 12, 17, 22], [5, 9, 14, 20], [4, 11, 16, 23], [6, 10, 15, 21]] ! (i div 16) ! (i mod 4)"

definition le_word :: "byte list \<Rightarrow> uint32" where
  "le_word bs = of_bytes_le bs"

text \<open>One step, the registers rotated so that the next step has the same form. The RFC numbers the
  constants from 1.\<close>

definition rfc_step :: "byte list \<Rightarrow> md5_vars \<Rightarrow> nat \<Rightarrow> md5_vars" where
  "rfc_step M = (\<lambda>(a, b, c, d) i.
     (d, b + word_rotl (rfc_s i) (a + rfc_fun i b c d + le_word (take 4 (drop (4 * rfc_k i) M)) + rfc_T (Suc i)), b, c))"

fun rfc_compress :: "md5_vars \<Rightarrow> byte list \<Rightarrow> md5_vars" where
  "rfc_compress (A, B, C, D) M =
     (let (a, b, c, d) = foldl (rfc_step M) (A, B, C, D) [0..<64] in (A + a, B + b, C + c, D + d))"

text \<open>Padding to 56 bytes modulo 64 (section 3.1), then the bit length, low byte first.\<close>

definition rfc_pad :: "byte list \<Rightarrow> byte list" where
  "rfc_pad M = M @ 0x80 # replicate ((119 - length M mod 64) mod 64) 0 @
     bytes_le 8 (of_nat (8 * length M) :: uint64)"

definition MD5 :: "byte list \<Rightarrow> byte list" where
  "MD5 M =
     (let (A, B, C, D) = foldl rfc_compress (0x67452301, 0xefcdab89, 0x98badcfe, 0x10325476) (blocks (rfc_pad M))
      in bytes_le 4 A @ bytes_le 4 B @ bytes_le 4 C @ bytes_le 4 D)"

section \<open>The unrolled loops are sixty-four steps\<close>

lemma tab_is_rfc_T: "i < 64 \<Longrightarrow> tab ! i = rfc_T (Suc i)"
proof (rule table_is_rfc_T)
  show "table_ok (sin_1, cos_1) 2 (map uint tab)" by code_simp
qed (simp add: tab_def)

lemma rol_word_rotl: "0 < k \<Longrightarrow> k < 32 \<Longrightarrow> rol n k = word_rotl k n"
proof (rule bit_eqI)
  fix i
  assume k: "0 < k" "k < 32" and "possible_bit TYPE(32 word) i"
  then have i: "i < 32" by simp
  have m: "(i + 32 - k) mod 32 = (if k \<le> i then i - k else i + 32 - k)"
    using i k by (auto simp: mod_if)
  have "\<not> bit n j" if "32 \<le> j" for j
    using that bit_imp_le_length [of n j] by auto
  with i k m show "bit (rol n k) i \<longleftrightarrow> bit (word_rotl k n) i"
    by (auto simp: rol_def bit_word_rotl_iff bit_simps not_le Nat.add_diff_assoc2 add.commute [of 32])
qed

lemma md5_funs:
  "i < 16 \<Longrightarrow> md5_F x y z = rfc_fun i x y z"
  "16 \<le> i \<Longrightarrow> i < 32 \<Longrightarrow> md5_G x y z = rfc_fun i x y z"
  "32 \<le> i \<Longrightarrow> i < 48 \<Longrightarrow> md5_H x y z = rfc_fun i x y z"
  "48 \<le> i \<Longrightarrow> md5_I x y z = rfc_fun i x y z"
  by (auto simp: md5_F_def md5_G_def md5_H_def md5_I_def rfc_fun_def bit_simps intro!: bit_eqI)

lemma le_word_4:
  "le_word [a, b, c, d] = ucast a OR push_bit 8 (ucast b) OR push_bit 16 (ucast c) OR push_bit 24 (ucast d)"
  by (simp add: le_word_def push_bit_or or.assoc)

lemma W_md5_nth: "length b = 64 \<Longrightarrow> i < 16 \<Longrightarrow> W_md5 b ! i = le_word (take 4 (drop (4 * i) b))"
  by (simp add: W_md5_def take_4 le_word_4)

lemma rfc_k_less: "rfc_k i < 16"
  by (simp add: rfc_k_def)

lemma rfc_s_bounds: "i < 64 \<Longrightarrow> 0 < rfc_s i \<and> rfc_s i < 32"
proof -
  have "list_all (\<lambda>i. 0 < rfc_s i \<and> rfc_s i < 32) [0..<64]" by code_simp
  then show "i < 64 \<Longrightarrow> 0 < rfc_s i \<and> rfc_s i < 32" by (simp add: list_all_iff del: upt_rec_numeral)
qed

text \<open>A step in terms of the code's macros, for each of the four rounds.\<close>

lemma rfc_step_macro:
  assumes "length M = 64"
  shows "i < 16 \<Longrightarrow> rfc_step M (a, b, c, d) i = (d, FF a b c d (W_md5 M ! i) (rfc_s i) (tab ! i), b, c)"
    and "16 \<le> i \<Longrightarrow> i < 32 \<Longrightarrow> rfc_step M (a, b, c, d) i =
      (d, GG a b c d (W_md5 M ! ((5 * i + 1) mod 16)) (rfc_s i) (tab ! i), b, c)"
    and "32 \<le> i \<Longrightarrow> i < 48 \<Longrightarrow> rfc_step M (a, b, c, d) i =
      (d, HH a b c d (W_md5 M ! ((3 * i + 5) mod 16)) (rfc_s i) (tab ! i), b, c)"
    and "48 \<le> i \<Longrightarrow> i < 64 \<Longrightarrow> rfc_step M (a, b, c, d) i =
      (d, II a b c d (W_md5 M ! (7 * i mod 16)) (rfc_s i) (tab ! i), b, c)"
proof -
  have w: "le_word (take 4 (drop (4 * rfc_k i) M)) = W_md5 M ! rfc_k i"
    using W_md5_nth [OF assms rfc_k_less] by simp
  note s = rfc_s_bounds [of i] tab_is_rfc_T [of i] and defs = rfc_step_def w FF_def GG_def HH_def II_def rol_word_rotl
  show "i < 16 \<Longrightarrow> rfc_step M (a, b, c, d) i = (d, FF a b c d (W_md5 M ! i) (rfc_s i) (tab ! i), b, c)"
    using s by (simp add: defs md5_funs W_md5_nth [OF assms] rfc_k_def add.assoc add.commute [of b])
  show "16 \<le> i \<Longrightarrow> i < 32 \<Longrightarrow> rfc_step M (a, b, c, d) i =
      (d, GG a b c d (W_md5 M ! ((5 * i + 1) mod 16)) (rfc_s i) (tab ! i), b, c)"
    using s by (simp add: defs md5_funs W_md5_nth [OF assms] rfc_k_def add.assoc add.commute [of b])
  show "32 \<le> i \<Longrightarrow> i < 48 \<Longrightarrow> rfc_step M (a, b, c, d) i =
      (d, HH a b c d (W_md5 M ! ((3 * i + 5) mod 16)) (rfc_s i) (tab ! i), b, c)"
    using s by (simp add: defs md5_funs W_md5_nth [OF assms] rfc_k_def add.assoc add.commute [of b])
  show "48 \<le> i \<Longrightarrow> i < 64 \<Longrightarrow> rfc_step M (a, b, c, d) i =
      (d, II a b c d (W_md5 M ! (7 * i mod 16)) (rfc_s i) (tab ! i), b, c)"
    using s by (simp add: defs md5_funs W_md5_nth [OF assms] rfc_k_def add.assoc add.commute [of b])
qed

lemma quad_steps:
  assumes "length M = 64" and "4 dvd i"
  shows "i + 4 \<le> 16 \<Longrightarrow> FF_quad (W_md5 M) v i = foldl (rfc_step M) v [i, i + 1, i + 2, i + 3]"
    and "16 \<le> i \<Longrightarrow> i + 4 \<le> 32 \<Longrightarrow> GG_quad (W_md5 M) v i = foldl (rfc_step M) v [i, i + 1, i + 2, i + 3]"
    and "32 \<le> i \<Longrightarrow> i + 4 \<le> 48 \<Longrightarrow> HH_quad (W_md5 M) v i = foldl (rfc_step M) v [i, i + 1, i + 2, i + 3]"
    and "48 \<le> i \<Longrightarrow> i + 4 \<le> 64 \<Longrightarrow> II_quad (W_md5 M) v i = foldl (rfc_step M) v [i, i + 1, i + 2, i + 3]"
proof -
  obtain j where i: "i = 4 * j" using assms(2) by blast
  have s: "rfc_s (4 * j + m) = [[7, 12, 17, 22], [5, 9, 14, 20], [4, 11, 16, 23], [6, 10, 15, 21]] ! (j div 4) ! m"
    if "m < 4" for m
  proof -
    have "(4 * j + m) div 16 = (4 * j + m) div 4 div 4" by (simp add: div_mult2_eq [symmetric])
    also have "\<dots> = j div 4" using that by simp
    finally show ?thesis using that by (simp add: rfc_s_def)
  qed
  have s0: "rfc_s (4 * j) = [[7, 12, 17, 22], [5, 9, 14, 20], [4, 11, 16, 23], [6, 10, 15, 21]] ! (j div 4) ! 0"
    using s [of 0] by simp
  have q: "j div 4 = n" if "4 * n \<le> j" "j < 4 * n + 4" for n
    using that by (intro div_nat_eqI) simp_all
  obtain a b c d where v: "v = (a, b, c, d)" by (cases v)
  note defs = i v FF_quad_def GG_quad_def HH_quad_def II_quad_def Let_def rfc_step_macro [OF assms(1)] s s0
  show "i + 4 \<le> 16 \<Longrightarrow> FF_quad (W_md5 M) v i = foldl (rfc_step M) v [i, i + 1, i + 2, i + 3]"
    using s [of 1] s [of 2] q [of 0] by (simp add: defs)
  show "16 \<le> i \<Longrightarrow> i + 4 \<le> 32 \<Longrightarrow> GG_quad (W_md5 M) v i = foldl (rfc_step M) v [i, i + 1, i + 2, i + 3]"
    using s [of 1] s [of 2] q [of 1] by (simp add: defs)
  show "32 \<le> i \<Longrightarrow> i + 4 \<le> 48 \<Longrightarrow> HH_quad (W_md5 M) v i = foldl (rfc_step M) v [i, i + 1, i + 2, i + 3]"
    using s [of 1] s [of 2] q [of 2] by (simp add: defs)
  show "48 \<le> i \<Longrightarrow> i + 4 \<le> 64 \<Longrightarrow> II_quad (W_md5 M) v i = foldl (rfc_step M) v [i, i + 1, i + 2, i + 3]"
    using s [of 1] s [of 2] q [of 3] by (simp add: defs)
qed

lemma md5_while_steps:
  assumes "\<And>v i. 4 dvd i \<Longrightarrow> l \<le> i \<Longrightarrow> i + 4 \<le> n \<Longrightarrow> body v i = foldl step v [i, i + 1, i + 2, i + 3]"
    and "4 dvd n"
  shows "4 dvd i \<Longrightarrow> l \<le> i \<Longrightarrow> i \<le> n \<Longrightarrow> md5_while n body (v, i) = (foldl step v [i..<n], n)"
proof (induction "n - i" arbitrary: v i rule: less_induct)
  case less
  show ?case
  proof (cases "i = n")
    case True
    then show ?thesis by (simp add: md5_while.simps)
  next
    case False
    then have i: "i < n" "i + 4 \<le> n"
      using less.prems assms(2) by (auto elim!: dvdE)
    have "[i..<n] = [i, i + 1, i + 2, i + 3] @ [i + 4..<n]"
      using i(2) by (simp add: upt_rec [of i] upt_rec [of "Suc i"] upt_rec [of "Suc (Suc i)"]
          upt_rec [of "Suc (Suc (Suc i))"] eval_nat_numeral)
    moreover have "md5_while n body (body v i, i + 4) = (foldl step (body v i) [i + 4..<n], n)"
      using i less.prems by (intro less.hyps) auto
    ultimately show ?thesis
      using i less.prems assms(1) [of i v] by (simp add: md5_while.simps [of n body v i])
  qed
qed

definition vars_of :: "uint32 list \<Rightarrow> md5_vars" where
  "vars_of H = (H ! 0, H ! 1, H ! 2, H ! 3)"

definition list_of :: "md5_vars \<Rightarrow> uint32 list" where
  "list_of = (\<lambda>(a, b, c, d). [a, b, c, d])"

lemma vars_of_list_of [simp]: "vars_of (list_of v) = v"
  by (simp add: vars_of_def list_of_def split: prod.split)

lemma md5_loops:
  assumes M: "length M = 64"
  shows "md5_while 64 (II_quad (W_md5 M)) (md5_while 48 (HH_quad (W_md5 M))
    (md5_while 32 (GG_quad (W_md5 M)) (md5_while 16 (FF_quad (W_md5 M)) (v, 0)))) =
    (foldl (rfc_step M) v [0..<64], 64)"
proof -
  let ?W = "W_md5 M"
  have F: "md5_while 16 (FF_quad ?W) (v, 0) = (foldl (rfc_step M) v [0..<16], 16)" for v
    by (rule md5_while_steps [where l = 0]) (simp_all add: quad_steps [OF M] del: One_nat_def)
  have G: "md5_while 32 (GG_quad ?W) (v, 16) = (foldl (rfc_step M) v [16..<32], 32)" for v
    by (rule md5_while_steps [where l = 16]) (simp_all add: quad_steps [OF M] del: One_nat_def)
  have H: "md5_while 48 (HH_quad ?W) (v, 32) = (foldl (rfc_step M) v [32..<48], 48)" for v
    by (rule md5_while_steps [where l = 32]) (simp_all add: quad_steps [OF M] del: One_nat_def)
  have I: "md5_while 64 (II_quad ?W) (v, 48) = (foldl (rfc_step M) v [48..<64], 64)" for v
    by (rule md5_while_steps [where l = 48]) (simp_all add: quad_steps [OF M] del: One_nat_def)
  have "[0..<64] = (([0..<16] @ [16..<32]) @ [32..<48]) @ [48..<64::nat]"
    by code_simp
  then show ?thesis by (simp only: F G H I foldl_append)
qed

lemma processblock_rfc:
  assumes "length b = 64"
  shows "processblock s b = s\<lparr>h := list_of (rfc_compress (vars_of (h s)) b)\<rparr>"
  by (simp add: processblock_def Let_def md5_loops [OF assms] vars_of_def list_of_def
      split: prod.split del: upt_rec_numeral)

section \<open>The digest of a message cut into updates\<close>

definition md5_iv :: "uint32 list" where
  "md5_iv = [0x67452301, 0xefcdab89, 0x98badcfe, 0x10325476]"

interpretation md5: block_hash processblock "\<lambda>H b. list_of (rfc_compress (vars_of H) b)" md5_iv lenbytes
  by unfold_locales (simp_all add: processblock_rfc lenbytes_def)

lemma foldl_compress:
  "foldl (\<lambda>H b. list_of (rfc_compress (vars_of H) b)) (list_of v) bs = list_of (foldl rfc_compress v bs)"
  by (induction bs arbitrary: v) simp_all

lemma md5_updates_hold:
  "md5.holds s M \<Longrightarrow> md5.holds (foldl md5_update s chunks) (M @ concat chunks)"
  unfolding md5_update_def by (rule md5.holds_updates)

lemma bytes_le_4:
  "bytes_le 4 (v :: uint32) =
    [ucast v, ucast (drop_bit 8 v), ucast (drop_bit 16 v), ucast (drop_bit 24 v)]"
  by (simp add: bytes_le_def upt_rec)

lemma lenbytes_le: "lenbytes n = bytes_le 8 n"
  by (simp add: lenbytes_def bytes_le_def upt_rec)

lemma md5_sum_holds:
  assumes "md5.holds s M"
  shows "snd (md5_sum s) = MD5 M"
proof -
  have iv: "md5_iv = list_of (0x67452301, 0xefcdab89, 0x98badcfe, 0x10325476)"
    by (simp add: md5_iv_def list_of_def)
  have "h (pad s) = list_of (foldl rfc_compress (0x67452301, 0xefcdab89, 0x98badcfe, 0x10325476)
      (blocks (rfc_pad M)))"
    using md5.pad_state [OF assms]
    by (simp only: pad_def rfc_pad_def md5.padding_def lenbytes_le foldl_compress iv)
  then show ?thesis
    by (simp add: md5_sum_def MD5_def Let_def list_of_def bytes_le_4 upt_rec split: prod.split)
qed

lemma md5_init_holds: "length (buf s) = 64 \<Longrightarrow> md5.holds (md5_init s) []"
  by (rule md5.holds_init) (simp_all add: md5_init_def md5_iv_def)

text \<open>C9: Hashing a message with \<^verbatim>\<open>md5_init\<close>, any sequence of \<^verbatim>\<open>md5_update\<close>
  calls and \<^verbatim>\<open>md5_sum\<close> gives the RFC 1321 digest of the concatenated pieces: the four
  unrolled loops are the sixty-four rotating steps, the table holds the integer parts of 2^32 times
  the absolute sines of 1 to 64, as the RFC defines its constants, and the 64-byte buffering does not depend on
  how the message is cut.\<close>

theorem md5_is_rfc_1321:
  assumes "length (buf s) = 64"
  shows "snd (md5_sum (foldl md5_update (md5_init s) chunks)) = MD5 (concat chunks)"
proof -
  from md5_updates_hold [OF md5_init_holds [OF assms], of chunks] show ?thesis
    by (simp add: md5_sum_holds)
qed

theorem md5_is_rfc_1321_witness:
  "snd (md5_sum (foldl md5_update (md5_init \<lparr>len = 7, h = [], buf = replicate 64 0xff\<rparr>)
      [[0x61], replicate 70 0x62, [], [0x63]])) = MD5 (0x61 # replicate 70 0x62 @ [0x63])"
  using md5_is_rfc_1321 [of "\<lparr>len = 7, h = [], buf = replicate 64 0xff\<rparr>"
      "[[0x61], replicate 70 0x62, [], [0x63]]"] by simp

end
