(* ===== verification/Printf.thy ===== *)
theory Printf
  imports Prelude
begin

text \<open>
  src/printf.c. The formatter \<open>vxprintf\<close> and its helpers are generic in the character
  callback, as in the source; \<open>printf\<close>, \<open>puts\<close> and \<open>sprintf\<close> are its instances. A C string is
  the list of its characters, the NUL that ends it being the end of the list; the variable
  arguments are a list tagged with the type they were passed at. \<open>None\<close> stands for undefined
  behaviour: an argument that is missing or of another type, a read past the end of the format,
  an index outside the digit buffer.
\<close>

section \<open>The code\<close>

type_synonym 'p write_char_fn = "'p \<Rightarrow> char \<Rightarrow> 'p"

datatype 'w varg = VInt uint32 | VLong 'w | VStr string

definition MAX_INT_BUFF_SIZE :: nat where
  "MAX_INT_BUFF_SIZE = 80"

fun write_string :: "'p write_char_fn \<Rightarrow> 'p \<Rightarrow> string \<Rightarrow> 'p" where
  "write_string write_char payload [] = payload"
| "write_string write_char payload (c # str) = write_string write_char (write_char payload c) str"

definition hex :: string where
  "hex = ''0123456789abcdef''"

text \<open>The digit loop: the buffer, the index \<open>k\<close> (a C int) and what is left of the number.\<close>

function num_loop ::
    "'a::len word \<Rightarrow> string \<Rightarrow> int \<Rightarrow> 'a word \<Rightarrow> (string \<times> int) option" where
  "num_loop base buff k n =
     (if n > 0 then
        if 0 \<le> k \<and> k < int (length buff) \<and> base \<noteq> 0 \<and> unat (n mod base) < length hex
        then num_loop base (buff[nat k := hex ! unat (n mod base)]) (k - 1) (n div base)
        else None
      else Some (buff, k))"
  by pat_completeness auto
termination
  by (relation "measure (\<lambda>(base, buff, k, n). nat (k + 1))") auto

declare num_loop.simps [simp del]

text \<open>The buffer's initial contents do not matter (\<open>write_num_digits\<close> holds for every
  \<open>junk\<close>); \<open>write_string\<close> then runs from index \<open>k + 1\<close> to the NUL.\<close>

definition write_num_junk ::
    "string \<Rightarrow> 'p write_char_fn \<Rightarrow> 'p \<Rightarrow> 'a::len word \<Rightarrow> 'a word \<Rightarrow> 'p option" where
  "write_num_junk junk write_char payload base n =
     (if n = 0 then Some (write_string write_char payload ''0'')
      else
        let k = int MAX_INT_BUFF_SIZE - 1;
            buff = junk[nat k := CHR 0x00];
            k = k - 1
        in case num_loop base buff k n of
             None \<Rightarrow> None
           | Some (buff, k) \<Rightarrow>
               Some (write_string write_char payload
                 (takeWhile (\<lambda>c. c \<noteq> CHR 0x00) (drop (nat (k + 1)) buff))))"

definition write_num :: "'p write_char_fn \<Rightarrow> 'p \<Rightarrow> 'a::len word \<Rightarrow> 'a word \<Rightarrow> 'p option" where
  "write_num = write_num_junk (replicate MAX_INT_BUFF_SIZE CHR ''?'')"

text \<open>The argument of \<open>%d\<close>, \<open>%u\<close> and \<open>%x\<close> is an int that the call to \<^verbatim>\<open>write_num\<close>
  converts to unsigned long: it is sign-extended.\<close>

fun vxprintf_loop ::
    "'p write_char_fn \<Rightarrow> 'p \<Rightarrow> bool \<Rightarrow> string \<Rightarrow> 'a::len word varg list \<Rightarrow> 'p option" where
  "vxprintf_loop wc p escape_mode [] args = Some p"
| "vxprintf_loop wc p escape_mode (f # fmt) args =
     (if \<not> escape_mode \<and> f \<noteq> CHR ''%'' then vxprintf_loop wc (wc p f) escape_mode fmt args
      else if f = CHR ''%'' then
        (if \<not> escape_mode then vxprintf_loop wc p True fmt args
         else vxprintf_loop wc (wc p f) False fmt args)
      else if f \<in> set ''0123456789-.'' then vxprintf_loop wc p escape_mode fmt args
      else if f = CHR ''s'' then
        (case args of
           VStr s # args' \<Rightarrow> vxprintf_loop wc (write_string wc p s) False fmt args'
         | _ \<Rightarrow> None)
      else if f = CHR ''p'' then
        (case args of
           VLong n # args' \<Rightarrow> (case write_num wc p 16 n of
               None \<Rightarrow> None | Some p' \<Rightarrow> vxprintf_loop wc p' False fmt args')
         | _ \<Rightarrow> None)
      else if f = CHR ''x'' then
        (case args of
           VInt d # args' \<Rightarrow> (case write_num wc p 16 (scast d :: 'a word) of
               None \<Rightarrow> None | Some p' \<Rightarrow> vxprintf_loop wc p' False fmt args')
         | _ \<Rightarrow> None)
      else if f = CHR ''d'' \<or> f = CHR ''u'' then
        (case args of
           VInt d # args' \<Rightarrow> (case write_num wc p 10 (scast d :: 'a word) of
               None \<Rightarrow> None | Some p' \<Rightarrow> vxprintf_loop wc p' False fmt args')
         | _ \<Rightarrow> None)
      else if f = CHR ''c'' then
        (case args of
           VInt d # args' \<Rightarrow> vxprintf_loop wc (wc p (char_of (unat d))) False fmt args'
         | _ \<Rightarrow> None)
      else if f = CHR ''l'' then
        (case fmt of
           [] \<Rightarrow> None
         | g # fmt' \<Rightarrow>
             if g = CHR ''u'' then
               (case args of
                  VLong n # args' \<Rightarrow> (case write_num wc p 10 n of
                      None \<Rightarrow> None | Some p' \<Rightarrow> vxprintf_loop wc p' False fmt' args')
                | _ \<Rightarrow> None)
             else if g = CHR ''x'' then
               (case args of
                  VLong n # args' \<Rightarrow> (case write_num wc p 16 n of
                      None \<Rightarrow> None | Some p' \<Rightarrow> vxprintf_loop wc p' False fmt' args')
                | _ \<Rightarrow> None)
             else vxprintf_loop wc (wc p CHR ''?'') False fmt' args)
      else vxprintf_loop wc (wc p CHR ''?'') False fmt args)"

declare vxprintf_loop.simps(2) [simp del]

definition vxprintf :: "'p write_char_fn \<Rightarrow> 'p \<Rightarrow> string \<Rightarrow> 'a::len word varg list \<Rightarrow> 'p option" where
  "vxprintf write_char payload format args = vxprintf_loop write_char payload False format args"

text \<open>\<open>fputc\<close> is the platform's \<^verbatim>\<open>__fputc\<close>, acting on whatever state the console driver has.\<close>

fun arch_write_char :: "('s \<Rightarrow> char \<Rightarrow> 's) \<Rightarrow> (int \<times> 's) write_char_fn" where
  "arch_write_char fputc (num_chars_printed, s) c = (num_chars_printed + 1, fputc s c)"

definition printf :: "('s \<Rightarrow> char \<Rightarrow> 's) \<Rightarrow> 's \<Rightarrow> string \<Rightarrow> 'a::len word varg list \<Rightarrow> (int \<times> 's) option" where
  "printf fputc s format args = vxprintf (arch_write_char fputc) (0, s) format args"

definition puts :: "('s \<Rightarrow> char \<Rightarrow> 's) \<Rightarrow> 's \<Rightarrow> string \<Rightarrow> int \<times> 's" where
  "puts fputc s str =
     arch_write_char fputc (write_string (arch_write_char fputc) (0, s) str) CHR 0x0A"

record 'w sprintf_payload =
  sp_mem :: "'w \<Rightarrow> byte"
  sp_buff :: 'w
  sp_n :: int

definition sprintf_write_char :: "('a::len word sprintf_payload) write_char_fn" where
  "sprintf_write_char p c =
     p\<lparr>sp_mem := (sp_mem p)(sp_buff p + of_int (sp_n p) := of_char c), sp_n := sp_n p + 1\<rparr>"

definition sprintf :: "'a::len mem \<Rightarrow> 'a word \<Rightarrow> string \<Rightarrow> 'a word varg list \<Rightarrow> ('a mem \<times> int) option" where
  "sprintf m b format args =
     map_option (\<lambda>p. (sp_mem p, sp_n p))
       (vxprintf sprintf_write_char \<lparr>sp_mem = m, sp_buff = b, sp_n = 0\<rparr> format args)"

section \<open>Numbers\<close>

text \<open>The digits of a number, most significant first; \<open>num_string\<close> is its usual notation and
  \<open>num_value\<close> reads it back.\<close>

fun digits_of :: "nat \<Rightarrow> nat \<Rightarrow> string" where
  "digits_of b k = (if k = 0 \<or> b < 2 then [] else digits_of b (k div b) @ [hex ! (k mod b)])"

declare digits_of.simps [simp del]

definition num_string :: "nat \<Rightarrow> nat \<Rightarrow> string" where
  "num_string b k = (if k = 0 then ''0'' else digits_of b k)"

definition digit_value :: "char \<Rightarrow> nat" where
  "digit_value c = length (takeWhile (\<lambda>x. x \<noteq> c) hex)"

definition num_value :: "nat \<Rightarrow> string \<Rightarrow> nat" where
  "num_value b = foldl (\<lambda>v c. v * b + digit_value c) 0"

lemma length_hex [simp]: "length hex = 16"
  by (simp add: hex_def)

lemma hex_digits: "i < 16 \<Longrightarrow> hex ! i \<noteq> CHR 0x00 \<and> digit_value (hex ! i) = i"
proof -
  have "list_all (\<lambda>i. hex ! i \<noteq> CHR 0x00 \<and> digit_value (hex ! i) = i) [0..<16]" by code_simp
  then show "i < 16 \<Longrightarrow> hex ! i \<noteq> CHR 0x00 \<and> digit_value (hex ! i) = i"
    by (simp add: list_all_iff del: upt_rec_numeral)
qed

lemma digits_of_0 [simp]: "digits_of b 0 = []"
  by (simp add: digits_of.simps)

lemma digits_of_step:
  "0 < k \<Longrightarrow> 2 \<le> b \<Longrightarrow> digits_of b k = digits_of b (k div b) @ [hex ! (k mod b)]"
  by (subst digits_of.simps) simp

lemma digits_no_NUL: "b \<le> 16 \<Longrightarrow> c \<in> set (digits_of b k) \<Longrightarrow> c \<noteq> CHR 0x00"
proof (induction b k rule: digits_of.induct)
  case (1 b k)
  show ?case
  proof (cases "k = 0 \<or> b < 2")
    case True
    with "1.prems" show ?thesis by (simp add: digits_of.simps)
  next
    case False
    then have "k mod b < 16" using "1.prems"(1) mod_less_divisor [of b k] by linarith
    with False 1 show ?thesis by (auto simp: digits_of_step dest: hex_digits)
  qed
qed

lemma length_digits: "k < 2 ^ m \<Longrightarrow> length (digits_of b k) \<le> m"
proof (induction m arbitrary: k)
  case 0
  then show ?case by simp
next
  case (Suc m)
  show ?case
  proof (cases "k = 0 \<or> b < 2")
    case True
    then show ?thesis by (simp add: digits_of.simps)
  next
    case False
    then have "k div b \<le> k div 2" by (intro div_le_mono2) auto
    also have "\<dots> < 2 ^ m" using Suc.prems by (simp add: less_mult_imp_div_less)
    finally show ?thesis using Suc.IH [of "k div b"] False by (simp add: digits_of_step)
  qed
qed

lemma num_value_digits: "2 \<le> b \<Longrightarrow> b \<le> 16 \<Longrightarrow> num_value b (digits_of b k) = k"
proof (induction b k rule: digits_of.induct)
  case (1 b k)
  show ?case
  proof (cases "k = 0")
    case True
    then show ?thesis by (simp add: num_value_def)
  next
    case False
    then have "k mod b < 16" using "1.prems" mod_less_divisor [of b k] by linarith
    then have "digit_value (hex ! (k mod b)) = k mod b" using hex_digits by blast
    with False 1 show ?thesis by (simp add: digits_of_step num_value_def)
  qed
qed

lemma write_string_foldl: "write_string wc p s = foldl wc p s"
  by (induction s arbitrary: p) simp_all

lemma num_loop_digits:
  fixes base k :: "'a::len word"
  assumes "2 \<le> unat base" and "unat base \<le> 16"
  shows "length (digits_of (unat base) (unat k)) \<le> j \<Longrightarrow> j \<le> length bs \<Longrightarrow>
    num_loop base bs (int j - 1) k =
      (let d = digits_of (unat base) (unat k)
       in Some (take (j - length d) bs @ d @ drop j bs, int (j - length d) - 1))"
proof (induction "unat k" arbitrary: k j bs rule: less_induct)
  case less
  let ?b = "unat base"
  show ?case
  proof (cases "k = 0")
    case True
    then show ?thesis by (simp add: num_loop.simps)
  next
    case False
    then have k: "0 < unat k" "k > 0" by (simp_all add: unat_gt_0 word_neq_0_conv)
    have d: "digits_of ?b (unat k) = digits_of ?b (unat (k div base)) @ [hex ! unat (k mod base)]"
      using k assms(1) by (simp add: digits_of_step unat_div unat_mod)
    then obtain i where j: "j = Suc i" using less.prems(1) by (cases j) auto
    have len: "length (digits_of ?b (unat (k div base))) \<le> i" using less.prems(1) d j by simp
    have "unat (k mod base) < unat base"
      using assms(1) by (simp add: unat_mod)
    then have m: "unat (k mod base) < 16" using assms(2) by linarith
    have b0: "base \<noteq> 0" using assms(1) by auto
    have dec: "unat (k div base) < unat k" using k assms(1) by (simp add: unat_div)
    have "num_loop base bs (int j - 1) k =
        num_loop base (bs[i := hex ! unat (k mod base)]) (int i - 1) (k div base)"
      using k j less.prems(2) m b0 by (subst num_loop.simps) simp
    also have "\<dots> = (let e = digits_of ?b (unat (k div base))
       in Some (take (i - length e) bs @ e @ hex ! unat (k mod base) # drop j bs, int (i - length e) - 1))"
      using less.hyps [OF dec len, of "bs[i := hex ! unat (k mod base)]"] less.prems(2) j
      by (simp add: Let_def drop_update_swap Cons_nth_drop_Suc [symmetric])
    finally show ?thesis
      using d j by (simp add: Let_def)
  qed
qed

lemma write_num_digits:
  fixes base k :: "'a::len word"
  assumes "kernel_word TYPE('a)" and "2 \<le> unat base" "unat base \<le> 16" and junk: "length junk = MAX_INT_BUFF_SIZE"
  shows "write_num_junk junk wc p base k = Some (foldl wc p (num_string (unat base) (unat k)))"
proof (cases "k = 0")
  case True
  then show ?thesis by (simp add: write_num_junk_def num_string_def)
next
  case False
  let ?d = "digits_of (unat base) (unat k)"
  have "LENGTH('a) \<le> 64" using assms(1) by (auto simp: kernel_word_def)
  moreover have "length ?d \<le> LENGTH('a)" by (rule length_digits, rule unat_lt2p)
  ultimately have d: "length ?d \<le> 79" by linarith
  have "num_loop base (junk[79 := CHR 0x00]) 78 k =
      Some (take (79 - length ?d) (junk[79 := CHR 0x00]) @ ?d @ drop 79 (junk[79 := CHR 0x00]),
        int (79 - length ?d) - 1)"
    using num_loop_digits [OF assms(2,3), of k 79 "junk[79 := CHR 0x00]"] d junk
    by (simp add: Let_def MAX_INT_BUFF_SIZE_def)
  moreover have "drop 79 (junk[79 := CHR 0x00]) = [CHR 0x00]"
    using junk by (simp add: MAX_INT_BUFF_SIZE_def drop_update_swap Cons_nth_drop_Suc [symmetric])
  moreover have "takeWhile (\<lambda>c. c \<noteq> CHR 0x00) (?d @ [CHR 0x00]) = ?d"
    using digits_no_NUL [OF assms(3)] by (subst takeWhile_append2) auto
  ultimately show ?thesis
    using False d junk
    by (simp add: write_num_junk_def Let_def MAX_INT_BUFF_SIZE_def num_string_def write_string_foldl
        unat_eq_zero)
qed

lemma write_num_eq:
  fixes base k :: "'a::len word"
  assumes "kernel_word TYPE('a)" and "2 \<le> unat base" "unat base \<le> 16"
  shows "write_num wc p base k = Some (foldl wc p (num_string (unat base) (unat k)))"
  unfolding write_num_def using assms by (intro write_num_digits) auto

section \<open>What a format means\<close>

text \<open>A format is read as a list of directives, and the directives are rendered with the
  arguments. A format that ends in the middle of \<open>%l\<close> has no reading.\<close>

datatype conv = Str | Ptr | Hex | Dec | Chr | LDec | LHex

datatype directive = Lit char | Conv conv

definition conv_of :: "char \<Rightarrow> directive" where
  "conv_of f =
     (if f = CHR ''s'' then Conv Str else if f = CHR ''p'' then Conv Ptr
      else if f = CHR ''x'' then Conv Hex else if f = CHR ''d'' \<or> f = CHR ''u'' then Conv Dec
      else if f = CHR ''c'' then Conv Chr else Lit CHR ''?'')"

definition long_conv_of :: "char \<Rightarrow> directive" where
  "long_conv_of f = (if f = CHR ''u'' then Conv LDec else if f = CHR ''x'' then Conv LHex else Lit CHR ''?'')"

fun read_format :: "bool \<Rightarrow> string \<Rightarrow> directive list option" where
  "read_format escaped [] = Some []"
| "read_format escaped (f # fmt) =
     (if \<not> escaped then
        if f = CHR ''%'' then read_format True fmt else map_option ((#) (Lit f)) (read_format False fmt)
      else if f = CHR ''%'' then map_option ((#) (Lit f)) (read_format False fmt)
      else if f \<in> set ''0123456789-.'' then read_format True fmt
      else if f = CHR ''l'' then
        (case fmt of [] \<Rightarrow> None | g # fmt' \<Rightarrow> map_option ((#) (long_conv_of g)) (read_format False fmt'))
      else map_option ((#) (conv_of f)) (read_format False fmt))"

declare read_format.simps(2) [simp del]

fun conv_string :: "conv \<Rightarrow> 'a::len word varg \<Rightarrow> string option" where
  "conv_string Str (VStr s) = Some s"
| "conv_string Ptr (VLong k) = Some (num_string 16 (unat k))"
| "conv_string LHex (VLong k) = Some (num_string 16 (unat k))"
| "conv_string LDec (VLong k) = Some (num_string 10 (unat k))"
| "conv_string Hex (VInt d) = Some (num_string 16 (unat (scast d :: 'a word)))"
| "conv_string Dec (VInt d) = Some (num_string 10 (unat (scast d :: 'a word)))"
| "conv_string Chr (VInt d) = Some [char_of (unat d)]"
| "conv_string _ _ = None"

fun render :: "directive list \<Rightarrow> 'a::len word varg list \<Rightarrow> string option" where
  "render [] args = Some []"
| "render (Lit c # ds) args = map_option ((#) c) (render ds args)"
| "render (Conv k # ds) [] = None"
| "render (Conv k # ds) (a # args) =
     (case conv_string k a of None \<Rightarrow> None | Some s \<Rightarrow> map_option ((@) s) (render ds args))"

definition formatted :: "string \<Rightarrow> 'a::len word varg list \<Rightarrow> string option" where
  "formatted fmt args = Option.bind (read_format False fmt) (\<lambda>ds. render ds args)"

text \<open>The running formatter with the escape flag set or clear.\<close>

definition formatted_from :: "bool \<Rightarrow> string \<Rightarrow> 'a::len word varg list \<Rightarrow> string option" where
  "formatted_from escaped fmt args = Option.bind (read_format escaped fmt) (\<lambda>ds. render ds args)"

lemma formatted_from_Nil [simp]: "formatted_from e [] args = Some []"
  by (simp add: formatted_from_def)

lemma bind_map_Lit:
  "Option.bind (map_option ((#) (Lit c)) r) (\<lambda>ds. render ds args) =
    map_option ((#) c) (Option.bind r (\<lambda>ds. render ds args))"
  by (cases r) simp_all

lemma bind_map_Conv:
  "Option.bind (map_option ((#) (Conv k)) r) (\<lambda>ds. render ds args) =
    (case args of [] \<Rightarrow> None
     | a # args' \<Rightarrow> (case conv_string k a of None \<Rightarrow> None
         | Some s \<Rightarrow> map_option ((@) s) (Option.bind r (\<lambda>ds. render ds args'))))"
  by (cases r) (simp_all split: list.split option.split)

lemma write_num_bases:
  assumes kw: "kernel_word TYPE('a::len)"
  shows "write_num wc p 10 k = Some (foldl wc p (num_string 10 (unat (k :: 'a word))))"
    and "write_num wc p 16 k = Some (foldl wc p (num_string 16 (unat k)))"
proof -
  have word: "16 \<le> LENGTH('a)" using kw by (auto simp: kernel_word_def)
  then have "10 < (2 :: nat) ^ LENGTH('a)" "16 < (2 :: nat) ^ LENGTH('a)"
    using power_increasing [of 16 "LENGTH('a)" "2 :: nat"] by simp_all
  then have "unat (10 :: 'a word) = 10" "unat (16 :: 'a word) = 16"
    using unat_of_nat_less [of 10, where 'a = 'a] unat_of_nat_less [of 16, where 'a = 'a] by simp_all
  then show "write_num wc p 10 k = Some (foldl wc p (num_string 10 (unat k)))"
    and "write_num wc p 16 k = Some (foldl wc p (num_string 16 (unat k)))"
    using write_num_eq [OF kw, of 10] write_num_eq [OF kw, of 16] by simp_all
qed

lemma map_foldl:
  "map_option (foldl wc p) (map_option ((#) c) r) = map_option (foldl wc (wc p c)) r"
  "map_option (foldl wc p) (map_option ((@) s) r) = map_option (foldl wc (foldl wc p s)) r"
  by (cases r; simp)+

text \<open>One character of the format, other than an \<open>l\<close> after a percent sign.\<close>

lemma vxprintf_loop_char:
  fixes args :: "'a::len word varg list"
  assumes kw: "kernel_word TYPE('a)" and plain: "\<not> (f = CHR ''l'' \<and> e)"
    and IH: "\<And>p e (args :: 'a word varg list). vxprintf_loop wc p e fs args = map_option (foldl wc p) (formatted_from e fs args)"
  shows "vxprintf_loop wc p e (f # fs) args = map_option (foldl wc p) (formatted_from e (f # fs) args)"
proof -
  let ?mods = "set ''0123456789-.''"
  note unf = vxprintf_loop.simps(2) formatted_from_def read_format.simps(2) conv_of_def
    bind_map_Lit bind_map_Conv map_foldl write_num_bases [OF kw] write_string_foldl IH
  consider (lit) "\<not> e" "f \<noteq> CHR ''%''" | (pct) "f = CHR ''%''" | (mods) "e" "f \<noteq> CHR ''%''" "f \<in> ?mods"
    | (s) "e" "f = CHR ''s''" | (p) "e" "f = CHR ''p''" | (x) "e" "f = CHR ''x''"
    | (d) "e" "f = CHR ''d'' \<or> f = CHR ''u''" | (c) "e" "f = CHR ''c''"
    | (other) "e" "f \<noteq> CHR ''%''" "f \<notin> ?mods" "f \<notin> set ''spxduc''" "f \<noteq> CHR ''l''"
    using plain by auto
  then show ?thesis
  proof cases
    case lit then show ?thesis by (simp add: unf del: list.set)
  next
    case pct then show ?thesis by (cases e) (simp_all add: unf)
  next
    case mods then show ?thesis by (simp add: unf del: list.set)
  next
    case d then show ?thesis by (elim disjE) (simp_all add: unf split: list.split varg.split)
  next
    case other
    then have "f \<noteq> CHR ''s''" "f \<noteq> CHR ''p''" "f \<noteq> CHR ''x''" "f \<noteq> CHR ''d''" "f \<noteq> CHR ''u''" "f \<noteq> CHR ''c''"
      by auto
    with other show ?thesis by (simp add: unf del: list.set)
  qed (simp_all add: unf split: list.split varg.split)
qed

lemma vxprintf_loop_renders:
  fixes args :: "'a::len word varg list"
  assumes kw: "kernel_word TYPE('a)"
  shows "vxprintf_loop wc p e fmt args = map_option (foldl wc p) (formatted_from e fmt args)"
proof (induction fmt arbitrary: p e args rule: length_induct)
  case (1 fmt)
  have IH: "vxprintf_loop wc p e fmt' args = map_option (foldl wc p) (formatted_from e fmt' args)"
    if "length fmt' < length fmt" for p e fmt' and args :: "'a word varg list"
    using 1 that by blast
  show ?case
  proof (cases fmt)
    case Nil
    then show ?thesis by simp
  next
    case (Cons f fs)
    then have fs: "length fs < length fmt" by simp
    show ?thesis
    proof (cases "f = CHR ''l'' \<and> e")
      case False
      show ?thesis unfolding Cons by (rule vxprintf_loop_char [OF kw False IH [OF fs]])
    next
      case True
      show ?thesis
      proof (cases fs)
        case Nil
        then show ?thesis using True Cons
          by (simp add: vxprintf_loop.simps(2) formatted_from_def read_format.simps(2))
      next
        case (Cons g gs)
        then have "length gs < length fmt" using fs by simp
        then show ?thesis
          using True \<open>fmt = f # fs\<close> Cons
          by (simp add: vxprintf_loop.simps(2) formatted_from_def read_format.simps(2) long_conv_of_def
              bind_map_Lit bind_map_Conv map_foldl write_num_bases [OF kw] IH split: list.split varg.split)
      qed
    qed
  qed
qed

lemma formatted_from_False [simp]: "formatted_from False fmt args = formatted fmt args"
  by (simp add: formatted_from_def formatted_def)

lemma vxprintf_formatted:
  fixes args :: "'a::len word varg list"
  shows "kernel_word TYPE('a) \<Longrightarrow> vxprintf wc p fmt args = map_option (foldl wc p) (formatted fmt args)"
  by (simp add: vxprintf_def vxprintf_loop_renders)

lemma foldl_arch_write_char:
  "foldl (arch_write_char fputc) (k, s) t = (k + int (length t), foldl fputc s t)"
  by (induction t arbitrary: k s) simp_all

lemma printf_formatted:
  fixes args :: "'a::len word varg list"
  shows "kernel_word TYPE('a) \<Longrightarrow>
    printf fputc s fmt args = map_option (\<lambda>t. (int (length t), foldl fputc s t)) (formatted fmt args)"
  by (cases "formatted fmt args") (simp_all add: printf_def vxprintf_formatted foldl_arch_write_char)

lemma foldl_sprintf_write_char:
  fixes b :: "'a::len word"
  shows "k + length t \<le> 2 ^ LENGTH('a) \<Longrightarrow>
    foldl sprintf_write_char \<lparr>sp_mem = m, sp_buff = b, sp_n = int k\<rparr> t =
      \<lparr>sp_mem = write_bytes m (b + of_nat k) (map of_char t), sp_buff = b, sp_n = int (k + length t)\<rparr>"
proof (induction t arbitrary: m k)
  case Nil
  then show ?case by simp
next
  case (Cons c t)
  have "m(b + of_nat k := of_char c) = write_bytes m (b + of_nat k) [of_char c]"
    by (simp add: write_bytes_singleton)
  moreover have "write_bytes (write_bytes m (b + of_nat k) [of_char c]) (b + of_nat (Suc k)) (map of_char t) =
      write_bytes m (b + of_nat k) (map of_char (c # t))"
    using Cons.prems write_bytes_append [of "[of_char c]" "map of_char t" m "b + of_nat k"]
    by (simp add: algebra_simps)
  ultimately show ?case
    using Cons.IH [of "Suc k"] Cons.prems by (simp add: sprintf_write_char_def algebra_simps)
qed

section \<open>Properties\<close>

text \<open>C19: \<^verbatim>\<open>printf\<close> sends to \<^verbatim>\<open>__fputc\<close>, in order and once each, exactly the
  characters of the rendered format (directives replaced by their arguments' notation, unknown
  ones by a question mark, width and flag characters dropped) and returns their number; it goes
  wrong only where the format has no rendering with these arguments.\<close>

theorem printf_prints_the_rendering:
  fixes args :: "'a::len word varg list"
  assumes "kernel_word TYPE('a)"
  shows "printf fputc s fmt args =
    (case formatted fmt args of None \<Rightarrow> None | Some t \<Rightarrow> Some (int (length t), foldl fputc s t))"
  using printf_formatted [OF assms, of fputc s fmt args] by (cases "formatted fmt args") simp_all

lemmas formatted_eval = formatted_def read_format.simps conv_of_def long_conv_of_def num_string_def
  digits_of_step hex_def

theorem printf_prints_the_rendering_witness:
  "printf (\<lambda>s c. s @ [c]) [] ''%s: 0x%lx %q%%'' [VStr ''at'', VLong (0xbe :: 64 word)] =
    Some (11, ''at: 0xbe ?%'')"
  using printf_prints_the_rendering [of "\<lambda>s c. s @ [c]" "[]" "''%s: 0x%lx %q%%''"
      "[VStr ''at'', VLong (0xbe :: 64 word)]"]
  by (simp add: kernel_word_def formatted_eval)

text \<open>C20: \<^verbatim>\<open>write_num\<close> never leaves its 80-byte buffer (no base from 2 to 16 and no
  machine word needs more than 79 digits), whatever the buffer held before, and what it prints
  reads back, in that base, as the number.\<close>

theorem write_num_reads_back:
  fixes base k :: "'a::len word"
  assumes "kernel_word TYPE('a)" and "2 \<le> unat base" "unat base \<le> 16"
    and "length junk = MAX_INT_BUFF_SIZE"
  shows "\<exists>t. write_num_junk junk wc p base k = Some (write_string wc p t) \<and> t \<noteq> [] \<and>
    length t < MAX_INT_BUFF_SIZE \<and> num_value (unat base) t = unat k"
proof (intro exI conjI)
  let ?t = "num_string (unat base) (unat k)"
  show "write_num_junk junk wc p base k = Some (write_string wc p ?t)"
    using write_num_digits [OF assms] by (simp add: write_string_foldl)
  have "length (digits_of (unat base) (unat k)) \<le> LENGTH('a)" by (rule length_digits, rule unat_lt2p)
  then show "length ?t < MAX_INT_BUFF_SIZE"
    using assms(1) by (auto simp: num_string_def kernel_word_def MAX_INT_BUFF_SIZE_def)
  show "?t \<noteq> []" using assms(2) digits_of_step [of "unat k" "unat base"] by (simp add: num_string_def)
  have "num_value (unat base) ''0'' = 0" by (simp add: num_value_def digit_value_def hex_def)
  then show "num_value (unat base) ?t = unat k"
    using num_value_digits [OF assms(2,3), of "unat k"] by (simp add: num_string_def)
qed

theorem write_num_reads_back_witness:
  "\<exists>t. write_num_junk (replicate 80 CHR ''x'') (\<lambda>p c. p @ [c]) [] 16 (0xffffffffffffffff :: 64 word) =
      Some (write_string (\<lambda>p c. p @ [c]) [] t) \<and> t \<noteq> [] \<and>
    length t < MAX_INT_BUFF_SIZE \<and> num_value 16 t = 0xffffffffffffffff"
  using write_num_reads_back [of "16 :: 64 word" "replicate 80 CHR ''x''" "\<lambda>p c. p @ [c]" "[]" "0xffffffffffffffff"]
  by (simp add: kernel_word_def MAX_INT_BUFF_SIZE_def)

text \<open>The int of \<open>%d\<close>, \<open>%u\<close> and \<open>%x\<close> is widened to an unsigned long before it is
  printed, so on a 64-bit kernel a value with its top bit set is printed as \<open>2 ^ 64 - 2 ^ 32\<close>
  plus the value: -1 comes out as 18446744073709551615, and \<open>%x\<close> of 0x80000000 with eight
  leading f digits. Values below \<open>2 ^ 31\<close> are printed as they are.\<close>

theorem printf_int_is_widened:
  "formatted ''%d'' [VInt d :: 64 word varg] =
     Some (num_string 10 (if unat d < 2 ^ 31 then unat d else 2 ^ 64 - 2 ^ 32 + unat d)) \<and>
   formatted ''%x'' [VInt d :: 64 word varg] =
     Some (num_string 16 (if unat d < 2 ^ 31 then unat d else 2 ^ 64 - 2 ^ 32 + unat d))"
proof -
  let ?s = "sint d"
  have less: "nat (uint d) < 2 ^ 31 \<longleftrightarrow> uint d < 2 ^ 31"
    by (subst nat_less_iff) simp_all
  have range: "- (2 ^ 31) \<le> ?s" "?s < 2 ^ 31" using sint_ge [of d] sint_lt [of d] by simp_all
  have u: "uint d = ?s mod 2 ^ 32" by (simp add: uint_sint take_bit_eq_mod)
  have c: "uint (scast d :: 64 word) = ?s mod 2 ^ 64"
    by (simp only: scast_eq uint_word_of_int len_of_numeral_defs) simp
  have "uint (scast d :: 64 word) = (if uint d < 2 ^ 31 then uint d else 2 ^ 64 - 2 ^ 32 + uint d)"
  proof (cases "0 \<le> ?s")
    case True
    then show ?thesis using range u c by simp
  next
    case False
    have "(?s + 2 ^ 32) mod 2 ^ 32 = ?s + 2 ^ 32" "(?s + 2 ^ 64) mod 2 ^ 64 = ?s + 2 ^ 64"
      using range False by (intro mod_pos_pos_trivial; simp)+
    then have "uint d = ?s + 2 ^ 32" "uint (scast d :: 64 word) = ?s + 2 ^ 64"
      using u c by simp_all
    then show ?thesis using range by simp
  qed
  then have "unat (scast d :: 64 word) = (if unat d < 2 ^ 31 then unat d else 2 ^ 64 - 2 ^ 32 + unat d)"
    using less unfolding unat_eq_nat_uint by (simp add: nat_add_distrib split: if_splits)
  then show ?thesis
    by (simp add: formatted_def read_format.simps conv_of_def)
qed

text \<open>\<^verbatim>\<open>sprintf\<close> writes the rendered characters from the start of the buffer, returns
  their number and changes no other byte: in particular it stores no terminating NUL, so the
  byte after the text keeps what the buffer held.\<close>

theorem sprintf_writes_the_rendering:
  fixes args :: "'a::len word varg list"
  assumes "kernel_word TYPE('a)" and "formatted fmt args = Some t" and "length t < 2 ^ LENGTH('a)"
  shows "sprintf m b fmt args = Some (write_bytes m b (map of_char t), int (length t)) \<and>
    write_bytes m b (map of_char t) (b + of_nat (length t)) = m (b + of_nat (length t))"
proof
  show "sprintf m b fmt args = Some (write_bytes m b (map of_char t), int (length t))"
    using foldl_sprintf_write_char [of 0 t m b] assms
    by (simp add: sprintf_def vxprintf_formatted)
  have "b + of_nat (length t) \<notin> region b (length (map of_char t))"
    using assms(3) by (simp add: region_def unat_of_nat_less)
  then show "write_bytes m b (map of_char t) (b + of_nat (length t)) = m (b + of_nat (length t))"
    by (rule write_bytes_outside)
qed

theorem sprintf_writes_the_rendering_witness:
  "sprintf (\<lambda>_. 0x55) (0x1000 :: 32 word) ''%d!'' [VInt 42] =
     Some (write_bytes (\<lambda>_. 0x55) 0x1000 [0x34, 0x32, 0x21], 3) \<and>
   write_bytes (\<lambda>_. 0x55) (0x1000 :: 32 word) [0x34, 0x32, 0x21] 0x1003 = (0x55 :: byte)"
proof -
  have "formatted ''%d!'' [VInt 42 :: 32 word varg] = Some ''42!''"
    by (simp add: formatted_eval)
  from sprintf_writes_the_rendering [OF _ this, where m = "\<lambda>_. 0x55" and b = "0x1000"] show ?thesis
    by (simp add: kernel_word_def)
qed

end
