(* ===== verification/Hash.thy ===== *)
theory Hash
  imports Sha256 Md5 Printf
begin

text \<open>
  src/hash.h and utils/hash.c: the choice between the two hash functions, and the printing of a
  digest on the console.
\<close>

section \<open>The code\<close>

datatype hash_methods = SHA_256 | MD5_method

text \<open>The enumeration's values, stored in the unsigned \<^verbatim>\<open>hash_type\<close>.\<close>

fun hash_method_value :: "hash_methods \<Rightarrow> uint32" where
  "hash_method_value SHA_256 = 0"
| "hash_method_value MD5_method = 1"

record hashes_t =
  sha_structure :: hash_ctx
  md5_structure :: hash_ctx
  hash_type :: uint32

text \<open>The file is the run of bytes the pointer and the length name; the result is what is put in
  \<^verbatim>\<open>outputted_hash\<close>.\<close>

definition get_hash :: "hashes_t \<Rightarrow> byte list \<Rightarrow> byte list" where
  "get_hash hashes file =
     (if hash_type hashes = hash_method_value SHA_256 then
        let calculated_hash = sha_structure hashes;
            calculated_hash = sha256_init calculated_hash;
            calculated_hash = sha256_update calculated_hash file
        in snd (sha256_sum calculated_hash)
      else
        let calculated_hash = md5_structure hashes;
            calculated_hash = md5_init calculated_hash;
            calculated_hash = md5_update calculated_hash file
        in snd (md5_sum calculated_hash))"

text \<open>The loop of \<^verbatim>\<open>print_hash\<close>: \<open>None\<close> when it reads past the array.\<close>

fun print_hash_loop ::
    "'a::len itself \<Rightarrow> ('s \<Rightarrow> char \<Rightarrow> 's) \<Rightarrow> 's \<Rightarrow> byte list \<Rightarrow> nat \<Rightarrow> 's option" where
  "print_hash_loop k fputc s hash_to_print 0 = Some s"
| "print_hash_loop k fputc s [] (Suc i) = None"
| "print_hash_loop k fputc s (b # hash_to_print) (Suc i) =
     (case printf fputc s ''%02x'' [VInt (ucast b) :: 'a word varg] of
        None \<Rightarrow> None
      | Some (r, s') \<Rightarrow> print_hash_loop k fputc s' hash_to_print i)"

definition print_hash ::
    "'a::len itself \<Rightarrow> ('s \<Rightarrow> char \<Rightarrow> 's) \<Rightarrow> 's \<Rightarrow> byte list \<Rightarrow> nat \<Rightarrow> 's option" where
  "print_hash k fputc s hash_to_print bytes_to_print =
     (case print_hash_loop k fputc s hash_to_print bytes_to_print of
        None \<Rightarrow> None
      | Some s' \<Rightarrow>
          map_option snd (printf fputc s' [CHR 0x0A] ([] :: 'a word varg list)))"

section \<open>Lemmas\<close>

lemma get_hash_methods:
  assumes "length (buf (sha_structure hashes)) = 64" and "length (buf (md5_structure hashes)) = 64"
  shows "get_hash hashes file = (if hash_type hashes = 0 then SHA256 file else MD5 file)"
proof -
  have "snd (sha256_sum (sha256_update (sha256_init (sha_structure hashes)) file)) = SHA256 file"
    using sha256_sum_holds sha256_updates_hold [OF sha256_init_holds [OF assms(1)], of "[file]"] by simp
  moreover have "snd (md5_sum (md5_update (md5_init (md5_structure hashes)) file)) = MD5 file"
    using md5_sum_holds md5_updates_hold [OF md5_init_holds [OF assms(2)], of "[file]"] by simp
  ultimately show ?thesis by (simp add: get_hash_def Let_def)
qed

lemma length_get_hash:
  "length (get_hash hashes file) = (if hash_type hashes = 0 then 32 else 16)"
  by (simp add: get_hash_def Let_def sha256_sum_def md5_sum_def upt_rec)

lemma scast_ucast_byte:
  assumes "kernel_word TYPE('a::len)"
  shows "unat (scast (ucast (b :: byte) :: uint32) :: 'a word) = unat b"
proof -
  have b: "uint b < 256" using uint_lt2p [of b] by simp
  have eq: "sint (ucast b :: uint32) = uint b"
    using b order_trans [OF _ uint_ge_0 [of b], of "- (2 ^ 31)"] signed_take_bit_int_eq_self [of 31 "uint b"]
    by (simp add: sint_uint unsigned_ucast_eq take_bit_int_eq_self)
  have "uint (scast (ucast b :: uint32) :: 'a word) = uint b mod 2 ^ LENGTH('a)"
    by (simp only: scast_eq eq uint_word_of_int)
  also have "\<dots> = uint b"
    using b assms by (intro mod_pos_pos_trivial) (auto simp: kernel_word_def)
  finally show ?thesis by (simp only: unat_eq_nat_uint)
qed

lemma print_byte:
  fixes b :: byte
  assumes "kernel_word TYPE('a::len)"
  shows "formatted ''%02x'' [VInt (ucast b) :: 'a word varg] = Some (num_string 16 (unat b))"
  using scast_ucast_byte [OF assms, of b]
  by (simp add: formatted_def read_format.simps conv_of_def)

lemma print_hash_loop_digits:
  assumes "kernel_word TYPE('a::len)"
  shows "n \<le> length bs \<Longrightarrow> print_hash_loop TYPE('a) fputc s bs n =
    Some (foldl fputc s (concat (map (\<lambda>b. num_string 16 (unat b)) (take n bs))))"
  by (induction "TYPE('a)" fputc s bs n rule: print_hash_loop.induct)
    (simp_all add: printf_formatted [OF assms] print_byte [OF assms])

lemma print_hash_line:
  assumes "kernel_word TYPE('a::len)" and "n \<le> length bs"
  shows "print_hash TYPE('a) fputc s bs n =
    Some (fputc (foldl fputc s (concat (map (\<lambda>b. num_string 16 (unat b)) (take n bs)))) CHR 0x0A)"
proof -
  have "formatted [CHR 0x0A] ([] :: 'a word varg list) = Some [CHR 0x0A]"
    by (simp add: formatted_def read_format.simps)
  then show ?thesis
    by (simp add: print_hash_def print_hash_loop_digits [OF assms] printf_formatted [OF assms(1)])
qed

section \<open>Properties\<close>

text \<open>\<^verbatim>\<open>get_hash\<close> returns the SHA-256 digest of the file when the structure's
  \<^verbatim>\<open>hash_type\<close> is SHA_256 and its MD5 digest for every other value, whatever the contexts
  passed in contain: 32 or 16 bytes.\<close>

theorem get_hash_computes_the_digest:
  assumes "length (buf (sha_structure hashes)) = 64" and "length (buf (md5_structure hashes)) = 64"
  shows "get_hash hashes file =
      (if hash_type hashes = hash_method_value SHA_256 then SHA256 file else MD5 file) \<and>
    length (get_hash hashes file) = (if hash_type hashes = hash_method_value SHA_256 then 32 else 16)"
  by (simp add: get_hash_methods [OF assms] length_get_hash [of hashes, unfolded get_hash_methods [OF assms]])

theorem get_hash_computes_the_digest_witness:
  "let c = \<lparr>len = 5, h = [1], buf = replicate 64 0xee\<rparr>;
       t = \<lparr>sha_structure = c, md5_structure = c, hash_type = 1\<rparr>
   in get_hash t [0x61] = MD5 [0x61] \<and> length (get_hash t [0x61]) = 16"
proof -
  define c where "c = \<lparr>len = 5, h = [1], buf = replicate 64 (0xee :: byte)\<rparr>"
  define t where "t = \<lparr>sha_structure = c, md5_structure = c, hash_type = 1\<rparr>"
  have "length (buf (sha_structure t)) = 64" "length (buf (md5_structure t)) = 64" "hash_type t = 1"
    by (simp_all add: t_def c_def)
  then have "get_hash t [0x61] = MD5 [0x61]" "length (get_hash t [0x61]) = 16"
    using get_hash_computes_the_digest [of t "[0x61]"] by auto
  then show ?thesis unfolding Let_def t_def c_def by (rule conjI)
qed

text \<open>\<^verbatim>\<open>print_hash\<close> prints the hexadecimal notation of each byte and a newline, but
  without the leading zero its \<open>%02x\<close> asks for (the formatter drops widths): a byte below 16
  takes one digit, so different digests of the same length can print the same line.\<close>

theorem print_hash_drops_leading_zeros:
  assumes "kernel_word TYPE('a::len)" and "n \<le> length bs"
  shows "print_hash TYPE('a) fputc s bs n =
      Some (fputc (foldl fputc s (concat (map (\<lambda>b. num_string 16 (unat b)) (take n bs)))) CHR 0x0A) \<and>
    print_hash TYPE('a) fputc s [0x01, 0x23] 2 = print_hash TYPE('a) fputc s [0x12, 0x03] 2"
  using print_hash_line [OF assms]
  by (simp add: print_hash_line [OF assms(1)] num_string_def digits_of_step hex_def)

theorem print_hash_drops_leading_zeros_witness:
  "print_hash TYPE(32) (\<lambda>s c. s @ [c]) [] [0x0a, 0xff] 2 = Some (''aff'' @ [CHR 0x0A])"
  using print_hash_drops_leading_zeros [where 'a = 32 and n = 2 and bs = "[0x0a, 0xff]"
      and fputc = "\<lambda>s c. s @ [c]" and s = "[]"]
  by (simp add: kernel_word_def num_string_def digits_of_step hex_def)

end
