(* ===== verification/Machine.thy ===== *)
theory Machine
  imports Strops Printf
begin

text \<open>
  The ways a piece of code can end, and the state the loading code works on. A piece of code
  returns a result, stops for good in an endless loop that does nothing more (\<^verbatim>\<open>abort\<close> of
  src/defaults.c after its message, \<^verbatim>\<open>arm_halt\<close>), waits for a condition that never comes, or
  does something the C standard leaves undefined; the last is there so that it can be excluded.
  The state of the loading code is the physical memory and the text sent to the console.
\<close>

record 'w machine =
  mem :: "'w \<Rightarrow> byte"
  console :: string

datatype ('r, 's) outcome = Returns 'r 's | Aborts 's | Hangs | Undefined

type_synonym ('r, 's) prog = "'s \<Rightarrow> ('r, 's) outcome"

definition ret :: "'r \<Rightarrow> ('r, 's) prog" where
  "ret r = Returns r"

definition andThen :: "('a, 's) prog \<Rightarrow> ('a \<Rightarrow> ('b, 's) prog) \<Rightarrow> ('b, 's) prog" where
  "andThen p q = (\<lambda>s. case p s of Returns r s' \<Rightarrow> q r s' | Aborts s' \<Rightarrow> Aborts s'
     | Hangs \<Rightarrow> Hangs | Undefined \<Rightarrow> Undefined)"

text \<open>The console: \<^verbatim>\<open>__fputc\<close> as seen by the code above it.\<close>

definition console_fputc :: "'w machine \<Rightarrow> char \<Rightarrow> 'w machine" where
  "console_fputc s c = s\<lparr>console := console s @ [c]\<rparr>"

definition pr :: "string \<Rightarrow> 'a::len word varg list \<Rightarrow> (unit, 'a word machine) prog" where
  "pr fmt args = (\<lambda>s. case printf console_fputc s fmt args of
     None \<Rightarrow> Undefined | Some (n, s') \<Rightarrow> Returns () s')"

text \<open>A text of the source with its final newline.\<close>

definition line :: "string \<Rightarrow> string" where
  "line t = t @ [CHR 0x0A]"

definition abort :: "('r, 'a::len word machine) prog" where
  "abort = andThen (pr (line ''abort() called.'') []) (\<lambda>_ s. Aborts s)"

text \<open>\<^verbatim>\<open>if (c) { printf(...); abort(); }\<close>\<close>

definition abort_if :: "bool \<Rightarrow> string \<Rightarrow> 'a::len word varg list \<Rightarrow> (unit, 'a word machine) prog" where
  "abort_if c fmt args = (if c then andThen (pr fmt args) (\<lambda>_. abort) else ret ())"

section \<open>Reasoning about a run that returns\<close>

lemma ret_Returns [simp]: "ret r s = Returns r' s' \<longleftrightarrow> r' = r \<and> s' = s"
  by (auto simp: ret_def)

lemma andThen_Returns:
  "andThen p q s = Returns r s' \<longleftrightarrow> (\<exists>x t. p s = Returns x t \<and> q x t = Returns r s')"
  by (auto simp: andThen_def split: outcome.splits)

lemma andThen_step: "p s = Returns x t \<Longrightarrow> andThen p q s = q x t"
  by (simp add: andThen_def)

lemma foldl_console_fputc: "foldl console_fputc s t = s\<lparr>console := console s @ t\<rparr>"
  by (induction t arbitrary: s) (simp_all add: console_fputc_def)

lemma pr_formatted:
  fixes args :: "'a::len word varg list"
  assumes "kernel_word TYPE('a)"
  shows "pr fmt args s =
    (case formatted fmt args of None \<Rightarrow> Undefined | Some t \<Rightarrow> Returns () (s\<lparr>console := console s @ t\<rparr>))"
  by (cases "formatted fmt args") (simp_all add: pr_def printf_formatted [OF assms] foldl_console_fputc)

text \<open>Printing leaves the memory alone; a run that returns did not abort.\<close>

lemma pr_mem:
  fixes args :: "'a::len word varg list"
  shows "kernel_word TYPE('a) \<Longrightarrow> pr fmt args s = Returns u t \<Longrightarrow> mem t = mem s"
  by (auto simp: pr_formatted split: option.splits)

lemma abort_if_False: "abort_if False fmt args = ret ()"
  by (simp add: abort_if_def)

lemma abort_never_returns [simp]: "abort s \<noteq> Returns r t"
  by (simp add: abort_def andThen_def split: outcome.split)

lemma abort_if_Returns: "abort_if c fmt args s = Returns u t \<longleftrightarrow> \<not> c \<and> t = s"
  by (auto simp: abort_if_def andThen_Returns)

lemma andThenE:
  assumes "andThen p q s = Returns r t"
  obtains x s' where "p s = Returns x s'" and "q x s' = Returns r t"
  using assms by (auto simp: andThen_Returns)

lemma after_abort_if:
  assumes "andThen (abort_if c fmt args) q s = Returns r t"
  obtains "\<not> c" and "q () s = Returns r t"
  using assms by (auto simp: andThen_Returns abort_if_Returns)

text \<open>Code that leaves the memory as it is.\<close>

definition keeps_mem :: "('r, 'a::len word machine) prog \<Rightarrow> bool" where
  "keeps_mem p \<longleftrightarrow> (\<forall>s r t. p s = Returns r t \<longrightarrow> mem t = mem s)"

lemma keeps_mem_pr: "kernel_word TYPE('a::len) \<Longrightarrow> keeps_mem (pr fmt (args :: 'a word varg list))"
  by (auto simp: keeps_mem_def dest: pr_mem)

lemma keeps_mem_ret: "keeps_mem (ret r)"
  by (simp add: keeps_mem_def)

lemma keeps_mem_abort_if: "keeps_mem (abort_if c fmt args)"
  by (auto simp: keeps_mem_def abort_if_Returns)

lemma keeps_mem_andThen: "keeps_mem p \<Longrightarrow> (\<And>r. keeps_mem (q r)) \<Longrightarrow> keeps_mem (andThen p q)"
  by (fastforce simp: keeps_mem_def andThen_Returns)

lemma after_keeps_mem:
  assumes "andThen p q s = Returns r t" and "keeps_mem p"
  obtains x s' where "mem s' = mem s" and "q x s' = Returns r t"
proof -
  from assms(1) obtain x s' where p: "p s = Returns x s'" and q: "q x s' = Returns r t"
    unfolding andThen_Returns by blast
  have "mem s' = mem s" using assms(2) p unfolding keeps_mem_def by blast
  then show thesis using q by (rule that)
qed

text \<open>A format whose rendering exists is printed.\<close>

lemma pr_prints:
  fixes args :: "'a::len word varg list"
  shows "kernel_word TYPE('a) \<Longrightarrow> formatted fmt args = Some t \<Longrightarrow>
    pr fmt args s = Returns () (s\<lparr>console := console s @ t\<rparr>)"
  by (simp add: pr_formatted)

text \<open>Code that returns and leaves the memory as it is.\<close>

definition runs :: "('r, 'a::len word machine) prog \<Rightarrow> bool" where
  "runs p \<longleftrightarrow> (\<forall>s. \<exists>r t. p s = Returns r t \<and> mem t = mem s)"

lemma runs_ret: "runs (ret r)"
  by (simp add: runs_def ret_def)

lemma runs_pr:
  fixes args :: "'a::len word varg list"
  shows "kernel_word TYPE('a) \<Longrightarrow> formatted fmt args \<noteq> None \<Longrightarrow> runs (pr fmt args)"
  by (auto simp: runs_def pr_formatted)

lemma runs_step:
  assumes "runs p" and "\<And>r s'. mem s' = mem s \<Longrightarrow> \<exists>x t. q r s' = Returns x t"
  shows "\<exists>x t. andThen p q s = Returns x t"
proof -
  obtain r s' where "p s = Returns r s'" "mem s' = mem s" using assms(1) unfolding runs_def by blast
  then show ?thesis using assms(2) by (simp add: andThen_def)
qed

end
