(* ===== verification/Elf32.thy ===== *)
theory Elf32
  imports Strops
begin

text \<open>
  include/binaries/elf/elf32.h and binaries/elf/elf32.c: the structures of a 32-bit ELF file, as
  records read from memory at the offsets the C structures have, and the accessors. A table of
  headers is the address of its first entry; an accessor that indexes it reads the entry at the
  index times the size of the structure. Sizes and addresses in the file are 32 bits; pointers
  are machine words.
\<close>

section \<open>Structures\<close>

definition EI_CLASS :: nat where
  "EI_CLASS = 4"

definition ELFCLASS32 :: byte where
  "ELFCLASS32 = 1"

definition PT_LOAD :: uint32 where
  "PT_LOAD = 1"

text \<open>\<^verbatim>\<open>ELFMAG0\<close> to \<^verbatim>\<open>ELFMAG3\<close>.\<close>

definition ELFMAG :: "byte list" where
  "ELFMAG = [0x7f, 0x45, 0x4c, 0x46]"

record Elf32_Header =
  e_ident :: "byte list"
  e_type :: uint16
  e_machine :: uint16
  e_version :: uint32
  e_entry :: uint32
  e_phoff :: uint32
  e_shoff :: uint32
  e_flags :: uint32
  e_ehsize :: uint16
  e_phentsize :: uint16
  e_phnum :: uint16
  e_shentsize :: uint16
  e_shnum :: uint16
  e_shstrndx :: uint16

definition read_Elf32_Header :: "'a::len mem \<Rightarrow> 'a word \<Rightarrow> Elf32_Header" where
  "read_Elf32_Header m p =
    \<lparr>e_ident = mem_bytes m p 16,
     e_type = load16 m (p + 16),
     e_machine = load16 m (p + 18),
     e_version = load32 m (p + 20),
     e_entry = load32 m (p + 24),
     e_phoff = load32 m (p + 28),
     e_shoff = load32 m (p + 32),
     e_flags = load32 m (p + 36),
     e_ehsize = load16 m (p + 40),
     e_phentsize = load16 m (p + 42),
     e_phnum = load16 m (p + 44),
     e_shentsize = load16 m (p + 46),
     e_shnum = load16 m (p + 48),
     e_shstrndx = load16 m (p + 50)\<rparr>"

record Elf32_Shdr =
  sh_name :: uint32
  sh_type :: uint32
  sh_flags :: uint32
  sh_addr :: uint32
  sh_offset :: uint32
  sh_size :: uint32
  sh_link :: uint32
  sh_info :: uint32
  sh_addralign :: uint32
  sh_entsize :: uint32

definition read_Elf32_Shdr :: "'a::len mem \<Rightarrow> 'a word \<Rightarrow> Elf32_Shdr" where
  "read_Elf32_Shdr m p =
    \<lparr>sh_name = load32 m p,
     sh_type = load32 m (p + 4),
     sh_flags = load32 m (p + 8),
     sh_addr = load32 m (p + 12),
     sh_offset = load32 m (p + 16),
     sh_size = load32 m (p + 20),
     sh_link = load32 m (p + 24),
     sh_info = load32 m (p + 28),
     sh_addralign = load32 m (p + 32),
     sh_entsize = load32 m (p + 36)\<rparr>"

record Elf32_Phdr =
  p_type :: uint32
  p_offset :: uint32
  p_vaddr :: uint32
  p_paddr :: uint32
  p_filesz :: uint32
  p_memsz :: uint32
  p_flags :: uint32
  p_align :: uint32

definition read_Elf32_Phdr :: "'a::len mem \<Rightarrow> 'a word \<Rightarrow> Elf32_Phdr" where
  "read_Elf32_Phdr m p =
    \<lparr>p_type = load32 m p,
     p_offset = load32 m (p + 4),
     p_vaddr = load32 m (p + 8),
     p_paddr = load32 m (p + 12),
     p_filesz = load32 m (p + 16),
     p_memsz = load32 m (p + 20),
     p_flags = load32 m (p + 24),
     p_align = load32 m (p + 28)\<rparr>"

section \<open>Accessors\<close>

definition elf32_checkFile :: "'a::len mem \<Rightarrow> 'a word \<Rightarrow> int" where
  "elf32_checkFile m file =
     (let ident = e_ident (read_Elf32_Header m file)
      in if ident ! 0 \<noteq> ELFMAG ! 0 \<or> ident ! 1 \<noteq> ELFMAG ! 1 \<or>
            ident ! 2 \<noteq> ELFMAG ! 2 \<or> ident ! 3 \<noteq> ELFMAG ! 3 then - 1
         else if ident ! EI_CLASS \<noteq> ELFCLASS32 then - 2
         else 0)"

definition elf32_getNumSections :: "'a::len mem \<Rightarrow> 'a word \<Rightarrow> nat" where
  "elf32_getNumSections m file = unat (e_shnum (read_Elf32_Header m file))"

definition elf32_getSectionTable :: "'a::len mem \<Rightarrow> 'a word \<Rightarrow> 'a word" where
  "elf32_getSectionTable m file = file + ucast (e_shoff (read_Elf32_Header m file))"

text \<open>\<open>sections[i]\<close> and \<open>segments[i]\<close>.\<close>

definition elf32_section :: "'a::len mem \<Rightarrow> 'a word \<Rightarrow> nat \<Rightarrow> Elf32_Shdr" where
  "elf32_section m file i = read_Elf32_Shdr m (elf32_getSectionTable m file + of_nat (40 * i))"

definition elf32_getStringTable :: "'a::len mem \<Rightarrow> 'a word \<Rightarrow> 'a word" where
  "elf32_getStringTable m file =
     file + ucast (sh_offset (elf32_section m file (unat (e_shstrndx (read_Elf32_Header m file)))))"

definition elf32_getProgramSegmentTable :: "'a::len mem \<Rightarrow> 'a word \<Rightarrow> 'a word" where
  "elf32_getProgramSegmentTable m file = ucast (e_phoff (read_Elf32_Header m file)) + file"

definition elf32_getNumProgramHeaders :: "'a::len mem \<Rightarrow> 'a word \<Rightarrow> uint16" where
  "elf32_getNumProgramHeaders m file = e_phnum (read_Elf32_Header m file)"

definition elf32_getSegmentStringTable :: "'a::len mem \<Rightarrow> 'a word \<Rightarrow> 'a word" where
  "elf32_getSegmentStringTable m file =
     (if e_shstrndx (read_Elf32_Header m file) = 0 then 0 else elf32_getStringTable m file)"

definition elf32_getSectionName :: "'a::len mem \<Rightarrow> 'a word \<Rightarrow> nat \<Rightarrow> 'a word c_string" where
  "elf32_getSectionName m file i =
     (let str_table = elf32_getSegmentStringTable m file
      in if str_table = 0 then Literal ''<corrupted>''
         else At (str_table + ucast (sh_name (elf32_section m file i))))"

definition elf32_getSectionSize :: "'a::len mem \<Rightarrow> 'a word \<Rightarrow> nat \<Rightarrow> uint32" where
  "elf32_getSectionSize m file i = sh_size (elf32_section m file i)"

definition elf32_getSectionAddr :: "'a::len mem \<Rightarrow> 'a word \<Rightarrow> nat \<Rightarrow> uint32" where
  "elf32_getSectionAddr m file i = sh_addr (elf32_section m file i)"

definition elf32_getSectionType :: "'a::len mem \<Rightarrow> 'a word \<Rightarrow> uint16 \<Rightarrow> uint32" where
  "elf32_getSectionType m file s = sh_type (elf32_section m file (unat s))"

definition elf32_getSectionFlags :: "'a::len mem \<Rightarrow> 'a word \<Rightarrow> uint16 \<Rightarrow> uint32" where
  "elf32_getSectionFlags m file s = sh_flags (elf32_section m file (unat s))"

definition elf32_getSection :: "'a::len mem \<Rightarrow> 'a word \<Rightarrow> nat \<Rightarrow> 'a word" where
  "elf32_getSection m file i = file + ucast (sh_offset (elf32_section m file i))"

text \<open>The loop over the section names; \<open>None\<close> when a comparison never ends.\<close>

function elf32_named_loop ::
    "'a::len mem \<Rightarrow> 'a word \<Rightarrow> 'a word c_string \<Rightarrow> nat \<Rightarrow> nat \<Rightarrow> 'a word option" where
  "elf32_named_loop m file str numSections i =
     (if i < numSections then
        (case strcmp (chars_of m str) (chars_of m (elf32_getSectionName m file i)) of
           None \<Rightarrow> None
         | Some r \<Rightarrow> if r = 0 then Some (elf32_getSection m file i)
                     else elf32_named_loop m file str numSections (i + 1))
      else Some 0)"
  by pat_completeness auto
termination
  by (relation "measure (\<lambda>(m, file, str, k, i). k - i)") auto

declare elf32_named_loop.simps [simp del]

definition elf32_getSectionNamed :: "'a::len mem \<Rightarrow> 'a word \<Rightarrow> 'a word c_string \<Rightarrow> 'a word option" where
  "elf32_getSectionNamed m file str = elf32_named_loop m file str (elf32_getNumSections m file) 0"

definition elf32_segment :: "'a::len mem \<Rightarrow> 'a word \<Rightarrow> nat \<Rightarrow> Elf32_Phdr" where
  "elf32_segment m file i = read_Elf32_Phdr m (elf32_getProgramSegmentTable m file + of_nat (32 * i))"

definition elf32_getSegmentType :: "'a::len mem \<Rightarrow> 'a word \<Rightarrow> nat \<Rightarrow> uint32" where
  "elf32_getSegmentType m file i = p_type (elf32_segment m file i)"

text \<open>The five results, in the order of the out-parameters \<^verbatim>\<open>p_vaddr\<close>, \<^verbatim>\<open>p_addr\<close>,
  \<^verbatim>\<open>p_filesz\<close>, \<^verbatim>\<open>p_offset\<close>, \<^verbatim>\<open>p_memsz\<close>, widened to 64 bits.\<close>

definition elf32_getSegmentInfo ::
    "'a::len mem \<Rightarrow> 'a word \<Rightarrow> nat \<Rightarrow> uint64 \<times> uint64 \<times> uint64 \<times> uint64 \<times> uint64" where
  "elf32_getSegmentInfo m file i =
     (let s = elf32_segment m file i
      in (ucast (p_vaddr s), ucast (p_paddr s), ucast (p_filesz s), ucast (p_offset s), ucast (p_memsz s)))"

definition elf32_getEntryPoint :: "'a::len mem \<Rightarrow> 'a word \<Rightarrow> uint32" where
  "elf32_getEntryPoint m file = e_entry (read_Elf32_Header m file)"

definition elf32_getProgramHeaderTable :: "'a::len mem \<Rightarrow> 'a word \<Rightarrow> 'a word" where
  "elf32_getProgramHeaderTable m file = file + ucast (e_phoff (read_Elf32_Header m file))"

definition elf32_phdr :: "'a::len mem \<Rightarrow> 'a word \<Rightarrow> uint16 \<Rightarrow> Elf32_Phdr" where
  "elf32_phdr m file ph =
     read_Elf32_Phdr m (elf32_getProgramHeaderTable m file + of_nat (32 * unat ph))"

definition elf32_getProgramHeaderFlags :: "'a::len mem \<Rightarrow> 'a word \<Rightarrow> uint16 \<Rightarrow> uint32" where
  "elf32_getProgramHeaderFlags m file ph = p_flags (elf32_phdr m file ph)"

definition elf32_getProgramHeaderType :: "'a::len mem \<Rightarrow> 'a word \<Rightarrow> uint16 \<Rightarrow> uint32" where
  "elf32_getProgramHeaderType m file ph = p_type (elf32_phdr m file ph)"

definition elf32_getProgramHeaderFileSize :: "'a::len mem \<Rightarrow> 'a word \<Rightarrow> uint16 \<Rightarrow> uint32" where
  "elf32_getProgramHeaderFileSize m file ph = p_filesz (elf32_phdr m file ph)"

definition elf32_getProgramHeaderMemorySize :: "'a::len mem \<Rightarrow> 'a word \<Rightarrow> uint16 \<Rightarrow> uint32" where
  "elf32_getProgramHeaderMemorySize m file ph = p_memsz (elf32_phdr m file ph)"

definition elf32_getProgramHeaderVaddr :: "'a::len mem \<Rightarrow> 'a word \<Rightarrow> uint16 \<Rightarrow> uint32" where
  "elf32_getProgramHeaderVaddr m file ph = p_vaddr (elf32_phdr m file ph)"

definition elf32_getProgramHeaderPaddr :: "'a::len mem \<Rightarrow> 'a word \<Rightarrow> uint16 \<Rightarrow> uint32" where
  "elf32_getProgramHeaderPaddr m file ph = p_paddr (elf32_phdr m file ph)"

definition elf32_getProgramHeaderOffset :: "'a::len mem \<Rightarrow> 'a word \<Rightarrow> uint16 \<Rightarrow> uint32" where
  "elf32_getProgramHeaderOffset m file ph = p_offset (elf32_phdr m file ph)"

section \<open>The layout of the structures\<close>

text \<open>The structures as byte strings: their fields one after the other, without padding.\<close>

definition encode_Elf32_Header :: "Elf32_Header \<Rightarrow> byte list" where
  "encode_Elf32_Header r =
    e_ident r @ bytes_le 2 (e_type r) @ bytes_le 2 (e_machine r) @ bytes_le 4 (e_version r) @
    bytes_le 4 (e_entry r) @ bytes_le 4 (e_phoff r) @ bytes_le 4 (e_shoff r) @
    bytes_le 4 (e_flags r) @ bytes_le 2 (e_ehsize r) @ bytes_le 2 (e_phentsize r) @
    bytes_le 2 (e_phnum r) @ bytes_le 2 (e_shentsize r) @ bytes_le 2 (e_shnum r) @
    bytes_le 2 (e_shstrndx r)"

definition encode_Elf32_Shdr :: "Elf32_Shdr \<Rightarrow> byte list" where
  "encode_Elf32_Shdr r =
    bytes_le 4 (sh_name r) @ bytes_le 4 (sh_type r) @ bytes_le 4 (sh_flags r) @
    bytes_le 4 (sh_addr r) @ bytes_le 4 (sh_offset r) @ bytes_le 4 (sh_size r) @
    bytes_le 4 (sh_link r) @ bytes_le 4 (sh_info r) @ bytes_le 4 (sh_addralign r) @
    bytes_le 4 (sh_entsize r)"

definition encode_Elf32_Phdr :: "Elf32_Phdr \<Rightarrow> byte list" where
  "encode_Elf32_Phdr r =
    bytes_le 4 (p_type r) @ bytes_le 4 (p_offset r) @ bytes_le 4 (p_vaddr r) @
    bytes_le 4 (p_paddr r) @ bytes_le 4 (p_filesz r) @ bytes_le 4 (p_memsz r) @
    bytes_le 4 (p_flags r) @ bytes_le 4 (p_align r)"

lemma length_encode_Elf32_Header: "length (e_ident r) = 16 \<Longrightarrow> length (encode_Elf32_Header r) = 52"
  by (simp add: encode_Elf32_Header_def)

lemma read_encode_Elf32_Header:
  fixes p :: "'a::len word"
  assumes "kernel_word TYPE('a)" and "length (e_ident r) = 16"
  shows "read_Elf32_Header (write_bytes m p (encode_Elf32_Header r)) p = r"
proof -
  note len = length_encode_Elf32_Header [OF assms(2)]
  have "(64 :: nat) \<le> 2 ^ LENGTH('a)" using assms(1) by (auto simp: kernel_word_def)
  then have le: "length (encode_Elf32_Header r) \<le> 2 ^ LENGTH('a)" by (simp add: len)
  note ld = load_write_part [OF le, of 0 m p, simplified]
    load_write_part [OF le, where m = m and p = p and k = "numeral k" for k, simplified]
  have id: "mem_bytes (write_bytes m p (encode_Elf32_Header r)) p 16 = take 16 (encode_Elf32_Header r)"
    using mem_bytes_write_part [OF _ le, of 0 16 m p] by (simp add: len)
  show ?thesis
    using assms(2) by (simp add: read_Elf32_Header_def ld len id) (cases r, simp add: encode_Elf32_Header_def of_bytes_le_bytes_le)
qed

lemma length_encode_Elf32_Shdr: "length (encode_Elf32_Shdr r) = 40"
  by (simp add: encode_Elf32_Shdr_def)

lemma read_encode_Elf32_Shdr:
  fixes p :: "'a::len word"
  assumes "kernel_word TYPE('a)"
  shows "read_Elf32_Shdr (write_bytes m p (encode_Elf32_Shdr r)) p = r"
proof -
  note len = length_encode_Elf32_Shdr
  have "(64 :: nat) \<le> 2 ^ LENGTH('a)" using assms(1) by (auto simp: kernel_word_def)
  then have le: "length (encode_Elf32_Shdr r) \<le> 2 ^ LENGTH('a)" by (simp add: len)
  note ld = load_write_part [OF le, of 0 m p, simplified]
    load_write_part [OF le, where m = m and p = p and k = "numeral k" for k, simplified]
  show ?thesis
    by (simp add: read_Elf32_Shdr_def ld len) (cases r, simp add: encode_Elf32_Shdr_def of_bytes_le_bytes_le)
qed

lemma length_encode_Elf32_Phdr: "length (encode_Elf32_Phdr r) = 32"
  by (simp add: encode_Elf32_Phdr_def)

lemma read_encode_Elf32_Phdr:
  fixes p :: "'a::len word"
  assumes "kernel_word TYPE('a)"
  shows "read_Elf32_Phdr (write_bytes m p (encode_Elf32_Phdr r)) p = r"
proof -
  note len = length_encode_Elf32_Phdr
  have "(64 :: nat) \<le> 2 ^ LENGTH('a)" using assms(1) by (auto simp: kernel_word_def)
  then have le: "length (encode_Elf32_Phdr r) \<le> 2 ^ LENGTH('a)" by (simp add: len)
  note ld = load_write_part [OF le, of 0 m p, simplified]
    load_write_part [OF le, where m = m and p = p and k = "numeral k" for k, simplified]
  show ?thesis
    by (simp add: read_Elf32_Phdr_def ld len) (cases r, simp add: encode_Elf32_Phdr_def of_bytes_le_bytes_le)
qed

section \<open>Properties\<close>

text \<open>The structures of a 32-bit ELF file are laid out as the standard says: reading a
  structure where its fields were written one after the other, little-endian and without padding,
  gives it back, for the file header, the section header and the program header (52, 40 and
  32 bytes).\<close>

theorem elf32_structures_read_back:
  fixes p :: "'a::len word"
  assumes "kernel_word TYPE('a)" and "length (e_ident hdr) = 16"
  shows "read_Elf32_Header (write_bytes m p (encode_Elf32_Header hdr)) p = hdr \<and>
    read_Elf32_Shdr (write_bytes m p (encode_Elf32_Shdr sh)) p = sh \<and>
    read_Elf32_Phdr (write_bytes m p (encode_Elf32_Phdr ph)) p = ph \<and>
    length (encode_Elf32_Header hdr) = 52 \<and> length (encode_Elf32_Shdr sh) = 40 \<and>
    length (encode_Elf32_Phdr ph) = 32"
  by (simp add: read_encode_Elf32_Header [OF assms] read_encode_Elf32_Shdr [OF assms(1)]
      read_encode_Elf32_Phdr [OF assms(1)] length_encode_Elf32_Header [OF assms(2)]
      length_encode_Elf32_Shdr length_encode_Elf32_Phdr)

theorem elf32_structures_read_back_witness:
  "e_phnum (read_Elf32_Header (write_bytes (\<lambda>_. 0) (0x1003 :: 32 word) (encode_Elf32_Header
     \<lparr>e_ident = ELFMAG @ 1 # replicate 11 0, e_type = 2, e_machine = 40, e_version = 1, e_entry = 0x8000,
      e_phoff = 52, e_shoff = 0, e_flags = 0, e_ehsize = 52, e_phentsize = 32, e_phnum = 0x1234,
      e_shentsize = 40, e_shnum = 0, e_shstrndx = 0\<rparr>)) 0x1003) = 0x1234"
  using elf32_structures_read_back [where 'a = 32 and m = "\<lambda>_. 0" and p = "0x1003" and hdr =
     "\<lparr>e_ident = ELFMAG @ 1 # replicate 11 0, e_type = 2, e_machine = 40, e_version = 1, e_entry = 0x8000,
      e_phoff = 52, e_shoff = 0, e_flags = 0, e_ehsize = 52, e_phentsize = 32, e_phnum = 0x1234,
      e_shentsize = 40, e_shnum = 0, e_shstrndx = 0\<rparr>"]
  by (simp add: kernel_word_def ELFMAG_def)

section \<open>A small file\<close>

text \<open>For the concrete instances: a header, one program header (virtual address 0x8000, physical
  address 0x20000, four bytes in the file at offset 84, eight in memory) and the four bytes.\<close>

definition sample_file :: "byte list" where
  "sample_file = [
    0x7f, 0x45, 0x4c, 0x46, 0x01, 0x01, 0x01, 0x00, 0x00, 0x00, 0x00, 0x00, 0x00, 0x00, 0x00, 0x00,
    0x02, 0x00, 0x28, 0x00, 0x01, 0x00, 0x00, 0x00, 0x04, 0x80, 0x00, 0x00, 0x34, 0x00, 0x00, 0x00,
    0x00, 0x00, 0x00, 0x00, 0x00, 0x00, 0x00, 0x00, 0x34, 0x00, 0x20, 0x00, 0x01, 0x00, 0x28, 0x00,
    0x00, 0x00, 0x00, 0x00, 0x01, 0x00, 0x00, 0x00, 0x54, 0x00, 0x00, 0x00, 0x00, 0x80, 0x00, 0x00,
    0x00, 0x00, 0x02, 0x00, 0x04, 0x00, 0x00, 0x00, 0x08, 0x00, 0x00, 0x00, 0x07, 0x00, 0x00, 0x00,
    0x00, 0x10, 0x00, 0x00, 0x01, 0x02, 0x03, 0x04]"

definition sample_mem :: "32 mem" where
  "sample_mem = write_bytes (\<lambda>_. 0xaa) 0x10000 sample_file"

text \<open>And a file with two sections, \<open>.text\<close> and the string table \<open>.str\<close> with their names.\<close>

definition sample_sections :: "32 mem" where
  "sample_sections = write_bytes (\<lambda>_. 0xaa) 0x10000 [
    0x7f, 0x45, 0x4c, 0x46, 0x01, 0x01, 0x01, 0x00, 0x00, 0x00, 0x00, 0x00, 0x00, 0x00, 0x00, 0x00,
    0x02, 0x00, 0x28, 0x00, 0x01, 0x00, 0x00, 0x00, 0x00, 0x00, 0x00, 0x00, 0x00, 0x00, 0x00, 0x00,
    0x44, 0x00, 0x00, 0x00, 0x00, 0x00, 0x00, 0x00, 0x34, 0x00, 0x00, 0x00, 0x00, 0x00, 0x28, 0x00,
    0x02, 0x00, 0x01, 0x00, 0x00, 0x2e, 0x74, 0x65, 0x78, 0x74, 0x00, 0x2e, 0x73, 0x74, 0x72, 0x00,
    0x00, 0x00, 0x00, 0x00, 0x01, 0x00, 0x00, 0x00, 0x01, 0x00, 0x00, 0x00, 0x02, 0x00, 0x00, 0x00,
    0x00, 0x90, 0x00, 0x00, 0x34, 0x00, 0x00, 0x00, 0x04, 0x00, 0x00, 0x00, 0x00, 0x00, 0x00, 0x00,
    0x00, 0x00, 0x00, 0x00, 0x04, 0x00, 0x00, 0x00, 0x00, 0x00, 0x00, 0x00, 0x07, 0x00, 0x00, 0x00,
    0x01, 0x00, 0x00, 0x00, 0x02, 0x00, 0x00, 0x00, 0x00, 0x90, 0x00, 0x00, 0x34, 0x00, 0x00, 0x00,
    0x0c, 0x00, 0x00, 0x00, 0x00, 0x00, 0x00, 0x00, 0x00, 0x00, 0x00, 0x00, 0x04, 0x00, 0x00, 0x00,
    0x00, 0x00, 0x00, 0x00]"

end
