(* ===== verification/Elf64.thy ===== *)
theory Elf64
  imports Elf32
begin

text \<open>
  include/binaries/elf/elf64.h and binaries/elf/elf64.c: the structures of a 64-bit ELF file and
  their accessors, as in \<^verbatim>\<open>Elf32\<close>. The program-header accessors and the entry point go
  through \<^verbatim>\<open>elf64_read64\<close>, which reads a 64-bit field that may be only 4-byte aligned as
  two words; the section accessors read their fields directly. On a 32-bit kernel an offset is
  truncated where it meets a pointer.
\<close>

section \<open>Structures\<close>

definition ELFCLASS64 :: byte where
  "ELFCLASS64 = 2"

record Elf64_Header =
  e_ident :: "byte list"
  e_type :: uint16
  e_machine :: uint16
  e_version :: uint32
  e_entry :: uint64
  e_phoff :: uint64
  e_shoff :: uint64
  e_flags :: uint32
  e_ehsize :: uint16
  e_phentsize :: uint16
  e_phnum :: uint16
  e_shentsize :: uint16
  e_shnum :: uint16
  e_shstrndx :: uint16

definition read_Elf64_Header :: "'a::len mem \<Rightarrow> 'a word \<Rightarrow> Elf64_Header" where
  "read_Elf64_Header m p =
    \<lparr>e_ident = mem_bytes m p 16,
     e_type = load16 m (p + 16),
     e_machine = load16 m (p + 18),
     e_version = load32 m (p + 20),
     e_entry = load64 m (p + 24),
     e_phoff = load64 m (p + 32),
     e_shoff = load64 m (p + 40),
     e_flags = load32 m (p + 48),
     e_ehsize = load16 m (p + 52),
     e_phentsize = load16 m (p + 54),
     e_phnum = load16 m (p + 56),
     e_shentsize = load16 m (p + 58),
     e_shnum = load16 m (p + 60),
     e_shstrndx = load16 m (p + 62)\<rparr>"

record Elf64_Shdr =
  sh_name :: uint32
  sh_type :: uint32
  sh_flags :: uint64
  sh_addr :: uint64
  sh_offset :: uint64
  sh_size :: uint64
  sh_link :: uint32
  sh_info :: uint32
  sh_addralign :: uint64
  sh_entsize :: uint64

definition read_Elf64_Shdr :: "'a::len mem \<Rightarrow> 'a word \<Rightarrow> Elf64_Shdr" where
  "read_Elf64_Shdr m p =
    \<lparr>sh_name = load32 m p,
     sh_type = load32 m (p + 4),
     sh_flags = load64 m (p + 8),
     sh_addr = load64 m (p + 16),
     sh_offset = load64 m (p + 24),
     sh_size = load64 m (p + 32),
     sh_link = load32 m (p + 40),
     sh_info = load32 m (p + 44),
     sh_addralign = load64 m (p + 48),
     sh_entsize = load64 m (p + 56)\<rparr>"

record Elf64_Phdr =
  p_type :: uint32
  p_flags :: uint32
  p_offset :: uint64
  p_vaddr :: uint64
  p_paddr :: uint64
  p_filesz :: uint64
  p_memsz :: uint64
  p_align :: uint64

definition read_Elf64_Phdr :: "'a::len mem \<Rightarrow> 'a word \<Rightarrow> Elf64_Phdr" where
  "read_Elf64_Phdr m p =
    \<lparr>p_type = load32 m p,
     p_flags = load32 m (p + 4),
     p_offset = load64 m (p + 8),
     p_vaddr = load64 m (p + 16),
     p_paddr = load64 m (p + 24),
     p_filesz = load64 m (p + 32),
     p_memsz = load64 m (p + 40),
     p_align = load64 m (p + 48)\<rparr>"

section \<open>Accessors\<close>

definition elf64_checkFile :: "'a::len mem \<Rightarrow> 'a word \<Rightarrow> int" where
  "elf64_checkFile m file =
     (let ident = e_ident (read_Elf64_Header m file)
      in if ident ! 0 \<noteq> ELFMAG ! 0 \<or> ident ! 1 \<noteq> ELFMAG ! 1 \<or>
            ident ! 2 \<noteq> ELFMAG ! 2 \<or> ident ! 3 \<noteq> ELFMAG ! 3 then - 1
         else if ident ! EI_CLASS \<noteq> ELFCLASS64 then - 2
         else 0)"

text \<open>The pointer is the field's address.\<close>

definition elf64_read64 :: "'a::len mem \<Rightarrow> 'a word \<Rightarrow> uint64" where
  "elf64_read64 m addr =
     (if unat addr mod 8 = 0 then load64 m addr
      else push_bit 32 (ucast (load32 m (addr + 4))) OR ucast (load32 m addr))"

definition elf64_getProgramSegmentTable :: "'a::len mem \<Rightarrow> 'a word \<Rightarrow> 'a word" where
  "elf64_getProgramSegmentTable m file = ucast (e_phoff (read_Elf64_Header m file)) + file"

definition elf64_getNumSections :: "'a::len mem \<Rightarrow> 'a word \<Rightarrow> nat" where
  "elf64_getNumSections m file = unat (e_shnum (read_Elf64_Header m file))"

definition elf64_getSectionTable :: "'a::len mem \<Rightarrow> 'a word \<Rightarrow> 'a word" where
  "elf64_getSectionTable m file = ucast (ucast file + e_shoff (read_Elf64_Header m file))"

definition elf64_section :: "'a::len mem \<Rightarrow> 'a word \<Rightarrow> nat \<Rightarrow> Elf64_Shdr" where
  "elf64_section m file i = read_Elf64_Shdr m (elf64_getSectionTable m file + of_nat (64 * i))"

definition elf64_getStringTable :: "'a::len mem \<Rightarrow> 'a word \<Rightarrow> nat \<Rightarrow> 'a word" where
  "elf64_getStringTable m file string_segment =
     file + ucast (sh_offset (elf64_section m file string_segment))"

definition elf64_getSegmentStringTable :: "'a::len mem \<Rightarrow> 'a word \<Rightarrow> 'a word" where
  "elf64_getSegmentStringTable m file =
     (let shstrndx = e_shstrndx (read_Elf64_Header m file)
      in if shstrndx = 0 then 0 else elf64_getStringTable m file (unat shstrndx))"

definition elf64_getSectionName :: "'a::len mem \<Rightarrow> 'a word \<Rightarrow> nat \<Rightarrow> 'a word c_string" where
  "elf64_getSectionName m file i =
     (let str_table = elf64_getSegmentStringTable m file
      in if str_table = 0 then Literal ''<corrupted>''
         else At (str_table + ucast (sh_name (elf64_section m file i))))"

definition elf64_getSectionSize :: "'a::len mem \<Rightarrow> 'a word \<Rightarrow> nat \<Rightarrow> uint64" where
  "elf64_getSectionSize m file i = sh_size (elf64_section m file i)"

definition elf64_getSectionAddr :: "'a::len mem \<Rightarrow> 'a word \<Rightarrow> nat \<Rightarrow> uint64" where
  "elf64_getSectionAddr m file i = sh_addr (elf64_section m file i)"

definition elf64_getSectionType :: "'a::len mem \<Rightarrow> 'a word \<Rightarrow> uint16 \<Rightarrow> uint32" where
  "elf64_getSectionType m file s = sh_type (elf64_section m file (unat s))"

text \<open>The 64-bit field is returned as a 32-bit integer.\<close>

definition elf64_getSectionFlags :: "'a::len mem \<Rightarrow> 'a word \<Rightarrow> uint16 \<Rightarrow> uint32" where
  "elf64_getSectionFlags m file s = ucast (sh_flags (elf64_section m file (unat s)))"

definition elf64_getSection :: "'a::len mem \<Rightarrow> 'a word \<Rightarrow> nat \<Rightarrow> 'a word" where
  "elf64_getSection m file i = file + ucast (sh_offset (elf64_section m file i))"

function elf64_named_loop ::
    "'a::len mem \<Rightarrow> 'a word \<Rightarrow> 'a word c_string \<Rightarrow> nat \<Rightarrow> nat \<Rightarrow> 'a word option" where
  "elf64_named_loop m file str numSections i =
     (if i < numSections then
        (case strcmp (chars_of m str) (chars_of m (elf64_getSectionName m file i)) of
           None \<Rightarrow> None
         | Some r \<Rightarrow> if r = 0 then Some (elf64_getSection m file i)
                     else elf64_named_loop m file str numSections (i + 1))
      else Some 0)"
  by pat_completeness auto
termination
  by (relation "measure (\<lambda>(m, file, str, k, i). k - i)") auto

declare elf64_named_loop.simps [simp del]

definition elf64_getSectionNamed :: "'a::len mem \<Rightarrow> 'a word \<Rightarrow> 'a word c_string \<Rightarrow> 'a word option" where
  "elf64_getSectionNamed m file str = elf64_named_loop m file str (elf64_getNumSections m file) 0"

definition elf64_getNumProgramHeaders :: "'a::len mem \<Rightarrow> 'a word \<Rightarrow> uint16" where
  "elf64_getNumProgramHeaders m file = e_phnum (read_Elf64_Header m file)"

definition elf64_segment :: "'a::len mem \<Rightarrow> 'a word \<Rightarrow> nat \<Rightarrow> Elf64_Phdr" where
  "elf64_segment m file i = read_Elf64_Phdr m (elf64_getProgramSegmentTable m file + of_nat (56 * i))"

definition elf64_getSegmentType :: "'a::len mem \<Rightarrow> 'a word \<Rightarrow> nat \<Rightarrow> uint32" where
  "elf64_getSegmentType m file i = p_type (elf64_segment m file i)"

definition elf64_getSegmentInfo ::
    "'a::len mem \<Rightarrow> 'a word \<Rightarrow> nat \<Rightarrow> uint64 \<times> uint64 \<times> uint64 \<times> uint64 \<times> uint64" where
  "elf64_getSegmentInfo m file i =
     (let s = elf64_segment m file i
      in (p_vaddr s, p_paddr s, p_filesz s, p_offset s, p_memsz s))"

definition elf64_getEntryPoint :: "'a::len mem \<Rightarrow> 'a word \<Rightarrow> uint64" where
  "elf64_getEntryPoint m file = elf64_read64 m (file + 24)"

definition elf64_getProgramHeaderTable :: "'a::len mem \<Rightarrow> 'a word \<Rightarrow> 'a word" where
  "elf64_getProgramHeaderTable m file =
     (let e_phoff = elf64_read64 m (file + 32) in ucast (ucast file + e_phoff))"

text \<open>The address of \<open>elf64_getProgramHeaderTable(file)[ph]\<close>.\<close>

definition elf64_phdr_addr :: "'a::len mem \<Rightarrow> 'a word \<Rightarrow> uint16 \<Rightarrow> 'a word" where
  "elf64_phdr_addr m file ph = elf64_getProgramHeaderTable m file + of_nat (56 * unat ph)"

definition elf64_getProgramHeaderFlags :: "'a::len mem \<Rightarrow> 'a word \<Rightarrow> uint16 \<Rightarrow> uint32" where
  "elf64_getProgramHeaderFlags m file ph = p_flags (read_Elf64_Phdr m (elf64_phdr_addr m file ph))"

definition elf64_getProgramHeaderType :: "'a::len mem \<Rightarrow> 'a word \<Rightarrow> uint16 \<Rightarrow> uint32" where
  "elf64_getProgramHeaderType m file ph = p_type (read_Elf64_Phdr m (elf64_phdr_addr m file ph))"

definition elf64_getProgramHeaderFileSize :: "'a::len mem \<Rightarrow> 'a word \<Rightarrow> uint16 \<Rightarrow> uint64" where
  "elf64_getProgramHeaderFileSize m file ph = elf64_read64 m (elf64_phdr_addr m file ph + 32)"

definition elf64_getProgramHeaderMemorySize :: "'a::len mem \<Rightarrow> 'a word \<Rightarrow> uint16 \<Rightarrow> uint64" where
  "elf64_getProgramHeaderMemorySize m file ph = elf64_read64 m (elf64_phdr_addr m file ph + 40)"

definition elf64_getProgramHeaderVaddr :: "'a::len mem \<Rightarrow> 'a word \<Rightarrow> uint16 \<Rightarrow> uint64" where
  "elf64_getProgramHeaderVaddr m file ph = elf64_read64 m (elf64_phdr_addr m file ph + 16)"

definition elf64_getProgramHeaderPaddr :: "'a::len mem \<Rightarrow> 'a word \<Rightarrow> uint16 \<Rightarrow> uint64" where
  "elf64_getProgramHeaderPaddr m file ph = elf64_read64 m (elf64_phdr_addr m file ph + 24)"

definition elf64_getProgramHeaderOffset :: "'a::len mem \<Rightarrow> 'a word \<Rightarrow> uint16 \<Rightarrow> uint64" where
  "elf64_getProgramHeaderOffset m file ph = elf64_read64 m (elf64_phdr_addr m file ph + 8)"

text \<open>Both branches of \<^verbatim>\<open>elf64_read64\<close> are the same little-endian load.\<close>

lemma elf64_read64_load: "elf64_read64 m addr = load64 m addr"
proof -
  have split: "mem_bytes m addr 8 = mem_bytes m addr 4 @ mem_bytes m (addr + 4) 4"
    using mem_bytes_add [of m addr 4 4] by simp
  have "bit (push_bit 32 (ucast (load32 m (addr + 4))) OR ucast (load32 m addr) :: uint64) n = bit (load64 m addr) n"
    if "n < 64" for n
  proof (cases "n < 32")
    case True
    then show ?thesis
      using that by (auto simp: load64_def load32_def bit_simps bit_of_bytes_le split nth_append div_less_iff_less_mult)
  next
    case False
    then obtain j where n: "n = 32 + j" using le_Suc_ex not_less by blast
    then have "n div 8 = 4 + j div 8" "n mod 8 = j mod 8" by presburger+
    then show ?thesis
      using that n by (simp add: load64_def load32_def bit_simps bit_of_bytes_le split nth_append div_less_iff_less_mult)
  qed
  then have "push_bit 32 (ucast (load32 m (addr + 4))) OR ucast (load32 m addr) = load64 m addr"
    by (intro bit_eqI) simp
  then show ?thesis by (simp add: elf64_read64_def)
qed

lemma elf64_fields:
  "elf64_getProgramHeaderVaddr m f ph = p_vaddr (read_Elf64_Phdr m (elf64_phdr_addr m f ph))"
  "elf64_getProgramHeaderPaddr m f ph = p_paddr (read_Elf64_Phdr m (elf64_phdr_addr m f ph))"
  "elf64_getProgramHeaderFileSize m f ph = p_filesz (read_Elf64_Phdr m (elf64_phdr_addr m f ph))"
  "elf64_getProgramHeaderOffset m f ph = p_offset (read_Elf64_Phdr m (elf64_phdr_addr m f ph))"
  "elf64_getProgramHeaderMemorySize m f ph = p_memsz (read_Elf64_Phdr m (elf64_phdr_addr m f ph))"
  by (simp_all add: elf64_getProgramHeaderVaddr_def elf64_getProgramHeaderPaddr_def
      elf64_getProgramHeaderFileSize_def elf64_getProgramHeaderOffset_def
      elf64_getProgramHeaderMemorySize_def elf64_read64_load read_Elf64_Phdr_def)

section \<open>The layout of the structures\<close>

text \<open>The structures as byte strings: their fields one after the other, without padding.\<close>

definition encode_Elf64_Header :: "Elf64_Header \<Rightarrow> byte list" where
  "encode_Elf64_Header r =
    e_ident r @ bytes_le 2 (e_type r) @ bytes_le 2 (e_machine r) @ bytes_le 4 (e_version r) @
    bytes_le 8 (e_entry r) @ bytes_le 8 (e_phoff r) @ bytes_le 8 (e_shoff r) @
    bytes_le 4 (e_flags r) @ bytes_le 2 (e_ehsize r) @ bytes_le 2 (e_phentsize r) @
    bytes_le 2 (e_phnum r) @ bytes_le 2 (e_shentsize r) @ bytes_le 2 (e_shnum r) @
    bytes_le 2 (e_shstrndx r)"

definition encode_Elf64_Shdr :: "Elf64_Shdr \<Rightarrow> byte list" where
  "encode_Elf64_Shdr r =
    bytes_le 4 (sh_name r) @ bytes_le 4 (sh_type r) @ bytes_le 8 (sh_flags r) @
    bytes_le 8 (sh_addr r) @ bytes_le 8 (sh_offset r) @ bytes_le 8 (sh_size r) @
    bytes_le 4 (sh_link r) @ bytes_le 4 (sh_info r) @ bytes_le 8 (sh_addralign r) @
    bytes_le 8 (sh_entsize r)"

definition encode_Elf64_Phdr :: "Elf64_Phdr \<Rightarrow> byte list" where
  "encode_Elf64_Phdr r =
    bytes_le 4 (p_type r) @ bytes_le 4 (p_flags r) @ bytes_le 8 (p_offset r) @
    bytes_le 8 (p_vaddr r) @ bytes_le 8 (p_paddr r) @ bytes_le 8 (p_filesz r) @
    bytes_le 8 (p_memsz r) @ bytes_le 8 (p_align r)"

lemma length_encode_Elf64_Header: "length (e_ident r) = 16 \<Longrightarrow> length (encode_Elf64_Header r) = 64"
  by (simp add: encode_Elf64_Header_def)

lemma read_encode_Elf64_Header:
  fixes p :: "'a::len word"
  assumes "kernel_word TYPE('a)" and "length (e_ident r) = 16"
  shows "read_Elf64_Header (write_bytes m p (encode_Elf64_Header r)) p = r"
proof -
  note len = length_encode_Elf64_Header [OF assms(2)]
  have "(64 :: nat) \<le> 2 ^ LENGTH('a)" using assms(1) by (auto simp: kernel_word_def)
  then have le: "length (encode_Elf64_Header r) \<le> 2 ^ LENGTH('a)" by (simp add: len)
  note ld = load_write_part [OF le, of 0 m p, simplified]
    load_write_part [OF le, where m = m and p = p and k = "numeral k" for k, simplified]
  have id: "mem_bytes (write_bytes m p (encode_Elf64_Header r)) p 16 = take 16 (encode_Elf64_Header r)"
    using mem_bytes_write_part [OF _ le, of 0 16 m p] by (simp add: len)
  show ?thesis
    using assms(2) by (simp add: read_Elf64_Header_def ld len id) (cases r, simp add: encode_Elf64_Header_def of_bytes_le_bytes_le)
qed

lemma length_encode_Elf64_Shdr: "length (encode_Elf64_Shdr r) = 64"
  by (simp add: encode_Elf64_Shdr_def)

lemma read_encode_Elf64_Shdr:
  fixes p :: "'a::len word"
  assumes "kernel_word TYPE('a)"
  shows "read_Elf64_Shdr (write_bytes m p (encode_Elf64_Shdr r)) p = r"
proof -
  note len = length_encode_Elf64_Shdr
  have "(64 :: nat) \<le> 2 ^ LENGTH('a)" using assms(1) by (auto simp: kernel_word_def)
  then have le: "length (encode_Elf64_Shdr r) \<le> 2 ^ LENGTH('a)" by (simp add: len)
  note ld = load_write_part [OF le, of 0 m p, simplified]
    load_write_part [OF le, where m = m and p = p and k = "numeral k" for k, simplified]
  show ?thesis
    by (simp add: read_Elf64_Shdr_def ld len) (cases r, simp add: encode_Elf64_Shdr_def of_bytes_le_bytes_le)
qed

lemma length_encode_Elf64_Phdr: "length (encode_Elf64_Phdr r) = 56"
  by (simp add: encode_Elf64_Phdr_def)

lemma read_encode_Elf64_Phdr:
  fixes p :: "'a::len word"
  assumes "kernel_word TYPE('a)"
  shows "read_Elf64_Phdr (write_bytes m p (encode_Elf64_Phdr r)) p = r"
proof -
  note len = length_encode_Elf64_Phdr
  have "(64 :: nat) \<le> 2 ^ LENGTH('a)" using assms(1) by (auto simp: kernel_word_def)
  then have le: "length (encode_Elf64_Phdr r) \<le> 2 ^ LENGTH('a)" by (simp add: len)
  note ld = load_write_part [OF le, of 0 m p, simplified]
    load_write_part [OF le, where m = m and p = p and k = "numeral k" for k, simplified]
  show ?thesis
    by (simp add: read_Elf64_Phdr_def ld len) (cases r, simp add: encode_Elf64_Phdr_def of_bytes_le_bytes_le)
qed

section \<open>Properties\<close>

text \<open>C22: The structures of a 64-bit ELF file are laid out as the standard says: reading a
  structure where its fields were written one after the other, little-endian and without padding,
  gives it back, for the file header, the section header and the program header (64, 64 and
  56 bytes).\<close>

theorem elf64_structures_read_back:
  fixes p :: "'a::len word"
  assumes "kernel_word TYPE('a)" and "length (e_ident hdr) = 16"
  shows "read_Elf64_Header (write_bytes m p (encode_Elf64_Header hdr)) p = hdr \<and>
    read_Elf64_Shdr (write_bytes m p (encode_Elf64_Shdr sh)) p = sh \<and>
    read_Elf64_Phdr (write_bytes m p (encode_Elf64_Phdr ph)) p = ph \<and>
    length (encode_Elf64_Header hdr) = 64 \<and> length (encode_Elf64_Shdr sh) = 64 \<and>
    length (encode_Elf64_Phdr ph) = 56"
  by (simp add: read_encode_Elf64_Header [OF assms] read_encode_Elf64_Shdr [OF assms(1)]
      read_encode_Elf64_Phdr [OF assms(1)] length_encode_Elf64_Header [OF assms(2)]
      length_encode_Elf64_Shdr length_encode_Elf64_Phdr)

theorem elf64_structures_read_back_witness:
  "e_phnum (read_Elf64_Header (write_bytes (\<lambda>_. 0) (0x1003 :: 32 word) (encode_Elf64_Header
     \<lparr>e_ident = ELFMAG @ 2 # replicate 11 0, e_type = 2, e_machine = 40, e_version = 1, e_entry = 0x8000,
      e_phoff = 52, e_shoff = 0, e_flags = 0, e_ehsize = 52, e_phentsize = 32, e_phnum = 0x1234,
      e_shentsize = 40, e_shnum = 0, e_shstrndx = 0\<rparr>)) 0x1003) = 0x1234"
  using elf64_structures_read_back [where 'a = 32 and m = "\<lambda>_. 0" and p = "0x1003" and hdr =
     "\<lparr>e_ident = ELFMAG @ 2 # replicate 11 0, e_type = 2, e_machine = 40, e_version = 1, e_entry = 0x8000,
      e_phoff = 52, e_shoff = 0, e_flags = 0, e_ehsize = 52, e_phentsize = 32, e_phnum = 0x1234,
      e_shentsize = 40, e_shnum = 0, e_shstrndx = 0\<rparr>"]
  by (simp add: kernel_word_def ELFMAG_def)

text \<open>\<^verbatim>\<open>elf64_read64\<close> reads the little-endian 64-bit integer at any address:
  the two word reads it uses off an 8-byte boundary give what one load would. So every accessor
  that goes through it returns the field of the structure at that address.\<close>

theorem elf64_read64_is_a_load:
  "elf64_read64 m addr = load64 m addr \<and>
   elf64_getEntryPoint m f = e_entry (read_Elf64_Header m f) \<and>
   elf64_getProgramHeaderVaddr m f ph = p_vaddr (read_Elf64_Phdr m (elf64_phdr_addr m f ph)) \<and>
   elf64_getProgramHeaderPaddr m f ph = p_paddr (read_Elf64_Phdr m (elf64_phdr_addr m f ph)) \<and>
   elf64_getProgramHeaderFileSize m f ph = p_filesz (read_Elf64_Phdr m (elf64_phdr_addr m f ph)) \<and>
   elf64_getProgramHeaderOffset m f ph = p_offset (read_Elf64_Phdr m (elf64_phdr_addr m f ph)) \<and>
   elf64_getProgramHeaderMemorySize m f ph = p_memsz (read_Elf64_Phdr m (elf64_phdr_addr m f ph))"
  by (simp add: elf64_fields elf64_read64_load elf64_getEntryPoint_def read_Elf64_Header_def)

end
