(* ===== verification/Elf.thy ===== *)
theory Elf
  imports Elf64
begin

text \<open>
  binaries/elf/elf.c: the accessors that dispatch on the class byte of the file, the memory
  bounds of an image, address translation within a program header, and \<^verbatim>\<open>elf_loadFile\<close>.
  The abstract view is the list of segments of the file; the bounds and the loading functions
  are specified over it.
\<close>

section \<open>The code\<close>

definition ISELF32 :: "'a::len mem \<Rightarrow> 'a word \<Rightarrow> bool" where
  "ISELF32 m elfFile \<longleftrightarrow> Elf32_Header.e_ident (read_Elf32_Header m elfFile) ! EI_CLASS = ELFCLASS32"

definition elf_checkFile :: "'a::len mem \<Rightarrow> 'a word \<Rightarrow> int" where
  "elf_checkFile m elfFile =
     (if ISELF32 m elfFile then elf32_checkFile m elfFile else elf64_checkFile m elfFile)"

definition elf_getNumProgramHeaders :: "'a::len mem \<Rightarrow> 'a word \<Rightarrow> uint16" where
  "elf_getNumProgramHeaders m elfFile =
     (if ISELF32 m elfFile then elf32_getNumProgramHeaders m elfFile else elf64_getNumProgramHeaders m elfFile)"

definition elf_getProgramHeaderFlags :: "'a::len mem \<Rightarrow> 'a word \<Rightarrow> uint16 \<Rightarrow> uint32" where
  "elf_getProgramHeaderFlags m elfFile ph =
     (if ISELF32 m elfFile then elf32_getProgramHeaderFlags m elfFile ph else elf64_getProgramHeaderFlags m elfFile ph)"

definition elf_getProgramHeaderType :: "'a::len mem \<Rightarrow> 'a word \<Rightarrow> uint16 \<Rightarrow> uint32" where
  "elf_getProgramHeaderType m elfFile ph =
     (if ISELF32 m elfFile then elf32_getProgramHeaderType m elfFile ph else elf64_getProgramHeaderType m elfFile ph)"

text \<open>The fields of a 32-bit file are widened.\<close>

definition elf_getProgramHeaderPaddr :: "'a::len mem \<Rightarrow> 'a word \<Rightarrow> uint16 \<Rightarrow> uint64" where
  "elf_getProgramHeaderPaddr m elfFile ph =
     (if ISELF32 m elfFile then ucast (elf32_getProgramHeaderPaddr m elfFile ph) else elf64_getProgramHeaderPaddr m elfFile ph)"

definition elf_getProgramHeaderVaddr :: "'a::len mem \<Rightarrow> 'a word \<Rightarrow> uint16 \<Rightarrow> uint64" where
  "elf_getProgramHeaderVaddr m elfFile ph =
     (if ISELF32 m elfFile then ucast (elf32_getProgramHeaderVaddr m elfFile ph) else elf64_getProgramHeaderVaddr m elfFile ph)"

definition elf_getProgramHeaderMemorySize :: "'a::len mem \<Rightarrow> 'a word \<Rightarrow> uint16 \<Rightarrow> uint64" where
  "elf_getProgramHeaderMemorySize m elfFile ph =
     (if ISELF32 m elfFile then ucast (elf32_getProgramHeaderMemorySize m elfFile ph) else elf64_getProgramHeaderMemorySize m elfFile ph)"

definition elf_getProgramHeaderFileSize :: "'a::len mem \<Rightarrow> 'a word \<Rightarrow> uint16 \<Rightarrow> uint64" where
  "elf_getProgramHeaderFileSize m elfFile ph =
     (if ISELF32 m elfFile then ucast (elf32_getProgramHeaderFileSize m elfFile ph) else elf64_getProgramHeaderFileSize m elfFile ph)"

definition elf_getProgramHeaderOffset :: "'a::len mem \<Rightarrow> 'a word \<Rightarrow> uint16 \<Rightarrow> uint64" where
  "elf_getProgramHeaderOffset m elfFile ph =
     (if ISELF32 m elfFile then ucast (elf32_getProgramHeaderOffset m elfFile ph) else elf64_getProgramHeaderOffset m elfFile ph)"

definition elf_getSegmentStringTable :: "'a::len mem \<Rightarrow> 'a word \<Rightarrow> 'a word" where
  "elf_getSegmentStringTable m elfFile =
     (if ISELF32 m elfFile then elf32_getSegmentStringTable m elfFile else elf64_getSegmentStringTable m elfFile)"

text \<open>\<open>string_segment\<close> is not used for a 32-bit file.\<close>

definition elf_getStringTable :: "'a::len mem \<Rightarrow> 'a word \<Rightarrow> nat \<Rightarrow> 'a word" where
  "elf_getStringTable m elfFile string_segment =
     (if ISELF32 m elfFile then elf32_getStringTable m elfFile else elf64_getStringTable m elfFile string_segment)"

definition elf_getNumSections :: "'a::len mem \<Rightarrow> 'a word \<Rightarrow> nat" where
  "elf_getNumSections m elfFile =
     (if ISELF32 m elfFile then elf32_getNumSections m elfFile else elf64_getNumSections m elfFile)"

definition elf_getSectionName :: "'a::len mem \<Rightarrow> 'a word \<Rightarrow> nat \<Rightarrow> 'a word c_string" where
  "elf_getSectionName m elfFile i =
     (if ISELF32 m elfFile then elf32_getSectionName m elfFile i else elf64_getSectionName m elfFile i)"

text \<open>The index is converted to 16 bits in the call.\<close>

definition elf_getSectionFlags :: "'a::len mem \<Rightarrow> 'a word \<Rightarrow> nat \<Rightarrow> uint32" where
  "elf_getSectionFlags m elfFile i =
     (if ISELF32 m elfFile then elf32_getSectionFlags m elfFile (of_nat i) else elf64_getSectionFlags m elfFile (of_nat i))"

definition elf_getSectionType :: "'a::len mem \<Rightarrow> 'a word \<Rightarrow> nat \<Rightarrow> uint32" where
  "elf_getSectionType m elfFile i =
     (if ISELF32 m elfFile then elf32_getSectionType m elfFile (of_nat i) else elf64_getSectionType m elfFile (of_nat i))"

definition elf_getSectionSize :: "'a::len mem \<Rightarrow> 'a word \<Rightarrow> nat \<Rightarrow> uint64" where
  "elf_getSectionSize m elfFile i =
     (if ISELF32 m elfFile then ucast (elf32_getSectionSize m elfFile i) else elf64_getSectionSize m elfFile i)"

definition elf_getSectionAddr :: "'a::len mem \<Rightarrow> 'a word \<Rightarrow> nat \<Rightarrow> uint64" where
  "elf_getSectionAddr m elfFile i =
     (if ISELF32 m elfFile then ucast (elf32_getSectionAddr m elfFile i) else elf64_getSectionAddr m elfFile i)"

definition elf_getSection :: "'a::len mem \<Rightarrow> 'a word \<Rightarrow> nat \<Rightarrow> 'a word" where
  "elf_getSection m elfFile i =
     (if ISELF32 m elfFile then elf32_getSection m elfFile i else elf64_getSection m elfFile i)"

definition elf_getSectionNamed :: "'a::len mem \<Rightarrow> 'a word \<Rightarrow> 'a word c_string \<Rightarrow> 'a word option" where
  "elf_getSectionNamed m elfFile str =
     (if ISELF32 m elfFile then elf32_getSectionNamed m elfFile str else elf64_getSectionNamed m elfFile str)"

text \<open>The five out-parameters: virtual address, physical address, file size, offset, memory size.\<close>

definition elf_getProgramHeaderInfo ::
    "'a::len mem \<Rightarrow> 'a word \<Rightarrow> uint16 \<Rightarrow> uint64 \<times> uint64 \<times> uint64 \<times> uint64 \<times> uint64" where
  "elf_getProgramHeaderInfo m elfFile ph =
     (elf_getProgramHeaderVaddr m elfFile ph, elf_getProgramHeaderPaddr m elfFile ph,
      elf_getProgramHeaderFileSize m elfFile ph, elf_getProgramHeaderOffset m elfFile ph,
      elf_getProgramHeaderMemorySize m elfFile ph)"

definition elf_getEntryPoint :: "'a::len mem \<Rightarrow> 'a word \<Rightarrow> uint64" where
  "elf_getEntryPoint m elfFile =
     (if ISELF32 m elfFile then ucast (elf32_getEntryPoint m elfFile) else elf64_getEntryPoint m elfFile)"

text \<open>The loop of \<^verbatim>\<open>elf_getMemoryBounds\<close> over the program headers, from header \<open>i\<close> on.\<close>

function bounds_loop ::
    "'a::len mem \<Rightarrow> 'a word \<Rightarrow> bool \<Rightarrow> nat \<Rightarrow> uint64 \<times> uint64 \<Rightarrow> uint64 \<times> uint64" where
  "bounds_loop m elfFile phys i (mem_min, mem_max) =
     (if i < unat (elf_getNumProgramHeaders m elfFile) then
        let ph = of_nat i
        in if elf_getProgramHeaderMemorySize m elfFile ph = 0
           then bounds_loop m elfFile phys (i + 1) (mem_min, mem_max)
           else
             let sect_min = (if phys then elf_getProgramHeaderPaddr m elfFile ph
                             else elf_getProgramHeaderVaddr m elfFile ph);
                 sect_max = sect_min + elf_getProgramHeaderMemorySize m elfFile ph;
                 mem_max' = (if sect_max > mem_max then sect_max else mem_max);
                 mem_min' = (if sect_min < mem_min then sect_min else mem_min)
             in bounds_loop m elfFile phys (i + 1) (mem_min', mem_max')
      else (mem_min, mem_max))"
  by pat_completeness auto
termination
  by (relation "measure (\<lambda>(m, f, phys, i, b). unat (elf_getNumProgramHeaders m f) - i)") auto

declare bounds_loop.simps [simp del]

text \<open>The result code and the contents of \<open>*min\<close> and \<open>*max\<close>, which an invalid file leaves as
  they were.\<close>

definition elf_getMemoryBounds ::
    "'a::len mem \<Rightarrow> 'a word \<Rightarrow> bool \<Rightarrow> uint64 \<times> uint64 \<Rightarrow> int \<times> uint64 \<times> uint64" where
  "elf_getMemoryBounds m elfFile phys out =
     (if elf_checkFile m elfFile \<noteq> 0 then (0, out)
      else (1, bounds_loop m elfFile phys 0 (UINT64_MAX, 0)))"

definition elf_vaddrInProgramHeader :: "'a::len mem \<Rightarrow> 'a word \<Rightarrow> uint16 \<Rightarrow> uint64 \<Rightarrow> int" where
  "elf_vaddrInProgramHeader m elfFile ph vaddr =
     (let min = elf_getProgramHeaderVaddr m elfFile ph;
          max = min + elf_getProgramHeaderMemorySize m elfFile ph
      in if vaddr \<ge> min \<and> vaddr < max then 1 else 0)"

definition elf_vtopProgramHeader :: "'a::len mem \<Rightarrow> 'a word \<Rightarrow> uint16 \<Rightarrow> uint64 \<Rightarrow> uint64" where
  "elf_vtopProgramHeader m elfFile ph vaddr =
     (let ph_phys = elf_getProgramHeaderPaddr m elfFile ph;
          ph_virt = elf_getProgramHeaderVaddr m elfFile ph
      in vaddr - ph_virt + ph_phys)"

text \<open>One turn of the loop of \<^verbatim>\<open>elf_loadFile\<close>: the header is read in the memory as it is
  after the turns before. \<^verbatim>\<open>len\<close> is a size_t, the addresses are cast to pointers.\<close>

definition load_step :: "'a::len word \<Rightarrow> bool \<Rightarrow> nat \<Rightarrow> 'a mem \<Rightarrow> 'a mem option" where
  "load_step elfFile phys i m =
     (let ph = of_nat i;
          dest = (if phys then elf_getProgramHeaderPaddr m elfFile ph
                  else elf_getProgramHeaderVaddr m elfFile ph);
          n = ucast (elf_getProgramHeaderFileSize m elfFile ph) :: 'a word;
          src = ucast elfFile + elf_getProgramHeaderOffset m elfFile ph
      in case memcpy m (ucast dest) (ucast src) n of
           None \<Rightarrow> None
         | Some m' \<Rightarrow>
             Some (memset m' (ucast (dest + ucast n)) 0
               (ucast (elf_getProgramHeaderMemorySize m' elfFile ph - ucast n))))"

function load_loop :: "'a::len word \<Rightarrow> bool \<Rightarrow> nat \<Rightarrow> 'a mem \<Rightarrow> 'a mem option" where
  "load_loop elfFile phys i m =
     (if i < unat (elf_getNumProgramHeaders m elfFile)
      then Option.bind (load_step elfFile phys i m) (load_loop elfFile phys (i + 1))
      else Some m)"
  by pat_completeness auto
termination
proof (relation "measure (\<lambda>(f, phys, i, m). 2 ^ 16 - i)")
  fix i m and elfFile :: "'a word"
  assume "i < unat (elf_getNumProgramHeaders m elfFile)"
  also have "\<dots> < 2 ^ 16" using unat_lt2p [of "elf_getNumProgramHeaders m elfFile"] by simp
  finally show "((elfFile, phys, i + 1, z), elfFile, phys, i, m) \<in> measure (\<lambda>(f, phys, i, m). 2 ^ 16 - i)"
    for phys z by simp
qed simp

declare load_loop.simps [simp del]

text \<open>\<open>None\<close>: \<^verbatim>\<open>memcpy\<close> aborts.\<close>

definition elf_loadFile :: "'a::len mem \<Rightarrow> 'a word \<Rightarrow> bool \<Rightarrow> (int \<times> 'a mem) option" where
  "elf_loadFile m elfFile phys =
     (if elf_checkFile m elfFile \<noteq> 0 then Some (0, m)
      else map_option (Pair 1) (load_loop elfFile phys 0 m))"

section \<open>Segments\<close>

text \<open>What the loading functions use of a program header, whatever the file's class.\<close>

record segment =
  s_type :: uint32
  s_vaddr :: uint64
  s_paddr :: uint64
  s_filesz :: uint64
  s_offset :: uint64
  s_memsz :: uint64

definition segment_of :: "'a::len mem \<Rightarrow> 'a word \<Rightarrow> uint16 \<Rightarrow> segment" where
  "segment_of m f ph =
     \<lparr>s_type = elf_getProgramHeaderType m f ph, s_vaddr = elf_getProgramHeaderVaddr m f ph,
      s_paddr = elf_getProgramHeaderPaddr m f ph, s_filesz = elf_getProgramHeaderFileSize m f ph,
      s_offset = elf_getProgramHeaderOffset m f ph, s_memsz = elf_getProgramHeaderMemorySize m f ph\<rparr>"

definition segments :: "'a::len mem \<Rightarrow> 'a word \<Rightarrow> segment list" where
  "segments m f = map (\<lambda>i. segment_of m f (of_nat i)) [0..<unat (elf_getNumProgramHeaders m f)]"

definition s_start :: "bool \<Rightarrow> segment \<Rightarrow> uint64" where
  "s_start phys s = (if phys then s_paddr s else s_vaddr s)"

definition s_end :: "bool \<Rightarrow> segment \<Rightarrow> uint64" where
  "s_end phys s = s_start phys s + s_memsz s"

lemma length_segments [simp]: "length (segments m f) = unat (elf_getNumProgramHeaders m f)"
  by (simp add: segments_def)

lemma nth_segments:
  "i < unat (elf_getNumProgramHeaders m f) \<Longrightarrow> segments m f ! i = segment_of m f (of_nat i)"
  by (simp add: segments_def)

text \<open>The file's headers take up at most the first \<open>n\<close> bytes of the file.\<close>

definition headers_within :: "'a::len mem \<Rightarrow> 'a word \<Rightarrow> nat \<Rightarrow> bool" where
  "headers_within m f n \<longleftrightarrow> n \<le> 2 ^ LENGTH('a) \<and>
     (if ISELF32 m f
      then 52 \<le> n \<and> unat (Elf32_Header.e_phoff (read_Elf32_Header m f)) + 32 * unat (elf_getNumProgramHeaders m f) \<le> n
      else 64 \<le> n \<and> unat (e_phoff (read_Elf64_Header m f)) + 56 * unat (elf_getNumProgramHeaders m f) \<le> n)"

lemma load_at_0:
  "load16 m f = load16 m (f + of_nat 0)" "load32 m f = load32 m (f + of_nat 0)" "load64 m f = load64 m (f + of_nat 0)"
  by simp_all

lemma Elf32_Header_agree:
  fixes f :: "'a::len word"
  assumes "agree_on m m' (region f n)" and "n \<le> 2 ^ LENGTH('a)" and "52 \<le> n"
  shows "read_Elf32_Header m' f = read_Elf32_Header m f"
  using mem_bytes_agree [OF assms(1) _ assms(2), of 0 16] load_agree [OF assms(1,2), of "numeral k" for k] assms(3)
  by (simp add: read_Elf32_Header_def)

lemma Elf64_Header_agree:
  fixes f :: "'a::len word"
  assumes "agree_on m m' (region f n)" and "n \<le> 2 ^ LENGTH('a)" and "64 \<le> n"
  shows "read_Elf64_Header m' f = read_Elf64_Header m f"
  using mem_bytes_agree [OF assms(1) _ assms(2), of 0 16] load_agree [OF assms(1,2), of "numeral k" for k] assms(3)
  by (simp add: read_Elf64_Header_def)

lemma Elf32_Phdr_agree:
  fixes f :: "'a::len word"
  assumes "agree_on m m' (region f n)" and "n \<le> 2 ^ LENGTH('a)" and "k + 32 \<le> n"
  shows "read_Elf32_Phdr m' (f + of_nat k) = read_Elf32_Phdr m (f + of_nat k)"
  using load_agree [OF assms(1,2), of k] load_agree [OF assms(1,2), of "k + numeral j" for j] assms(3)
  by (simp add: read_Elf32_Phdr_def add.assoc)

lemma Elf64_Phdr_agree:
  fixes f :: "'a::len word"
  assumes "agree_on m m' (region f n)" and "n \<le> 2 ^ LENGTH('a)" and "k + 56 \<le> n"
  shows "read_Elf64_Phdr m' (f + of_nat k) = read_Elf64_Phdr m (f + of_nat k)"
  using load_agree [OF assms(1,2), of k] load_agree [OF assms(1,2), of "k + numeral j" for j] assms(3)
  by (simp add: read_Elf64_Phdr_def add.assoc)

lemma elf32_phdr_at:
  "elf32_phdr m f ph =
    read_Elf32_Phdr m (f + of_nat (unat (Elf32_Header.e_phoff (read_Elf32_Header m f)) + 32 * unat ph))"
  by (simp add: elf32_phdr_def elf32_getProgramHeaderTable_def add.assoc)

lemma elf64_phdr_at:
  fixes f :: "'a::len word"
  assumes "kernel_word TYPE('a)"
  shows "elf64_phdr_addr m f ph = f + of_nat (unat (e_phoff (read_Elf64_Header m f)) + 56 * unat ph)"
proof -
  have "LENGTH('a) \<le> LENGTH(64)" using assms by (auto simp: kernel_word_def)
  then show ?thesis
    by (simp add: elf64_phdr_addr_def elf64_getProgramHeaderTable_def elf64_read64_load ucast_add_ucast
        read_Elf64_Header_def add.assoc)
qed

lemmas elf_header_defs = elf_getProgramHeaderType_def elf_getProgramHeaderVaddr_def
  elf_getProgramHeaderPaddr_def elf_getProgramHeaderFileSize_def elf_getProgramHeaderOffset_def
  elf_getProgramHeaderMemorySize_def elf32_getProgramHeaderType_def elf32_getProgramHeaderVaddr_def
  elf32_getProgramHeaderPaddr_def elf32_getProgramHeaderFileSize_def elf32_getProgramHeaderOffset_def
  elf32_getProgramHeaderMemorySize_def elf64_getProgramHeaderType_def

text \<open>Where the headers of two memories agree, so do all the accessors.\<close>

lemma file_agree:
  fixes f :: "'a::len word"
  assumes kw: "kernel_word TYPE('a)" and hw: "headers_within m f n"
    and ag: "agree_on m m' (region f n)"
  shows "ISELF32 m' f = ISELF32 m f" and "elf_checkFile m' f = elf_checkFile m f"
    and "elf_getNumProgramHeaders m' f = elf_getNumProgramHeaders m f"
    and "elf_getEntryPoint m' f = elf_getEntryPoint m f"
    and "ph < elf_getNumProgramHeaders m f \<Longrightarrow> segment_of m' f ph = segment_of m f ph"
proof -
  have n: "n \<le> 2 ^ LENGTH('a)" "52 \<le> n"
    using hw by (auto simp: headers_within_def split: if_splits)
  have h32: "read_Elf32_Header m' f = read_Elf32_Header m f"
    by (rule Elf32_Header_agree [OF ag n])
  have h64: "read_Elf64_Header m' f = read_Elf64_Header m f" if "\<not> ISELF32 m f"
    using hw that by (intro Elf64_Header_agree [OF ag n(1)]) (simp add: headers_within_def)
  show is32: "ISELF32 m' f = ISELF32 m f" by (simp add: ISELF32_def h32)
  show "elf_checkFile m' f = elf_checkFile m f"
    by (simp add: elf_checkFile_def is32 elf32_checkFile_def elf64_checkFile_def h32 h64)
  show num: "elf_getNumProgramHeaders m' f = elf_getNumProgramHeaders m f"
    by (simp add: elf_getNumProgramHeaders_def is32 elf32_getNumProgramHeaders_def
        elf64_getNumProgramHeaders_def h32 h64)
  have entry64: "elf64_read64 m x = e_entry (read_Elf64_Header m f)" if "x = f + 24" for m x
    using that by (simp add: elf64_read64_load read_Elf64_Header_def)
  show "elf_getEntryPoint m' f = elf_getEntryPoint m f"
    by (simp add: elf_getEntryPoint_def is32 elf32_getEntryPoint_def elf64_getEntryPoint_def entry64 h32 h64)
  show "ph < elf_getNumProgramHeaders m f \<Longrightarrow> segment_of m' f ph = segment_of m f ph"
  proof (cases "ISELF32 m f")
    case True
    assume "ph < elf_getNumProgramHeaders m f"
    then have "unat (Elf32_Header.e_phoff (read_Elf32_Header m f)) + 32 * unat ph + 32 \<le> n"
      using hw True by (simp add: headers_within_def word_less_nat_alt)
    from Elf32_Phdr_agree [OF ag n(1) this] show ?thesis
      using True by (simp add: segment_of_def elf_header_defs is32 elf32_phdr_at h32)
  next
    case False
    assume "ph < elf_getNumProgramHeaders m f"
    then have "unat (e_phoff (read_Elf64_Header m f)) + 56 * unat ph + 56 \<le> n"
      using hw False by (simp add: headers_within_def word_less_nat_alt)
    from Elf64_Phdr_agree [OF ag n(1) this] show ?thesis
      using False by (simp add: segment_of_def elf_header_defs is32 elf64_fields elf64_phdr_at [OF kw] h64)
  qed
qed

lemma segments_agree:
  fixes f :: "'a::len word"
  assumes "kernel_word TYPE('a)" and "headers_within m f n" and "agree_on m m' (region f n)"
  shows "segments m' f = segments m f"
proof -
  have "segment_of m' f (of_nat i) = segment_of m f (of_nat i)"
    if "i < unat (elf_getNumProgramHeaders m f)" for i
  proof -
    have "i < 2 ^ LENGTH(16)" using that unat_lt2p [of "elf_getNumProgramHeaders m f"] by linarith
    then have "(of_nat i :: uint16) < elf_getNumProgramHeaders m f"
      using that by (simp add: word_less_nat_alt unat_of_nat_less)
    then show ?thesis by (rule file_agree(5) [OF assms])
  qed
  then show ?thesis by (simp add: segments_def file_agree(3) [OF assms])
qed

section \<open>Memory bounds\<close>

lemma bounds_loop_segments:
  "bounds_loop m f phys i b =
    foldl (\<lambda>(mn, mx) s. if s_memsz s = 0 then (mn, mx) else (min (s_start phys s) mn, max (s_end phys s) mx))
      b (drop i (segments m f))"
proof (induction "unat (elf_getNumProgramHeaders m f) - i" arbitrary: i b)
  case 0
  then show ?case by (cases b) (simp add: bounds_loop.simps)
next
  case (Suc k)
  then have i: "i < unat (elf_getNumProgramHeaders m f)" by simp
  have d: "drop i (segments m f) = segment_of m f (of_nat i) # drop (i + 1) (segments m f)"
    using i Cons_nth_drop_Suc [of i "segments m f"] by (simp add: nth_segments)
  have mm: "(if x < y then x else y) = min x y" "(if x > y then x else y) = max x y" for x y :: uint64
    by (auto simp: min_def max_def)
  have IH: "bounds_loop m f phys (i + 1) b =
    foldl (\<lambda>(mn, mx) s. if s_memsz s = 0 then (mn, mx) else (min (s_start phys s) mn, max (s_end phys s) mx))
      b (drop (i + 1) (segments m f))" for b
    using Suc by simp
  show ?case
    unfolding d using i
    by (cases b) (simp add: bounds_loop.simps [of m f phys i] Let_def mm segment_of_def s_start_def s_end_def
        IH [simplified])
qed

lemma Min_insert_min: "finite A \<Longrightarrow> Min (insert (min x y) A) = min x (Min (insert y A))"
  and Max_insert_max: "finite A \<Longrightarrow> Max (insert (max x y) A) = max x (Max (insert y A))"
  for x y :: "'b::linorder"
  by (cases "A = {}"; simp add: min.assoc max.assoc)+

lemma foldl_bounds:
  fixes mn mx :: uint64
  shows "foldl (\<lambda>(mn, mx) s. if s_memsz s = 0 then (mn, mx) else (min (s_start phys s) mn, max (s_end phys s) mx))
      (mn, mx) ss =
    (Min (insert mn (s_start phys ` {s \<in> set ss. s_memsz s \<noteq> 0})),
     Max (insert mx (s_end phys ` {s \<in> set ss. s_memsz s \<noteq> 0})))"
proof (induction ss arbitrary: mn mx)
  case Nil
  then show ?case by simp
next
  case (Cons s ss)
  have "{x. (x = s \<or> x \<in> set ss) \<and> s_memsz x \<noteq> 0} =
      (if s_memsz s = 0 then {x \<in> set ss. s_memsz x \<noteq> 0} else insert s {x \<in> set ss. s_memsz x \<noteq> 0})"
    by auto
  with Cons show ?case
    by (simp add: Min_insert_min Max_insert_max insert_commute [of mn] insert_commute [of mx])
qed

lemma elf_getMemoryBounds_eq:
  "elf_getMemoryBounds m f phys out =
    (if elf_checkFile m f \<noteq> 0 then (0, out)
     else (1, Min (insert UINT64_MAX (s_start phys ` {s \<in> set (segments m f). s_memsz s \<noteq> 0})),
              Max (insert 0 (s_end phys ` {s \<in> set (segments m f). s_memsz s \<noteq> 0}))))"
  by (simp add: elf_getMemoryBounds_def bounds_loop_segments foldl_bounds)

text \<open>A segment that does not wrap lies inside the bounds.\<close>

lemma bounds_cover:
  assumes "elf_getMemoryBounds m f phys out = (1, mn, mx)"
    and "s \<in> set (segments m f)" and "s_memsz s \<noteq> 0"
  shows "mn \<le> s_start phys s" and "s_end phys s \<le> mx"
  using assms by (auto simp: elf_getMemoryBounds_eq split: if_splits intro!: Min_le Max_ge)

section \<open>Loading\<close>

text \<open>The bytes a segment has in memory: its data in the file, then zeros.\<close>

definition segment_bytes :: "'a::len mem \<Rightarrow> 'a word \<Rightarrow> segment \<Rightarrow> byte list" where
  "segment_bytes m f s =
     mem_bytes m (f + ucast (s_offset s)) (unat (s_filesz s)) @
     replicate (unat (s_memsz s) - unat (s_filesz s)) 0"

lemma length_segment_bytes:
  "s_filesz s \<le> s_memsz s \<Longrightarrow> length (segment_bytes m f s) = unat (s_memsz s)"
  by (simp add: segment_bytes_def word_le_nat_alt)

text \<open>A segment that can be loaded from the file in the first \<open>n\<close> bytes from \<open>f\<close>: its data is
  in the file, no longer than its memory, its memory is smaller than the address space and does
  not meet the file.\<close>

definition loadable :: "'a::len word \<Rightarrow> nat \<Rightarrow> bool \<Rightarrow> segment \<Rightarrow> bool" where
  "loadable f n phys s \<longleftrightarrow>
     unat (s_offset s) + unat (s_filesz s) \<le> n \<and> s_filesz s \<le> s_memsz s \<and>
     unat (s_memsz s) < 2 ^ LENGTH('a) \<and>
     region (ucast (s_start phys s)) (unat (s_memsz s)) \<inter> region f n = {}"

text \<open>Writing the segments one after the other.\<close>

definition place_segments :: "bool \<Rightarrow> 'a::len mem \<Rightarrow> 'a word \<Rightarrow> segment list \<Rightarrow> 'a mem \<Rightarrow> 'a mem" where
  "place_segments phys file f ss m =
     foldl (\<lambda>m s. write_bytes m (ucast (s_start phys s)) (segment_bytes file f s)) m ss"

lemma ucast_add_down:
  fixes x y :: "'b::len word"
  assumes "LENGTH('a::len) \<le> LENGTH('b)"
  shows "(ucast (x + y) :: 'a word) = ucast x + ucast y"
proof -
  have sum: "take_bit n (take_bit m a + take_bit m b) = take_bit n (a + b)" if "n \<le> m" for n m and a b :: int
  proof -
    have "take_bit n (take_bit m a + take_bit m b) = take_bit n (take_bit m (take_bit m a + take_bit m b))"
      using that by (simp add: min_absorb1)
    also have "\<dots> = take_bit n (take_bit m (a + b))" by (subst take_bit_add) (rule refl)
    also have "\<dots> = take_bit n (a + b)" using that by (simp add: min_absorb1)
    finally show ?thesis .
  qed
  show ?thesis using assms by transfer (simp add: sum)
qed

lemma unat_ucast_small:
  "unat (x :: 'b::len word) < 2 ^ LENGTH('a::len) \<Longrightarrow> unat (ucast x :: 'a word) = unat x"
  by (simp add: unsigned_ucast_eq take_bit_nat_eq_self)

lemma load_step_writes:
  fixes f :: "'a::len word"
  assumes kw: "kernel_word TYPE('a)" and hw: "headers_within m f n"
    and ph: "i < unat (elf_getNumProgramHeaders m f)" and l: "loadable f n phys (segment_of m f (of_nat i))"
  shows "load_step f phys i m =
    Some (write_bytes m (ucast (s_start phys (segment_of m f (of_nat i)))) (segment_bytes m f (segment_of m f (of_nat i))))"
proof -
  let ?s = "segment_of m f (of_nat i)"
  let ?d = "ucast (s_start phys ?s) :: 'a word" and ?src = "f + ucast (s_offset ?s)"
  let ?n = "ucast (s_filesz ?s) :: 'a word"
  let ?data = "mem_bytes m ?src (unat (s_filesz ?s))"
  have 64: "LENGTH('a) \<le> LENGTH(64)" using kw by (auto simp: kernel_word_def)
  have n: "n \<le> 2 ^ LENGTH('a)" using hw by (simp add: headers_within_def)
  have sz: "unat (s_filesz ?s) \<le> unat (s_memsz ?s)" "unat (s_memsz ?s) < 2 ^ LENGTH('a)"
    and inside: "unat (s_offset ?s) + unat (s_filesz ?s) \<le> n"
    and apart: "region ?d (unat (s_memsz ?s)) \<inter> region f n = {}"
    using l by (simp_all add: loadable_def word_le_nat_alt)
  have un: "unat ?n = unat (s_filesz ?s)" using sz by (intro unat_ucast_small) linarith
  have dsub: "region ?d (unat (s_filesz ?s)) \<subseteq> region ?d (unat (s_memsz ?s))"
    using sz(1) by (auto simp: region_def)
  have "region ?src (unat (s_filesz ?s)) \<subseteq> region f n"
    using region_sub [OF inside n, of f] by simp
  then have "disjoint_regions ?d ?src (unat ?n)"
    using apart dsub unfolding disjoint_regions_def un by blast
  then have cp: "memcpy m ?d ?src ?n = Some (write_bytes m ?d ?data)"
    using memcpy_eq_copy [OF kw, of ?d ?src ?n m] by (simp add: un)
  let ?m' = "write_bytes m ?d ?data"
  have "agree_on m ?m' (region f n)"
    unfolding agree_on_def using apart dsub by (intro ballI write_bytes_outside) auto
  moreover have "(of_nat i :: uint16) < elf_getNumProgramHeaders m f"
    using ph unat_lt2p [of "elf_getNumProgramHeaders m f"] by (simp add: word_less_nat_alt unat_of_nat_less)
  ultimately have seg': "segment_of ?m' f (of_nat i) = ?s"
    by (intro file_agree(5) [OF kw hw])
  have "unat (ucast ?n :: uint64) = unat (s_filesz ?s)"
    using un 64 unat_lt2p [of ?n]
    by (simp add: unsigned_ucast_eq unsigned_take_bit_eq take_bit_nat_eq_self)
  then have up: "(ucast ?n :: uint64) = s_filesz ?s" by (simp only: word_unat_eq_iff)
  have rest: "unat (ucast (s_memsz ?s - ucast ?n) :: 'a word) = unat (s_memsz ?s) - unat (s_filesz ?s)"
  proof -
    have "unat (s_memsz ?s - ucast ?n) = unat (s_memsz ?s) - unat (s_filesz ?s)"
      unfolding up using sz(1) by (simp add: unat_sub word_le_nat_alt)
    then show ?thesis using sz by (simp add: unat_ucast_small)
  qed
  have dest: "ucast (s_start phys ?s + ucast ?n) = ?d + of_nat (length ?data)"
    unfolding up using 64 by (simp add: ucast_add_down)
  have le: "length ?data + length (replicate (unat (s_memsz ?s) - unat (s_filesz ?s)) (0 :: byte)) \<le> 2 ^ LENGTH('a)"
    using sz by simp
  have "load_step f phys i m =
      Some (memset ?m' (?d + of_nat (length ?data)) 0 (ucast (s_memsz ?s - ucast ?n)))"
  proof -
    have fields: "s_start phys ?s = (if phys then elf_getProgramHeaderPaddr m f (of_nat i)
          else elf_getProgramHeaderVaddr m f (of_nat i))"
      "s_filesz ?s = elf_getProgramHeaderFileSize m f (of_nat i)"
      "s_offset ?s = elf_getProgramHeaderOffset m f (of_nat i)"
      "s_memsz ?s = elf_getProgramHeaderMemorySize m f (of_nat i)"
      by (simp_all add: segment_of_def s_start_def)
    have mem': "elf_getProgramHeaderMemorySize ?m' f (of_nat i) = s_memsz ?s"
      using arg_cong [OF seg', of s_memsz] by (simp add: segment_of_def)
    show ?thesis
      unfolding load_step_def Let_def
      using cp dest mem' 64 by (simp add: ucast_add_ucast flip: fields)
  qed
  then show ?thesis
    using write_bytes_append [OF le, of m ?d]
    by (simp add: memset_eq_fill [OF kw] rest segment_bytes_def)
qed

lemma segment_bytes_agree:
  fixes f :: "'a::len word"
  assumes "agree_on m m' (region f n)" and "n \<le> 2 ^ LENGTH('a)"
    and "unat (s_offset s) + unat (s_filesz s) \<le> n"
  shows "segment_bytes m' f s = segment_bytes m f s"
  using mem_bytes_agree [OF assms(1,3,2)] by (simp add: segment_bytes_def)

lemma write_segment_agree:
  fixes f :: "'a::len word"
  assumes "agree_on m m' (region f n)" and "loadable f n phys s"
  shows "agree_on m (write_bytes m' (ucast (s_start phys s)) (segment_bytes file f s)) (region f n)"
proof -
  have "a \<notin> region (ucast (s_start phys s)) (length (segment_bytes file f s))" if "a \<in> region f n" for a
    using that assms(2) by (auto simp: loadable_def length_segment_bytes)
  then show ?thesis
    using assms(1) by (simp add: agree_on_def write_bytes_outside)
qed

lemma load_loop_places:
  fixes f :: "'a::len word"
  assumes kw: "kernel_word TYPE('a)" and hw: "headers_within m f n"
    and l: "\<forall>s \<in> set (segments m f). loadable f n phys s"
  shows "agree_on m m' (region f n) \<Longrightarrow>
    load_loop f phys i m' = Some (place_segments phys m f (drop i (segments m f)) m')"
proof (induction "unat (elf_getNumProgramHeaders m f) - i" arbitrary: i m')
  case 0
  then show ?case
    using file_agree(3) [OF kw hw "0.prems"] by (simp add: load_loop.simps place_segments_def)
next
  case (Suc k)
  let ?s = "segment_of m f (of_nat i)"
  have i: "i < unat (elf_getNumProgramHeaders m f)" using Suc.hyps(2) by simp
  have num: "elf_getNumProgramHeaders m' f = elf_getNumProgramHeaders m f"
    by (rule file_agree(3) [OF kw hw Suc.prems])
  have d: "drop i (segments m f) = ?s # drop (i + 1) (segments m f)"
    using i Cons_nth_drop_Suc [of i "segments m f"] by (simp add: nth_segments)
  then have ls: "loadable f n phys ?s" using l in_set_dropD [of ?s i] by simp
  have n: "n \<le> 2 ^ LENGTH('a)" and data: "unat (s_offset ?s) + unat (s_filesz ?s) \<le> n"
    using hw ls by (simp_all add: headers_within_def loadable_def)
  have seg: "segment_of m' f (of_nat i) = ?s"
    using segments_agree [OF kw hw Suc.prems] i nth_segments [of i m f] nth_segments [of i m' f] num by simp
  have hw': "headers_within m' f n"
  proof -
    have "52 \<le> n" using hw by (auto simp: headers_within_def split: if_splits)
    then show ?thesis
      using hw n Elf32_Header_agree [OF Suc.prems n] Elf64_Header_agree [OF Suc.prems n]
      by (simp add: headers_within_def num file_agree(1) [OF kw hw Suc.prems] split: if_splits)
  qed
  let ?m'' = "write_bytes m' (ucast (s_start phys ?s)) (segment_bytes m f ?s)"
  have "load_step f phys i m' = Some ?m''"
    using load_step_writes [OF kw hw', of i phys] i ls
    by (simp add: num seg segment_bytes_agree [OF Suc.prems n data])
  moreover have "load_loop f phys (i + 1) ?m'' = Some (place_segments phys m f (drop (i + 1) (segments m f)) ?m'')"
    using Suc.hyps(2) by (intro Suc.hyps(1) write_segment_agree [OF Suc.prems ls]) simp
  ultimately show ?case
    using i by (simp add: load_loop.simps [of f phys i m'] num d place_segments_def del: drop_Suc)
qed

section \<open>Section names\<close>

text \<open>A search through numbered names with \<^verbatim>\<open>strcmp\<close>: what both
  \<^verbatim>\<open>getSectionNamed\<close> functions do.\<close>

locale section_search =
  fixes str :: "nat \<Rightarrow> byte" and name :: "nat \<Rightarrow> nat \<Rightarrow> byte" and addr :: "nat \<Rightarrow> 'r"
    and loop :: "nat \<Rightarrow> nat \<Rightarrow> 'r option" and null :: 'r
  assumes loop: "loop n i =
    (if i < n then
       (case strcmp str (name i) of None \<Rightarrow> None
        | Some r \<Rightarrow> if r = 0 then Some (addr i) else loop n (i + 1))
     else Some null)"
begin

lemma loop_finds:
  assumes s: "is_cstr str s" and names: "\<And>i. i < length ns \<Longrightarrow> is_cstr (name i) (ns ! i)"
  shows "loop (length ns) i =
    Some (case find (\<lambda>j. ns ! j = s) [i..<length ns] of Some j \<Rightarrow> addr j | None \<Rightarrow> null)"
proof (induction "length ns - i" arbitrary: i)
  case 0
  then show ?case by (subst loop) simp
next
  case (Suc k)
  then have i: "i < length ns" by simp
  obtain r where r: "strcmp str (name i) = Some r" "r = 0 \<longleftrightarrow> s = ns ! i"
    using strcmp_order [OF s names [OF i]] by blast
  have "loop (length ns) (i + 1) =
      Some (case find (\<lambda>j. ns ! j = s) [i + 1..<length ns] of Some j \<Rightarrow> addr j | None \<Rightarrow> null)"
    using Suc.hyps(2) by (intro Suc.hyps(1)) simp
  then show ?case
    using i r by (subst loop) (auto simp: upt_conv_Cons)
qed

end

interpretation elf32: section_search "chars_of m str" "\<lambda>i. chars_of m (elf32_getSectionName m f i)"
    "elf32_getSection m f" "elf32_named_loop m f str" 0
  for m :: "'a::len mem" and f str
  by unfold_locales (rule elf32_named_loop.simps)

interpretation elf64: section_search "chars_of m str" "\<lambda>i. chars_of m (elf64_getSectionName m f i)"
    "elf64_getSection m f" "elf64_named_loop m f str" 0
  for m :: "'a::len mem" and f str
  by unfold_locales (rule elf64_named_loop.simps)

lemma getSectionNamed_finds:
  assumes "is_cstr (chars_of m str) s" and "length ns = elf_getNumSections m f"
    and "\<And>i. i < length ns \<Longrightarrow> is_cstr (chars_of m (elf_getSectionName m f i)) (ns ! i)"
  shows "elf_getSectionNamed m f str =
    Some (case find (\<lambda>j. ns ! j = s) [0..<length ns] of Some j \<Rightarrow> elf_getSection m f j | None \<Rightarrow> 0)"
proof (cases "ISELF32 m f")
  case True
  with assms elf32.loop_finds [OF assms(1), of ns f 0] show ?thesis
    by (simp add: elf_getSectionNamed_def elf32_getSectionNamed_def elf_getNumSections_def
        elf_getSectionName_def elf_getSection_def cong: option.case_cong)
next
  case False
  with assms elf64.loop_finds [OF assms(1), of ns f 0] show ?thesis
    by (simp add: elf_getSectionNamed_def elf64_getSectionNamed_def elf_getNumSections_def
        elf_getSectionName_def elf_getSection_def cong: option.case_cong)
qed

section \<open>Properties\<close>

text \<open>C16: \<^verbatim>\<open>elf_getMemoryBounds\<close> returns the smallest start and the largest end of the
  segments that occupy memory (UINT64_MAX and 0 when there is none), physical or virtual as asked,
  for either class of file; for an invalid file it reports failure and leaves both out-parameters
  as they were.\<close>

theorem elf_getMemoryBounds_exact:
  "elf_getMemoryBounds m f phys out =
    (if elf_checkFile m f \<noteq> 0 then (0, out)
     else (1, Min ({UINT64_MAX} \<union> {s_start phys s |s. s \<in> set (segments m f) \<and> s_memsz s \<noteq> 0}),
              Max ({0} \<union> {s_end phys s |s. s \<in> set (segments m f) \<and> s_memsz s \<noteq> 0})))"
proof -
  have "{g s |s. s \<in> set (segments m f) \<and> s_memsz s \<noteq> 0} = g ` {s \<in> set (segments m f). s_memsz s \<noteq> 0}"
    for g :: "segment \<Rightarrow> uint64" by blast
  then show ?thesis by (simp add: elf_getMemoryBounds_eq)
qed

text \<open>C15: Loading a valid file whose segments are loadable (data within the file, no longer than
  its memory, memory apart from the file) succeeds and is, as a state transformer, the writing of
  each segment's image (its data, then zeros) at its physical or virtual address in the order of
  the program headers: headers re-read while memory changes stay the ones of the file.\<close>

theorem elf_loadFile_places_segments:
  fixes f :: "'a::len word"
  assumes "kernel_word TYPE('a)" and "elf_checkFile m f = 0" and "headers_within m f n"
    and "\<forall>s \<in> set (segments m f). loadable f n phys s"
  shows "elf_loadFile m f phys = Some (1, place_segments phys m f (segments m f) m)"
  using load_loop_places [OF assms(1,3,4), of m 0] assms(2)
  by (simp add: elf_loadFile_def agree_on_def)

lemma sample_accessors:
  "ISELF32 sample_mem 0x10000" "elf_checkFile sample_mem 0x10000 = 0"
  "elf_getNumProgramHeaders sample_mem 0x10000 = 1"
  "Elf32_Header.e_phoff (read_Elf32_Header sample_mem 0x10000) = 52"
  by code_simp+

lemma sample_segment:
  "segment_of sample_mem 0x10000 0 =
    \<lparr>s_type = 1, s_vaddr = 0x8000, s_paddr = 0x20000, s_filesz = 4, s_offset = 84, s_memsz = 8\<rparr>"
  by code_simp

lemma sample_segments:
  "segments sample_mem 0x10000 =
    [\<lparr>s_type = 1, s_vaddr = 0x8000, s_paddr = 0x20000, s_filesz = 4, s_offset = 84, s_memsz = 8\<rparr>]"
  by (simp add: segments_def sample_accessors sample_segment)

lemma sample_bytes:
  "segment_bytes sample_mem 0x10000
     \<lparr>s_type = 1, s_vaddr = 0x8000, s_paddr = 0x20000, s_filesz = 4, s_offset = 84, s_memsz = 8\<rparr> =
    [1, 2, 3, 4, 0, 0, 0, 0]"
  by code_simp

lemma sample_headers: "headers_within sample_mem 0x10000 88"
  by (simp add: headers_within_def sample_accessors)

theorem elf_loadFile_places_segments_witness:
  "elf_loadFile sample_mem 0x10000 True =
    Some (1, write_bytes sample_mem 0x20000 [1, 2, 3, 4, 0, 0, 0, 0])"
proof -
  have "loadable (0x10000 :: 32 word) 88 True s" if "s \<in> set (segments sample_mem 0x10000)" for s
  proof -
    have "region (0x10000 :: 32 word) 88 \<inter> region 0x20000 8 = {}"
      by (rule region_disjointI) simp_all
    with that show ?thesis by (auto simp: sample_segments loadable_def s_start_def)
  qed
  then show ?thesis
    using elf_loadFile_places_segments [of sample_mem "0x10000" 88 True]
    by (simp add: kernel_word_def sample_accessors sample_headers sample_segments place_segments_def
        s_start_def sample_bytes)
qed

text \<open>C21: \<^verbatim>\<open>elf_getSectionNamed\<close> returns the address of the first section whose name is
  the given string and NULL when there is none, for either class of file, once the names it
  compares are terminated strings.\<close>

theorem elf_getSectionNamed_first:
  assumes "is_cstr (chars_of m str) s" and "length ns = elf_getNumSections m f"
    and "\<forall>i < length ns. is_cstr (chars_of m (elf_getSectionName m f i)) (ns ! i)"
  shows "elf_getSectionNamed m f str =
    Some (case find (\<lambda>j. ns ! j = s) [0..<length ns] of Some j \<Rightarrow> elf_getSection m f j | None \<Rightarrow> 0)"
  using assms by (intro getSectionNamed_finds) auto

theorem elf_getSectionNamed_first_witness:
  "elf_getSectionNamed sample_sections 0x10000 (Literal ''.str'') = Some 0x10034"
proof -
  let ?ns = "[[0x2e, 0x74, 0x65, 0x78, 0x74], [0x2e, 0x73, 0x74, 0x72]] :: byte list list"
  have num: "elf_getNumSections sample_sections 0x10000 = 2" by code_simp
  have addr: "elf_getSection sample_sections 0x10000 1 = 0x10034" by code_simp
  have "is_cstr (chars_of sample_sections (elf_getSectionName sample_sections 0x10000 0)) (?ns ! 0)"
    "is_cstr (chars_of sample_sections (elf_getSectionName sample_sections 0x10000 1)) (?ns ! 1)"
    by code_simp+
  then have "\<forall>i < length ?ns. is_cstr (chars_of sample_sections (elf_getSectionName sample_sections 0x10000 i)) (?ns ! i)"
    by (simp add: All_less_Suc2)
  then show ?thesis
    using elf_getSectionNamed_first [of sample_sections "Literal ''.str''" "[0x2e, 0x73, 0x74, 0x72]" ?ns "0x10000"]
    by (simp add: num addr [simplified] is_cstr_def str_lit_def All_less_Suc2)
qed

text \<open>For a program header that does not wrap around, \<^verbatim>\<open>elf_vaddrInProgramHeader\<close>
  accepts exactly the addresses less than the memory size away from its start, and
  \<^verbatim>\<open>elf_vtopProgramHeader\<close> gives the physical address at the same distance from the
  header's physical start.\<close>

theorem elf_vtop_in_header:
  assumes "unat (elf_getProgramHeaderVaddr m f ph) + unat (elf_getProgramHeaderMemorySize m f ph) < 2 ^ 64"
  shows "(elf_vaddrInProgramHeader m f ph v = 1 \<longleftrightarrow>
      unat (v - elf_getProgramHeaderVaddr m f ph) < unat (elf_getProgramHeaderMemorySize m f ph)) \<and>
    elf_vtopProgramHeader m f ph v - elf_getProgramHeaderPaddr m f ph = v - elf_getProgramHeaderVaddr m f ph"
proof
  let ?v = "elf_getProgramHeaderVaddr m f ph" and ?s = "elf_getProgramHeaderMemorySize m f ph"
  have "unat (?v + ?s) = unat ?v + unat ?s" using assms by (intro unat_add_lem [THEN iffD1]) simp
  then have "elf_vaddrInProgramHeader m f ph v = 1 \<longleftrightarrow> unat ?v \<le> unat v \<and> unat v < unat ?v + unat ?s"
    by (simp add: elf_vaddrInProgramHeader_def Let_def word_le_nat_alt word_less_nat_alt)
  then show "elf_vaddrInProgramHeader m f ph v = 1 \<longleftrightarrow> unat (v - ?v) < unat ?s"
    using region_interval [of ?v "unat ?s" v] assms by (simp add: region_def)
  show "elf_vtopProgramHeader m f ph v - elf_getProgramHeaderPaddr m f ph = v - ?v"
    by (simp add: elf_vtopProgramHeader_def)
qed

theorem elf_vtop_in_header_witness:
  "elf_vaddrInProgramHeader sample_mem 0x10000 0 0x8007 = 1 \<and>
   elf_vaddrInProgramHeader sample_mem 0x10000 0 0x8008 \<noteq> 1 \<and>
   elf_vtopProgramHeader sample_mem 0x10000 0 0x8007 - 0x20000 = 7"
proof -
  have f: "elf_getProgramHeaderVaddr sample_mem 0x10000 0 = 0x8000"
    "elf_getProgramHeaderMemorySize sample_mem 0x10000 0 = 8"
    "elf_getProgramHeaderPaddr sample_mem 0x10000 0 = 0x20000"
    using sample_segment by (simp_all add: segment_of_def)
  show ?thesis
    using elf_vtop_in_header [of sample_mem "0x10000" 0 "0x8007"]
      elf_vtop_in_header [of sample_mem "0x10000" 0 "0x8008"]
    by (simp add: f)
qed

end
