(* ===== verification/Loader.thy ===== *)
theory Loader
  imports Elf Hash Machine
begin

text \<open>
  src/common.c: checking the destination of an image, unpacking an ELF file there, verifying its
  hash, recording where it went, and loading the kernel and the user images of the archive.

  What is outside the repository's C code is the configuration: the linker's symbols, the archive
  functions of libcpio, and the contents of variables the code reads before writing (the hash
  contexts on the stack, and the bounds of a file that turns out not to be an ELF file).
\<close>

section \<open>The code\<close>

datatype hash_config = HASH_NONE | HASH_SHA | HASH_MD5

record 'w config =
  start_sym :: 'w
  end_sym :: 'w
  archive_start :: 'w
  hash_cfg :: hash_config
  cpio_get_file :: "('w \<Rightarrow> byte) \<Rightarrow> 'w \<Rightarrow> string \<Rightarrow> 'w \<times> 'w"
  cpio_get_entry :: "('w \<Rightarrow> byte) \<Rightarrow> 'w \<Rightarrow> nat \<Rightarrow> 'w \<times> string \<times> 'w"
  stack_ctx :: hash_ctx
  stack_bounds :: "uint64 \<times> uint64"

definition regions_overlap :: "'a::len word \<Rightarrow> 'a word \<Rightarrow> 'a word \<Rightarrow> 'a word \<Rightarrow> bool" where
  "regions_overlap startA endA startB endB =
     (if endA < startB then False else if endB < startA then False else True)"

definition ensure_phys_range_valid ::
    "'a::len word config \<Rightarrow> 'a word \<Rightarrow> 'a word \<Rightarrow> (unit, 'a word machine) prog" where
  "ensure_phys_range_valid cfg paddr_min paddr_max =
     abort_if (regions_overlap paddr_min (paddr_max - 1) (start_sym cfg) (end_sym cfg - 1))
       (line ''Kernel load address would overlap ELF-loader!'') []"

text \<open>The loop of \<^verbatim>\<open>unpack_elf_to_paddr\<close> from header \<open>i\<close> on; \<open>None\<close> when
  \<^verbatim>\<open>memcpy\<close> aborts.\<close>

function unpack_loop :: "'a::len word \<Rightarrow> 'a word \<Rightarrow> nat \<Rightarrow> 'a mem \<Rightarrow> 'a mem option" where
  "unpack_loop elf pv_offset i m =
     (if i < unat (elf_getNumProgramHeaders m elf) then
        let ph = of_nat i
        in if elf_getProgramHeaderType m elf ph \<noteq> PT_LOAD
           then unpack_loop elf pv_offset (i + 1) m
           else
             let dest_vaddr = ucast (elf_getProgramHeaderVaddr m elf ph);
                 data_size = ucast (elf_getProgramHeaderFileSize m elf ph);
                 data_offset = ucast (elf_getProgramHeaderOffset m elf ph)
             in Option.bind (memcpy m (dest_vaddr + pv_offset) (elf + data_offset) data_size)
                  (unpack_loop elf pv_offset (i + 1))
      else Some m)"
  by pat_completeness auto
termination
proof (relation "measure (\<lambda>(f, off, i, m). 2 ^ 16 - i)")
  fix i m and elf off :: "'a word"
  assume "i < unat (elf_getNumProgramHeaders m elf)"
  also have "\<dots> < 2 ^ 16" using unat_lt2p [of "elf_getNumProgramHeaders m elf"] by simp
  finally have i: "i < 2 ^ 16" .
  show "((elf, off, i + 1, m), elf, off, i, m) \<in> measure (\<lambda>(f, off, i, m). 2 ^ 16 - i)"
    and "((elf, off, i + 1, z), elf, off, i, m) \<in> measure (\<lambda>(f, off, i, m). 2 ^ 16 - i)" for z
    using i by simp_all
qed simp

declare unpack_loop.simps [simp del]

definition unpack_elf_to_paddr ::
    "'a::len word config \<Rightarrow> 'a word \<Rightarrow> 'a word \<Rightarrow> (unit, 'a word machine) prog" where
  "unpack_elf_to_paddr cfg elf dest_paddr = (\<lambda>s.
     let (_, min_vaddr, max_vaddr) = elf_getMemoryBounds (mem s) elf False (stack_bounds cfg);
         image_size = ucast (max_vaddr - min_vaddr) :: 'a word;
         pv_offset = dest_paddr - ucast min_vaddr;
         m = memset (mem s) dest_paddr 0 image_size
     in case unpack_loop elf pv_offset 0 m of
          None \<Rightarrow> abort (s\<lparr>mem := m\<rparr>)
        | Some m' \<Rightarrow> Returns () (s\<lparr>mem := m'\<rparr>))"

text \<open>The part of \<^verbatim>\<open>load_elf\<close> that CONFIG_HASH_NONE leaves out.\<close>

definition print_hash_prog :: "byte list \<Rightarrow> nat \<Rightarrow> (unit, 'a::len word machine) prog" where
  "print_hash_prog bs n = (\<lambda>s. case print_hash TYPE('a) console_fputc s bs n of
     None \<Rightarrow> Undefined | Some s' \<Rightarrow> Returns () s')"

definition list_chars :: "byte list \<Rightarrow> nat \<Rightarrow> byte" where
  "list_chars bs i = (if i < length bs then bs ! i else 0)"

definition check_hash ::
    "'a::len word config \<Rightarrow> string \<Rightarrow> 'a word \<Rightarrow> 'a word \<Rightarrow> string \<Rightarrow> (unit, 'a word machine) prog" where
  "check_hash cfg name elf file_size hash = (\<lambda>s.
     let file_hash = fst (cpio_get_file cfg (mem s) (archive_start cfg) hash);
         (hash_len, hash_type) = (if hash_cfg cfg = HASH_SHA then (32, hash_method_value SHA_256)
                                  else (16, hash_method_value MD5_method));
         hashes = \<lparr>sha_structure = stack_ctx cfg, md5_structure = stack_ctx cfg, hash_type = hash_type\<rparr>;
         calculated_hash = get_hash hashes (mem_bytes (mem s) elf (unat file_size))
     in andThen (abort_if (file_hash = 0)
            (line ''Cannot compare hashes for %s, expected hash, %s, doesn't exist'') [VStr name, VStr hash]) (\<lambda>_.
        andThen (pr ''Hash from ELF File: '' []) (\<lambda>_.
        andThen (print_hash_prog (mem_bytes (mem s) file_hash hash_len) hash_len) (\<lambda>_.
        andThen (pr ''Hash for ELF Input: '' []) (\<lambda>_.
        andThen (print_hash_prog calculated_hash hash_len) (\<lambda>_.
        abort_if (strncmp (str_at (mem s) file_hash) (list_chars calculated_hash) hash_len \<noteq> 0)
          (line ''Hashes are different. Load failure'') []))))) s)"

text \<open>The header page that \<open>keep_headers\<close> asks for.\<close>

definition put_headers :: "'a::len word \<Rightarrow> 'a word \<Rightarrow> 'a mem \<Rightarrow> 'a mem option" where
  "put_headers elf dest_paddr m =
     (let phnum = ucast (elf_getNumProgramHeaders m elf) :: uint32;
          (phsize, source_paddr) =
            (if ISELF32 m elf
             then (ucast (Elf32_Header.e_phentsize (read_Elf32_Header m elf)), elf32_getProgramHeaderTable m elf)
             else (ucast (e_phentsize (read_Elf64_Header m elf)), elf64_getProgramHeaderTable m elf))
              :: uint32 \<times> 'a word;
          m1 = store_le 4 m dest_paddr phnum;
          m2 = store_le 4 m1 (dest_paddr + 4) phsize
      in memcpy m2 (dest_paddr + 8) source_paddr (ucast (phsize * phnum)))"

text \<open>The result is the byte past the last one used, and the image's placement (what
  \<open>*info\<close> is set to).\<close>

definition load_elf ::
    "'a::len word config \<Rightarrow> string \<Rightarrow> 'a word \<Rightarrow> 'a word \<Rightarrow> bool \<Rightarrow> 'a word \<Rightarrow> string \<Rightarrow>
     ('a word \<times> 'a word image_info, 'a word machine) prog" where
  "load_elf cfg name elf dest_paddr keep_headers file_size hash = (\<lambda>s.
     let (_, min_vaddr, max_vaddr) = elf_getMemoryBounds (mem s) elf False (stack_bounds cfg);
         max_vaddr = ROUND_UP max_vaddr PAGE_BITS;
         image_size = ucast (max_vaddr - min_vaddr) :: 'a word
     in andThen (abort_if (\<not> IS_ALIGNED dest_paddr PAGE_BITS)
            (line ''Attempting to load ELF at unaligned physical address!'') []) (\<lambda>_.
        andThen (abort_if (\<not> IS_ALIGNED dest_paddr 2)
            (line ''Input ELF file not 4-byte aligned in memory!'') []) (\<lambda>_.
        andThen (if hash_cfg cfg = HASH_NONE then ret () else check_hash cfg name elf file_size hash) (\<lambda>_.
        andThen (pr (''ELF-loading image '%s'' @ [CHR 0x27, CHR 0x0A]) [VStr name]) (\<lambda>_.
        andThen (pr (line ''  paddr=[%lx..%lx]'') [VLong dest_paddr, VLong (dest_paddr + image_size - 1)]) (\<lambda>_.
        andThen (pr (line ''  vaddr=[%lx..%lx]'') [VLong (ucast min_vaddr), VLong (ucast max_vaddr - 1)]) (\<lambda>_.
        andThen (pr (line ''  virt_entry=%lx'') [VLong (ucast (elf_getEntryPoint (mem s) elf))]) (\<lambda>_.
        andThen (abort_if (elf_checkFile (mem s) elf \<noteq> 0)
            (line ''Attempting to load invalid ELF file '%s'.'') [VStr name]) (\<lambda>_.
        andThen (abort_if (\<not> IS_ALIGNED min_vaddr PAGE_BITS)
            (line ''Start of image '%s' is not 4K-aligned!'') [VStr name]) (\<lambda>_.
        andThen (ensure_phys_range_valid cfg dest_paddr (dest_paddr + image_size)) (\<lambda>_.
        andThen (unpack_elf_to_paddr cfg elf dest_paddr) (\<lambda>_ s.
        let info = \<lparr>phys_region_start = dest_paddr, phys_region_end = dest_paddr + image_size,
                    virt_region_start = ucast min_vaddr, virt_region_end = ucast max_vaddr,
                    virt_entry = ucast (elf_getEntryPoint (mem s) elf),
                    phys_virt_offset = dest_paddr - ucast min_vaddr\<rparr>;
            dest_paddr = ROUND_UP (dest_paddr + image_size) PAGE_BITS
        in if keep_headers then
             (case put_headers elf dest_paddr (mem s) of
                None \<Rightarrow> abort s
              | Some m \<Rightarrow> Returns (dest_paddr + BIT PAGE_BITS, info) (s\<lparr>mem := m\<rparr>))
           else Returns (dest_paddr, info) s))))))))))) s)"

text \<open>The loop over the user images: \<open>infos\<close> are the entries of \<open>user_info\<close> filled so far.\<close>

fun load_users ::
    "'a::len word config \<Rightarrow> nat \<Rightarrow> nat \<Rightarrow> 'a word \<Rightarrow> 'a word image_info list \<Rightarrow>
     ('a word image_info list, 'a word machine) prog" where
  "load_users cfg 0 i next infos = ret infos"
| "load_users cfg (Suc k) i next infos = (\<lambda>s.
     let (user_elf, elf_filename, file_size) = cpio_get_entry cfg (mem s) (archive_start cfg) (i + 1)
     in if user_elf = 0 then Returns infos s
        else andThen (load_elf cfg elf_filename user_elf next True file_size ''app.bin'')
               (\<lambda>(next', info). load_users cfg k (i + 1) next' (infos @ [info])) s)"

text \<open>The kernel's placement and those of the user images; their number is \<open>*num_images\<close>. A
  comparison of names that never ends is a run that does not return.\<close>

definition load_images ::
    "'a::len word config \<Rightarrow> nat \<Rightarrow> ('a word image_info \<times> 'a word image_info list, 'a word machine) prog" where
  "load_images cfg max_user_images = (\<lambda>s.
     let (kernel_elf, file_size) = cpio_get_file cfg (mem s) (archive_start cfg) ''kernel.elf''
     in andThen (abort_if (kernel_elf = 0) (line ''No kernel image present in archive!'') []) (\<lambda>_.
        andThen (abort_if (elf_checkFile (mem s) kernel_elf \<noteq> 0) (line ''Kernel image not a valid ELF file!'') []) (\<lambda>_.
        let (_, kernel_phys_start, kernel_phys_end) =
              elf_getMemoryBounds (mem s) kernel_elf True (stack_bounds cfg)
        in andThen (load_elf cfg ''kernel'' kernel_elf (ucast kernel_phys_start) False file_size ''kernel.bin'')
             (\<lambda>(next_phys_addr, kernel_info) s.
        let (_, elf_filename, _) = cpio_get_entry cfg (mem s) (archive_start cfg) 0
        in case strcmp (str_lit elf_filename) (str_lit ''kernel.elf'') of
             None \<Rightarrow> Undefined
           | Some r \<Rightarrow>
               andThen (abort_if (r \<noteq> 0) (line ''Kernel image not first image in archive.'') []) (\<lambda>_.
               andThen (load_users cfg max_user_images 0 next_phys_addr []) (\<lambda>user_info.
               ret (kernel_info, user_info))) s))) s)"

section \<open>Rounding\<close>

lemma ROUND_UP_value:
  fixes x :: "'b::len word"
  assumes "0 < x" and "unat x + 2 ^ b \<le> 2 ^ LENGTH('b)" and "b < LENGTH('b)"
  shows "unat (ROUND_UP x b) = ((unat x - 1) div 2 ^ b + 1) * 2 ^ b"
proof -
  have x: "0 < unat x" using assms(1) by (simp add: word_less_nat_alt)
  have "unat (x - 1) = unat x - 1"
    using x by (simp add: unat_minus_one word_gt_0 unat_gt_0)
  moreover have less: "unat x - Suc 0 < 2 ^ LENGTH('b)" using unat_lt2p [of x] by linarith
  ultimately have d: "unat (drop_bit b (x - 1)) = (unat x - 1) div 2 ^ b"
    using less by (simp add: unsigned_drop_bit_eq take_bit_nat_eq_self drop_bit_eq_div [of b "unat x - Suc 0"])
  have "((unat x - 1) div 2 ^ b + 1) * 2 ^ b \<le> unat x - 1 + 2 ^ b" by simp
  also have "\<dots> < 2 ^ LENGTH('b)" using assms(2) x by linarith
  finally have lt: "((unat x - 1) div 2 ^ b + 1) * 2 ^ b < 2 ^ LENGTH('b)" .
  moreover have "(unat x - 1) div 2 ^ b + 1 \<le> ((unat x - 1) div 2 ^ b + 1) * 2 ^ b"
    using mult_le_mono2 [of 1 "2 ^ b" "(unat x - 1) div 2 ^ b + 1"] by simp
  ultimately have "(unat x - 1) div 2 ^ b + 1 < 2 ^ LENGTH('b)" by linarith
  then have "unat (drop_bit b (x - 1) + 1) = (unat x - 1) div 2 ^ b + 1"
    using d by (simp add: unat_word_ariths)
  then show ?thesis
    using lt unfolding ROUND_UP_def unsigned_push_bit_eq
    by (simp add: push_bit_eq_mult [of b "Suc k" for k] take_bit_nat_eq_self)
qed

lemma ROUND_UP_bounds:
  fixes x :: "'b::len word"
  assumes "0 < x" and "unat x + 2 ^ b \<le> 2 ^ LENGTH('b)" and "b < LENGTH('b)"
  shows "unat x \<le> unat (ROUND_UP x b)" and "unat (ROUND_UP x b) < unat x + 2 ^ b"
    and "2 ^ b dvd unat (ROUND_UP x b)"
proof -
  define q where "q = (unat x - 1) div 2 ^ b"
  have v: "unat (ROUND_UP x b) = q * 2 ^ b + 2 ^ b"
    using ROUND_UP_value [OF assms] by (simp add: q_def)
  have x: "0 < unat x" using assms(1) by (simp add: word_less_nat_alt)
  have "q * 2 ^ b \<le> unat x - 1" and "unat x - 1 < q * 2 ^ b + 2 ^ b"
    unfolding q_def using div_times_less_eq_dividend [of "unat x - 1" "2 ^ b"]
      dividend_less_div_times [of "2 ^ b" "unat x - 1"] by (simp_all add: add.commute)
  with x show "unat x \<le> unat (ROUND_UP x b)" and "unat (ROUND_UP x b) < unat x + 2 ^ b"
    unfolding v by linarith+
  show "2 ^ b dvd unat (ROUND_UP x b)" unfolding v by simp
qed

text \<open>An aligned value is its own rounding.\<close>

lemma ROUND_UP_aligned:
  fixes x :: "'b::len word"
  assumes "2 ^ b dvd unat x" and "0 < x" and "unat x + 2 ^ b \<le> 2 ^ LENGTH('b)" and "b < LENGTH('b)"
  shows "ROUND_UP x b = x"
proof -
  obtain k where k: "unat x = 2 ^ b * k" using assms(1) by blast
  obtain j where j: "unat (ROUND_UP x b) = 2 ^ b * j" using ROUND_UP_bounds(3) [OF assms(2-4)] by blast
  have "2 ^ b * k \<le> 2 ^ b * j" "2 ^ b * j < 2 ^ b * (k + 1)"
    using ROUND_UP_bounds(1,2) [OF assms(2-4)] unfolding k j by simp_all
  then have "k \<le> j" "j < k + 1" by (metis mult_le_cancel1 zero_less_numeral zero_less_power, metis mult_less_cancel1)
  then have "k = j" by simp
  then show ?thesis using k j by (simp add: word_unat_eq_iff)
qed

section \<open>Unpacking\<close>

text \<open>The image of a file: zeros from its lowest to its highest address, and the loadable segments'
  data over them in the order of the program headers.\<close>

definition put_segment :: "'a::len mem \<Rightarrow> 'a word \<Rightarrow> uint64 \<Rightarrow> byte list \<Rightarrow> segment \<Rightarrow> byte list" where
  "put_segment m f min_vaddr bs s =
     buf_put bs (unat (s_vaddr s - min_vaddr)) (mem_bytes m (f + ucast (s_offset s)) (unat (s_filesz s)))"

definition loaded_segments :: "segment list \<Rightarrow> segment list" where
  "loaded_segments ss = filter (\<lambda>s. s_type s = PT_LOAD) ss"

definition image_bytes :: "'a::len mem \<Rightarrow> 'a word \<Rightarrow> uint64 \<Rightarrow> nat \<Rightarrow> byte list" where
  "image_bytes m f min_vaddr image_size =
     foldl (put_segment m f min_vaddr) (replicate image_size 0) (loaded_segments (segments m f))"

text \<open>The segment's data lies in the first \<open>n\<close> bytes of the file and fits the image.\<close>

definition fits :: "nat \<Rightarrow> uint64 \<Rightarrow> nat \<Rightarrow> segment \<Rightarrow> bool" where
  "fits n min_vaddr image_size s \<longleftrightarrow>
     unat (s_offset s) + unat (s_filesz s) \<le> n \<and>
     (s_filesz s = 0 \<or> unat (s_vaddr s - min_vaddr) + unat (s_filesz s) \<le> image_size)"

lemma length_put_segment:
  "fits n mn k s \<Longrightarrow> length bs = k \<Longrightarrow> length (put_segment m f mn bs s) = k"
  by (auto simp: fits_def put_segment_def length_buf_put)

lemma length_image_bytes:
  assumes "\<And>s. s \<in> set (loaded_segments (segments m f)) \<Longrightarrow> fits n mn k s"
  shows "length (image_bytes m f mn k) = k"
proof -
  have "length (foldl (put_segment m f mn) bs ss) = k"
    if "length bs = k" "\<forall>s \<in> set ss. fits n mn k s" for bs ss
    using that by (induction ss arbitrary: bs) (auto intro: length_put_segment)
  then show ?thesis using assms by (simp add: image_bytes_def)
qed

lemma unpack_copy:
  fixes f dest :: "'a::len word"
  assumes kw: "kernel_word TYPE('a)" and fits: "fits n mn k s" and bs: "length bs = k"
    and k: "k < 2 ^ LENGTH('a)" and n: "n \<le> 2 ^ LENGTH('a)"
    and apart: "region dest k \<inter> region f n = {}"
  shows "memcpy (write_bytes m dest bs) (ucast (s_vaddr s) + (dest - ucast mn)) (f + ucast (s_offset s))
      (ucast (s_filesz s)) = Some (write_bytes m dest (put_segment m f mn bs s))"
proof -
  let ?src = "f + of_nat (unat (s_offset s))" and ?c = "unat (s_filesz s)" and ?m = "write_bytes m dest bs"
  have src: "f + ucast (s_offset s) = ?src" by simp
  have inside: "unat (s_offset s) + ?c \<le> n" using fits by (simp add: fits_def)
  have "agree_on m ?m (region f n)"
    unfolding agree_on_def using apart bs by (intro ballI write_bytes_outside) auto
  then have data: "mem_bytes ?m ?src ?c = mem_bytes m ?src ?c"
    by (rule mem_bytes_agree [OF _ inside n])
  show ?thesis
  proof (cases "?c = 0")
    case True
    then have "s_filesz s = 0" by (simp add: unat_eq_zero)
    then show ?thesis
      using memcpy_eq_copy [OF kw, of _ _ 0 ?m] by (simp add: disjoint_regions_def region_def put_segment_def)
  next
    case False
    let ?o = "unat (s_vaddr s - mn)"
    have le: "?o + ?c \<le> k" using fits False by (auto simp: fits_def)
    have "LENGTH('a) \<le> LENGTH(64)" using kw by (auto simp: kernel_word_def)
    then have "ucast (s_vaddr s) = (ucast (s_vaddr s - mn) :: 'a word) + ucast mn"
      using ucast_add_down [of "s_vaddr s - mn" mn] by simp
    then have d: "ucast (s_vaddr s) + (dest - ucast mn) = dest + of_nat ?o" by simp
    have cnt: "unat (ucast (s_filesz s) :: 'a word) = ?c" using le k by (intro unat_ucast_small) linarith
    have "region (dest + of_nat ?o) ?c \<subseteq> region dest k" and "region ?src ?c \<subseteq> region f n"
      using region_sub [OF le, of dest] region_sub [OF inside n, of f] k by simp_all
    then have "disjoint_regions (dest + of_nat ?o) ?src (unat (ucast (s_filesz s) :: 'a word))"
      unfolding disjoint_regions_def cnt using apart by blast
    from memcpy_eq_copy [OF kw this, of ?m]
    have "memcpy ?m (dest + of_nat ?o) ?src (ucast (s_filesz s)) =
        Some (write_bytes ?m (dest + of_nat ?o) (mem_bytes m ?src ?c))"
      by (simp only: cnt data)
    also have "write_bytes ?m (dest + of_nat ?o) (mem_bytes m ?src ?c) =
        write_bytes m dest (put_segment m f mn bs s)"
      using write_bytes_put [of ?o "mem_bytes m ?src ?c" bs m dest] le bs k by (simp add: put_segment_def)
    finally show ?thesis by (simp only: d src)
  qed
qed

lemma headers_within_agree:
  fixes f :: "'a::len word"
  assumes kw: "kernel_word TYPE('a)" and hw: "headers_within m f n" and ag: "agree_on m m' (region f n)"
  shows "headers_within m' f n"
proof -
  have n: "n \<le> 2 ^ LENGTH('a)" "52 \<le> n"
    using hw by (auto simp: headers_within_def split: if_splits)
  show ?thesis
    using hw Elf32_Header_agree [OF ag n] Elf64_Header_agree [OF ag n(1)]
    by (simp add: headers_within_def file_agree(1,3) [OF kw hw ag] split: if_splits)
qed

lemma unpack_loop_puts:
  fixes f dest :: "'a::len word"
  assumes kw: "kernel_word TYPE('a)" and hw: "headers_within m f n" and k: "k < 2 ^ LENGTH('a)"
    and apart: "region dest k \<inter> region f n = {}"
    and fits: "\<forall>s \<in> set (loaded_segments (segments m f)). fits n mn k s"
  shows "length bs = k \<Longrightarrow>
    unpack_loop f (dest - ucast mn) i (write_bytes m dest bs) =
      Some (write_bytes m dest (foldl (put_segment m f mn) bs (loaded_segments (drop i (segments m f)))))"
proof (induction "unat (elf_getNumProgramHeaders m f) - i" arbitrary: i bs)
  case 0
  have "agree_on m (write_bytes m dest bs) (region f n)"
    unfolding agree_on_def using apart "0.prems" by (intro ballI write_bytes_outside) auto
  with 0 show ?case
    using file_agree(3) [OF kw hw] by (simp add: unpack_loop.simps loaded_segments_def)
next
  case (Suc j)
  let ?s = "segment_of m f (of_nat i)" and ?m = "write_bytes m dest bs"
  have i: "i < unat (elf_getNumProgramHeaders m f)" using Suc.hyps(2) by simp
  have n: "n \<le> 2 ^ LENGTH('a)" using hw by (simp add: headers_within_def)
  have ag: "agree_on m ?m (region f n)"
    unfolding agree_on_def using apart Suc.prems by (intro ballI write_bytes_outside) auto
  have num: "elf_getNumProgramHeaders ?m f = elf_getNumProgramHeaders m f"
    by (rule file_agree(3) [OF kw hw ag])
  have d: "drop i (segments m f) = ?s # drop (i + 1) (segments m f)"
    using i Cons_nth_drop_Suc [of i "segments m f"] by (simp add: nth_segments)
  have seg: "segment_of ?m f (of_nat i) = ?s"
    using segments_agree [OF kw hw ag] i nth_segments [of i m f] nth_segments [of i ?m f] num by simp
  then have fields: "elf_getProgramHeaderType ?m f (of_nat i) = s_type ?s"
    "elf_getProgramHeaderVaddr ?m f (of_nat i) = s_vaddr ?s"
    "elf_getProgramHeaderFileSize ?m f (of_nat i) = s_filesz ?s"
    "elf_getProgramHeaderOffset ?m f (of_nat i) = s_offset ?s"
    by (simp_all add: segment_of_def)
  have len: "j = unat (elf_getNumProgramHeaders m f) - (i + 1)" using Suc.hyps(2) by linarith
  note rest = Suc.hyps(1) [OF len]
  show ?case
  proof (cases "s_type ?s = PT_LOAD")
    case False
    then show ?thesis
      using i rest Suc.prems
      by (simp add: unpack_loop.simps [of f _ i] num fields d loaded_segments_def)
  next
    case True
    then have "?s \<in> set (loaded_segments (segments m f))"
      using d in_set_dropD [of ?s i "segments m f"] by (simp add: loaded_segments_def)
    then have ft: "fits n mn k ?s" using fits by blast
    show ?thesis
      using i True unpack_copy [OF kw ft Suc.prems k n apart] rest [OF length_put_segment [OF ft Suc.prems]]
      by (simp add: unpack_loop.simps [of f _ i] num fields d loaded_segments_def)
  qed
qed

text \<open>A file that \<^verbatim>\<open>unpack_elf_to_paddr\<close> handles: valid, its headers and the data of its
  loadable segments in its first \<open>n\<close> bytes, no segment wrapping around or with more data than
  memory.\<close>

definition image_ok :: "'a::len mem \<Rightarrow> 'a word \<Rightarrow> nat \<Rightarrow> bool" where
  "image_ok m f n \<longleftrightarrow>
     elf_checkFile m f = 0 \<and> headers_within m f n \<and>
     (\<forall>s \<in> set (segments m f). unat (s_vaddr s) + unat (s_memsz s) < 2 ^ 64 \<and>
        (s_type s = PT_LOAD \<longrightarrow>
           unat (s_offset s) + unat (s_filesz s) \<le> n \<and> s_filesz s \<le> s_memsz s))"

lemma image_fits:
  assumes ok: "image_ok m f n" and b: "elf_getMemoryBounds m f False out = (r, mn, mx)"
    and s: "s \<in> set (loaded_segments (segments m f))"
  shows "fits n mn (unat (mx - mn)) s"
proof (cases "s_filesz s = 0")
  case True
  with ok s show ?thesis by (auto simp: fits_def image_ok_def loaded_segments_def)
next
  case False
  have in_set: "s \<in> set (segments m f)" and sz: "s_filesz s \<le> s_memsz s"
    and wrap: "unat (s_vaddr s) + unat (s_memsz s) < 2 ^ 64"
    using ok s by (auto simp: image_ok_def loaded_segments_def)
  have "s_memsz s \<noteq> 0" using sz False by auto
  moreover have "r = 1" using b ok by (simp add: elf_getMemoryBounds_def image_ok_def)
  ultimately have "mn \<le> s_vaddr s" "s_vaddr s + s_memsz s \<le> mx"
    using bounds_cover [OF b [unfolded \<open>r = 1\<close>] in_set] by (simp_all add: s_start_def s_end_def)
  moreover have "unat (s_vaddr s + s_memsz s) = unat (s_vaddr s) + unat (s_memsz s)"
    using wrap by (intro unat_add_lem [THEN iffD1]) simp
  ultimately have "unat (s_vaddr s - mn) + unat (s_memsz s) \<le> unat (mx - mn)"
    by (simp add: word_le_nat_alt unat_sub)
  then show ?thesis
    using ok s sz by (auto simp: fits_def image_ok_def loaded_segments_def word_le_nat_alt)
qed

lemma unpack_elf_to_paddr_writes:
  fixes f dest :: "'a::len word"
  assumes kw: "kernel_word TYPE('a)" and ok: "image_ok (mem s) f n"
    and b: "elf_getMemoryBounds (mem s) f False (stack_bounds cfg) = (r, mn, mx)"
    and size: "unat (mx - mn) < 2 ^ LENGTH('a)"
    and apart: "region dest (unat (mx - mn)) \<inter> region f n = {}"
  shows "unpack_elf_to_paddr cfg f dest s =
    Returns () (s\<lparr>mem := write_bytes (mem s) dest (image_bytes (mem s) f mn (unat (mx - mn)))\<rparr>)"
proof -
  let ?k = "unat (mx - mn)"
  have hw: "headers_within (mem s) f n" using ok by (simp add: image_ok_def)
  have "memset (mem s) dest 0 (ucast (mx - mn)) = write_bytes (mem s) dest (replicate ?k 0)"
    using size by (simp add: memset_eq_fill [OF kw] unat_ucast_small)
  moreover have "unpack_loop f (dest - ucast mn) 0 (write_bytes (mem s) dest (replicate ?k 0)) =
      Some (write_bytes (mem s) dest (image_bytes (mem s) f mn ?k))"
    using unpack_loop_puts [OF kw hw size apart, of mn "replicate ?k 0" 0] image_fits [OF ok b]
    by (simp add: image_bytes_def)
  ultimately show ?thesis
    by (simp add: unpack_elf_to_paddr_def b)
qed

section \<open>Loading one image\<close>

lemma keeps_mem_print_hash:
  "kernel_word TYPE('a::len) \<Longrightarrow> n \<le> length bs \<Longrightarrow> keeps_mem (print_hash_prog bs n :: (unit, 'a word machine) prog)"
  by (auto simp: keeps_mem_def print_hash_prog_def print_hash_line foldl_console_fputc console_fputc_def)

lemmas keeps_mem_intros =
  keeps_mem_pr keeps_mem_ret keeps_mem_abort_if keeps_mem_andThen keeps_mem_print_hash

lemma keeps_mem_check_hash:
  assumes kw: "kernel_word TYPE('a::len)"
  shows "keeps_mem (check_hash (cfg :: 'a word config) name elf file_size hash)"
  unfolding keeps_mem_def
proof (intro allI impI)
  fix s t :: "'a word machine" and u
  assume run: "check_hash cfg name elf file_size hash s = Returns u t"
  have rule: "p s = Returns u t \<Longrightarrow> keeps_mem p \<Longrightarrow> mem t = mem s" for p
    by (simp add: keeps_mem_def)
  show "mem t = mem s"
  proof (cases "hash_cfg cfg = HASH_SHA")
    case True
    show ?thesis
      using run unfolding check_hash_def Let_def if_P [OF True] prod.case
      by (rule rule) (intro keeps_mem_intros kw, simp_all add: length_get_hash)
  next
    case False
    show ?thesis
      using run unfolding check_hash_def Let_def if_not_P [OF False] prod.case
      by (rule rule) (intro keeps_mem_intros kw, simp_all add: length_get_hash)
  qed
qed

text \<open>What the checks of a run of \<^verbatim>\<open>load_elf\<close> that returns have established, and the
  state in which the image is unpacked.\<close>

definition image_record :: "'a::len mem \<Rightarrow> 'a word \<Rightarrow> 'a word \<Rightarrow> uint64 \<Rightarrow> uint64 \<Rightarrow> 'a word image_info" where
  "image_record m elf dest mn mx =
     \<lparr>phys_region_start = dest, phys_region_end = dest + ucast (mx - mn),
      virt_region_start = ucast mn, virt_region_end = ucast mx,
      virt_entry = ucast (elf_getEntryPoint m elf), phys_virt_offset = dest - ucast mn\<rparr>"

lemma load_elf_checks:
  fixes elf dest :: "'a::len word"
  assumes kw: "kernel_word TYPE('a)"
    and b: "elf_getMemoryBounds (mem s) elf False (stack_bounds cfg) = (r, mn, mx)"
    and run: "load_elf cfg name elf dest keep file_size hash s = Returns (next, info) t"
  defines "mx' \<equiv> ROUND_UP mx PAGE_BITS"
  defines "sz \<equiv> ucast (mx' - mn) :: 'a word"
  shows "IS_ALIGNED dest PAGE_BITS" "IS_ALIGNED mn PAGE_BITS" "elf_checkFile (mem s) elf = 0"
    "\<not> regions_overlap dest (dest + sz - 1) (start_sym cfg) (end_sym cfg - 1)"
    "\<exists>s1 s2. mem s1 = mem s \<and> unpack_elf_to_paddr cfg elf dest s1 = Returns () s2 \<and>
       info = image_record (mem s2) elf dest mn mx' \<and>
       (if keep then \<exists>m. put_headers elf (ROUND_UP (dest + sz) PAGE_BITS) (mem s2) = Some m \<and>
                         mem t = m \<and> next = ROUND_UP (dest + sz) PAGE_BITS + BIT PAGE_BITS
        else t = s2 \<and> next = ROUND_UP (dest + sz) PAGE_BITS)"
proof -
  define hp where "hp = (if hash_cfg cfg = HASH_NONE then ret () else check_hash cfg name elf file_size hash)"
  have hp: "keeps_mem hp"
    unfolding hp_def by (simp add: keeps_mem_check_hash [OF kw] keeps_mem_ret)
  obtain s1 s2 where al: "IS_ALIGNED dest PAGE_BITS" "elf_checkFile (mem s) elf = 0" "IS_ALIGNED mn PAGE_BITS"
    and ov: "\<not> regions_overlap dest (dest + sz - 1) (start_sym cfg) (end_sym cfg - 1)"
    and m1: "mem s1 = mem s" and u: "unpack_elf_to_paddr cfg elf dest s1 = Returns () s2"
    and rest: "(let info = \<lparr>phys_region_start = dest, phys_region_end = dest + sz,
                    virt_region_start = ucast mn, virt_region_end = ucast mx',
                    virt_entry = ucast (elf_getEntryPoint (mem s2) elf),
                    phys_virt_offset = dest - ucast mn\<rparr>;
            dest_paddr = ROUND_UP (dest + sz) PAGE_BITS
        in if keep then
             (case put_headers elf dest_paddr (mem s2) of
                None \<Rightarrow> abort s2
              | Some m \<Rightarrow> Returns (dest_paddr + BIT PAGE_BITS, info) (s2\<lparr>mem := m\<rparr>))
           else Returns (dest_paddr, info) s2) = Returns (next, info) t"
    using run unfolding load_elf_def b Let_def prod.case hp_def [symmetric] ensure_phys_range_valid_def
      mx'_def [symmetric] sz_def [symmetric]
    by - (elim after_abort_if, erule after_keeps_mem [OF _ hp],
        elim after_keeps_mem [OF _ keeps_mem_pr [OF kw]] after_abort_if, erule andThenE, simp)
  show "IS_ALIGNED dest PAGE_BITS" "IS_ALIGNED mn PAGE_BITS" "elf_checkFile (mem s) elf = 0"
    "\<not> regions_overlap dest (dest + sz - 1) (start_sym cfg) (end_sym cfg - 1)"
    using al ov by simp_all
  show "\<exists>s1 s2. mem s1 = mem s \<and> unpack_elf_to_paddr cfg elf dest s1 = Returns () s2 \<and>
       info = image_record (mem s2) elf dest mn mx' \<and>
       (if keep then \<exists>m. put_headers elf (ROUND_UP (dest + sz) PAGE_BITS) (mem s2) = Some m \<and>
                         mem t = m \<and> next = ROUND_UP (dest + sz) PAGE_BITS + BIT PAGE_BITS
        else t = s2 \<and> next = ROUND_UP (dest + sz) PAGE_BITS)"
    using m1 u rest
    by (intro exI [of _ s1] exI [of _ s2])
      (auto simp: Let_def image_record_def sz_def split: if_splits option.splits)
qed

definition loader_region :: "'a::len word config \<Rightarrow> 'a word set" where
  "loader_region cfg = {start_sym cfg .. end_sym cfg - 1}"

lemma unat_plus_of_nat:
  fixes p :: "'a::len word"
  assumes "unat p + k < 2 ^ LENGTH('a)"
  shows "unat (p + of_nat k) = unat p + k"
proof -
  have k: "unat (of_nat k :: 'a word) = k" using assms by (intro unat_of_nat_less) linarith
  show ?thesis using assms by (subst unat_add_lem [THEN iffD1]) (simp_all only: k)
qed

lemma regions_overlap_iff:
  fixes dest :: "'a::len word"
  assumes "0 < k" and "unat dest + k \<le> 2 ^ LENGTH('a)" and "a \<le> b"
  shows "regions_overlap dest (dest + of_nat k - 1) a b \<longleftrightarrow> region dest k \<inter> {a .. b} \<noteq> {}"
proof -
  obtain j where j: "k = Suc j" using assms(1) gr0_implies_Suc by blast
  have "dest + of_nat k - 1 = dest + of_nat j" by (simp add: j)
  then obtain q where q: "dest + of_nat k - 1 = q" and e: "unat q = unat dest + j"
    using assms(2) unat_plus_of_nat [of dest j] by (simp add: j)
  have mem: "x \<in> region dest k \<longleftrightarrow> dest \<le> x \<and> x \<le> q" for x
    using region_interval [OF assms(2), of x] unfolding word_le_nat_alt e j by linarith
  have le: "dest \<le> q" by (simp add: word_le_nat_alt e)
  have "region dest k \<inter> {a .. b} \<noteq> {}" if "a \<le> q" "dest \<le> b"
  proof (cases "a \<le> dest")
    case True
    with that le have "dest \<in> region dest k \<inter> {a .. b}" by (simp add: mem)
    then show ?thesis by blast
  next
    case False
    with that assms(3) have "a \<in> region dest k \<inter> {a .. b}" by (simp add: mem)
    then show ?thesis by blast
  qed
  then show ?thesis
    unfolding regions_overlap_def q by (auto simp: mem not_less)
qed

text \<open>An image that can be loaded at \<open>dest\<close> if the run-time checks pass: the file is in order
  and inside the loader, and neither its bounds nor its destination come within a page of the end
  of the address space.\<close>

definition placeable :: "'a::len word config \<Rightarrow> 'a mem \<Rightarrow> 'a word \<Rightarrow> nat \<Rightarrow> 'a word \<Rightarrow> uint64 \<Rightarrow> uint64 \<Rightarrow> bool" where
  "placeable cfg m elf n dest mn mx \<longleftrightarrow>
     image_ok m elf n \<and> (\<exists>s \<in> set (segments m elf). s_memsz s \<noteq> 0) \<and>
     elf_getMemoryBounds m elf False (stack_bounds cfg) = (1, mn, mx) \<and>
     0 < mx \<and> unat mx + 2 ^ PAGE_BITS \<le> 2 ^ 64 \<and>
     unat dest + unat (ROUND_UP mx PAGE_BITS - mn) + 2 ^ PAGE_BITS \<le> 2 ^ LENGTH('a) \<and>
     region elf n \<subseteq> loader_region cfg"

lemma placeable_bounds:
  fixes elf dest :: "'a::len word"
  assumes kw: "kernel_word TYPE('a)" and p: "placeable cfg m elf n dest mn mx"
  defines "k \<equiv> unat (ROUND_UP mx PAGE_BITS - mn)"
  shows "0 < unat (mx - mn)" "unat (mx - mn) \<le> k" "k < 2 ^ LENGTH('a)" "unat dest + k \<le> 2 ^ LENGTH('a)"
    "start_sym cfg \<le> end_sym cfg - 1" "0 < mx"
    "IS_ALIGNED mn PAGE_BITS \<Longrightarrow> 2 ^ PAGE_BITS dvd k" "ucast (ROUND_UP mx PAGE_BITS - mn) = (of_nat k :: 'a word)"
proof -
  obtain s where s: "s \<in> set (segments m elf)" "s_memsz s \<noteq> 0"
    using p by (auto simp: placeable_def)
  have b: "elf_getMemoryBounds m elf False (stack_bounds cfg) = (1, mn, mx)"
    and wrap: "unat (s_vaddr s) + unat (s_memsz s) < 2 ^ 64" and mx0: "0 < mx"
    and mx: "unat mx + 2 ^ PAGE_BITS \<le> 2 ^ LENGTH(64)"
    and room: "unat dest + k + 2 ^ PAGE_BITS \<le> 2 ^ LENGTH('a)"
    and lr: "region elf n \<subseteq> loader_region cfg" and n: "52 \<le> n"
    using p s by (auto simp: placeable_def image_ok_def headers_within_def k_def split: if_splits)
  have "mn \<le> s_vaddr s" "s_vaddr s + s_memsz s \<le> mx"
    using bounds_cover [OF b s] by (simp_all add: s_start_def s_end_def)
  moreover have "0 < unat (s_memsz s)" using s(2) by (simp add: unat_gt_0)
  then have "s_vaddr s < s_vaddr s + s_memsz s"
    using wrap by (simp add: word_less_nat_alt unat_add_lem [THEN iffD1])
  ultimately have less: "mn < mx" by simp
  then show "0 < unat (mx - mn)" by (simp add: unat_sub word_less_nat_alt word_le_nat_alt)
  have le: "mn \<le> mx" using less by simp
  show "0 < mx" by (rule mx0)
  have up: "mx \<le> ROUND_UP mx PAGE_BITS" "2 ^ PAGE_BITS dvd unat (ROUND_UP mx PAGE_BITS)"
    using ROUND_UP_bounds [OF mx0 mx] by (simp_all add: word_le_nat_alt PAGE_BITS_def)
  then have k: "k = unat (ROUND_UP mx PAGE_BITS) - unat mn"
    using le by (simp add: k_def unat_sub)
  show "unat (mx - mn) \<le> k"
    using up(1) le by (simp add: k unat_sub word_le_nat_alt)
  show "k < 2 ^ LENGTH('a)" "unat dest + k \<le> 2 ^ LENGTH('a)"
    using room by (simp_all add: PAGE_BITS_def)
  show "2 ^ PAGE_BITS dvd k" if "IS_ALIGNED mn PAGE_BITS"
    using that up(2) by (simp add: k IS_ALIGNED_iff_dvd dvd_diff_nat)
  have "elf \<in> region elf n" using n by (simp add: region_def)
  then show "start_sym cfg \<le> end_sym cfg - 1" using lr by (auto simp: loader_region_def dest: order_trans)
  show "ucast (ROUND_UP mx PAGE_BITS - mn) = (of_nat k :: 'a word)" by (simp add: k_def)
qed

lemma next_page:
  fixes dest :: "'a::len word"
  assumes kw: "kernel_word TYPE('a)" and "2 ^ PAGE_BITS dvd k" "IS_ALIGNED dest PAGE_BITS" "0 < k"
    and room: "unat dest + k + 2 ^ PAGE_BITS \<le> 2 ^ LENGTH('a)"
  shows "ROUND_UP (dest + of_nat k) PAGE_BITS = dest + of_nat k"
proof (rule ROUND_UP_aligned)
  have u: "unat (dest + of_nat k) = unat dest + k"
    using room by (intro unat_plus_of_nat) (simp add: PAGE_BITS_def)
  show "2 ^ PAGE_BITS dvd unat (dest + of_nat k)" using assms by (simp add: u IS_ALIGNED_iff_dvd)
  show "0 < dest + of_nat k" using assms(4) by (simp add: word_less_nat_alt u)
  show "unat (dest + of_nat k) + 2 ^ PAGE_BITS \<le> 2 ^ LENGTH('a)" using room by (simp add: u)
  show "PAGE_BITS < LENGTH('a)" using kw by (auto simp: kernel_word_def PAGE_BITS_def)
qed

lemma load_elf_effect:
  fixes elf dest :: "'a::len word"
  assumes kw: "kernel_word TYPE('a)" and p: "placeable cfg (mem s) elf n dest mn mx"
    and run: "load_elf cfg name elf dest keep file_size hash s = Returns (next, info) t"
  defines "k \<equiv> unat (ROUND_UP mx PAGE_BITS - mn)"
  defines "m2 \<equiv> write_bytes (mem s) dest (image_bytes (mem s) elf mn (unat (mx - mn)))"
  shows "IS_ALIGNED dest PAGE_BITS" "IS_ALIGNED mn PAGE_BITS"
    "region dest k \<inter> loader_region cfg = {}"
    "info = image_record (mem s) elf dest mn (ROUND_UP mx PAGE_BITS)"
    "if keep then put_headers elf (dest + of_nat k) m2 = Some (mem t) \<and> next = dest + of_nat k + BIT PAGE_BITS
     else mem t = m2 \<and> next = dest + of_nat k"
    "agree_on (mem s) m2 (region elf n)"
proof -
  have b: "elf_getMemoryBounds (mem s) elf False (stack_bounds cfg) = (1, mn, mx)"
    and ok: "image_ok (mem s) elf n" and inside: "region elf n \<subseteq> loader_region cfg"
    and room: "unat dest + k + 2 ^ PAGE_BITS \<le> 2 ^ LENGTH('a)"
    using p by (simp_all add: placeable_def k_def)
  note bounds = placeable_bounds [OF kw p, folded k_def]
  note c = load_elf_checks [OF kw b run, unfolded bounds(8)]
  show al: "IS_ALIGNED dest PAGE_BITS" "IS_ALIGNED mn PAGE_BITS" using c by simp_all
  have k: "0 < k" using bounds(1,2) by linarith
  show dj: "region dest k \<inter> loader_region cfg = {}"
    using c(4) regions_overlap_iff [OF k bounds(4,5)] by (simp add: loader_region_def)
  have "region dest (unat (mx - mn)) \<subseteq> region dest k"
    using bounds(2) by (auto simp: region_def)
  then have apart: "region dest (unat (mx - mn)) \<inter> region elf n = {}" using dj inside by blast
  have small: "unat (mx - mn) < 2 ^ LENGTH('a)" using bounds(2,3) by linarith
  obtain s1 s2 where s1: "mem s1 = mem s" and u: "unpack_elf_to_paddr cfg elf dest s1 = Returns () s2"
    and info: "info = image_record (mem s2) elf dest mn (ROUND_UP mx PAGE_BITS)"
    and rest: "if keep then \<exists>m. put_headers elf (ROUND_UP (dest + of_nat k) PAGE_BITS) (mem s2) = Some m \<and>
        mem t = m \<and> next = ROUND_UP (dest + of_nat k) PAGE_BITS + BIT PAGE_BITS
      else t = s2 \<and> next = ROUND_UP (dest + of_nat k) PAGE_BITS"
    using c(5) by blast
  let ?bs = "image_bytes (mem s) elf mn (unat (mx - mn))"
  have m2: "mem s2 = m2"
    using u unpack_elf_to_paddr_writes [of s1 elf n cfg 1 mn mx dest, OF kw] ok b small apart
    by (auto simp: s1 m2_def)
  have "length ?bs = unat (mx - mn)"
    using image_fits [OF ok b] by (rule length_image_bytes)
  then show ag: "agree_on (mem s) m2 (region elf n)"
    unfolding agree_on_def m2_def using apart by (intro ballI write_bytes_outside) auto
  moreover have "headers_within (mem s) elf n" using ok by (simp add: image_ok_def)
  ultimately have "elf_getEntryPoint m2 elf = elf_getEntryPoint (mem s) elf"
    by (intro file_agree(4) [OF kw])
  then show "info = image_record (mem s) elf dest mn (ROUND_UP mx PAGE_BITS)"
    by (simp add: info m2 image_record_def)
  show "if keep then put_headers elf (dest + of_nat k) m2 = Some (mem t) \<and> next = dest + of_nat k + BIT PAGE_BITS
     else mem t = m2 \<and> next = dest + of_nat k"
    using rest next_page [OF kw bounds(7) [OF al(2)] al(1) k room] by (auto simp: m2 split: if_splits)
qed

text \<open>The page of program headers.\<close>

definition header_table :: "'a::len mem \<Rightarrow> 'a word \<Rightarrow> uint32 \<times> uint32 \<times> 'a word" where
  "header_table m elf =
     (ucast (elf_getNumProgramHeaders m elf),
      if ISELF32 m elf then (ucast (Elf32_Header.e_phentsize (read_Elf32_Header m elf)), elf32_getProgramHeaderTable m elf)
      else (ucast (e_phentsize (read_Elf64_Header m elf)), elf64_getProgramHeaderTable m elf))"

lemma header_table_agree:
  fixes f :: "'a::len word"
  assumes kw: "kernel_word TYPE('a)" and hw: "headers_within m f n" and ag: "agree_on m m' (region f n)"
  shows "header_table m' f = header_table m f"
proof -
  have n: "n \<le> 2 ^ LENGTH('a)" "52 \<le> n"
    using hw by (auto simp: headers_within_def split: if_splits)
  have "read_Elf64_Header m' f = read_Elf64_Header m f" if "\<not> ISELF32 m f"
    using hw that by (intro Elf64_Header_agree [OF ag n(1)]) (simp add: headers_within_def)
  moreover have "elf64_read64 x (f + 32) = e_phoff (read_Elf64_Header x f)" for x
    by (simp add: elf64_read64_load read_Elf64_Header_def)
  ultimately show ?thesis
    by (simp add: header_table_def file_agree(1,3) [OF kw hw ag] Elf32_Header_agree [OF ag n]
        elf32_getProgramHeaderTable_def elf64_getProgramHeaderTable_def)
qed

lemma put_headers_writes:
  fixes elf dest :: "'a::len word"
  assumes kw: "kernel_word TYPE('a)" and h: "header_table m elf = (phnum, phsize, table)"
  defines "k \<equiv> unat (phsize * phnum)"
  assumes apart: "region dest (8 + k) \<inter> region table k = {}" and k: "8 + k \<le> 2 ^ LENGTH('a)"
  shows "put_headers elf dest m =
    Some (write_bytes m dest (bytes_le 4 phnum @ bytes_le 4 phsize @ mem_bytes m table k))"
proof -
  let ?m2 = "write_bytes m dest (bytes_le 4 phnum @ bytes_le 4 phsize)"
  have m2: "store_le 4 (store_le 4 m dest phnum) (dest + 4) phsize = ?m2"
    using write_bytes_append [of "bytes_le 4 phnum" "bytes_le 4 phsize" m dest] k by (simp add: store_le_def)
  have cnt: "unat (ucast (phsize * phnum) :: 'a word) = k"
    unfolding k_def using kw unat_lt2p [of "phsize * phnum"] by (intro unat_ucast_small) (auto simp: kernel_word_def)
  have "region dest 8 \<subseteq> region dest (8 + k)" by (auto simp: region_def)
  moreover have "region (dest + of_nat 8) k \<subseteq> region dest (8 + k)" using k by (intro region_sub) simp_all
  ultimately have "region dest 8 \<inter> region table k = {}" and dj: "region (dest + 8) k \<inter> region table k = {}"
    using apart by auto
  then have same: "mem_bytes ?m2 table k = mem_bytes m table k"
    using k by (intro mem_bytes_write_disjoint) auto
  have "memcpy ?m2 (dest + 8) table (ucast (phsize * phnum)) =
      Some (write_bytes ?m2 (dest + of_nat 8) (mem_bytes ?m2 table k))"
    using memcpy_eq_copy [OF kw, of "dest + 8" table "ucast (phsize * phnum)" ?m2] dj
    unfolding disjoint_regions_def cnt by simp
  also have "\<dots> = Some (write_bytes m dest (bytes_le 4 phnum @ bytes_le 4 phsize @ mem_bytes m table k))"
    using write_bytes_append [of "bytes_le 4 phnum @ bytes_le 4 phsize" "mem_bytes m table k" m dest] k
    by (simp add: same)
  finally show ?thesis
    using h by (auto simp: put_headers_def header_table_def Let_def m2 split: if_splits)
qed

text \<open>What the page holds, how long that is, and whether the table it is copied from lies in the file.\<close>

definition header_size :: "'a::len mem \<Rightarrow> 'a word \<Rightarrow> nat" where
  "header_size m elf = (let (phnum, phsize, _) = header_table m elf in 8 + unat (phsize * phnum))"

definition header_bytes :: "'a::len mem \<Rightarrow> 'a word \<Rightarrow> byte list" where
  "header_bytes m elf = (let (phnum, phsize, table) = header_table m elf
     in bytes_le 4 phnum @ bytes_le 4 phsize @ mem_bytes m table (unat (phsize * phnum)))"

definition headers_inside :: "'a::len mem \<Rightarrow> 'a word \<Rightarrow> nat \<Rightarrow> bool" where
  "headers_inside m elf n \<longleftrightarrow> (\<exists>phnum phsize off. header_table m elf = (phnum, phsize, elf + of_nat off) \<and>
     off + unat (phsize * phnum) \<le> n)"

lemma header_size_bound:
  assumes "kernel_word TYPE('a::len)"
  shows "header_size m (elf :: 'a word) \<le> 2 ^ LENGTH('a)"
proof -
  obtain phnum phsize table where h: "header_table m elf = (ucast (phnum :: uint16), ucast (phsize :: uint16), table)"
    by (cases "ISELF32 m elf") (force simp: header_table_def)+
  have "unat phsize * unat phnum \<le> 65535 * 65535"
    using unat_lt2p [of phsize] unat_lt2p [of phnum] by (intro mult_mono) simp_all
  then have "unat (ucast phsize * ucast phnum :: uint32) \<le> 65535 * 65535"
    using unat_ucast_small [of phsize, where 'a = 32] unat_ucast_small [of phnum, where 'a = 32]
      unat_lt2p [of phsize] unat_lt2p [of phnum]
    by (simp add: unat_word_ariths order.trans [OF mod_less_eq_dividend])
  moreover have "(2 :: nat) ^ 32 \<le> 2 ^ LENGTH('a)" using assms by (auto simp: kernel_word_def)
  ultimately show ?thesis by (simp add: header_size_def h)
qed

lemma put_headers_page:
  fixes elf :: "'a::len word"
  assumes kw: "kernel_word TYPE('a)"
  shows "\<exists>hs. put_headers elf page m = Some (write_bytes m page hs) \<and> length hs = header_size m elf"
proof -
  obtain phnum phsize table where h: "header_table m elf = (phnum, phsize, table)" by (cases "header_table m elf")
  let ?k = "unat (phsize * phnum)" and ?w = "bytes_le 4 phnum @ bytes_le 4 phsize"
  have k: "8 + ?k \<le> 2 ^ LENGTH('a)" using header_size_bound [OF kw, of m elf] by (simp add: header_size_def h)
  have m2: "store_le 4 (store_le 4 m page phnum) (page + 4) phsize = write_bytes m page ?w"
    using write_bytes_append [of "bytes_le 4 phnum" "bytes_le 4 phsize" m page] k by (simp add: store_le_def)
  have "unat (ucast (phsize * phnum) :: 'a word) = ?k"
    using kw unat_lt2p [of "phsize * phnum"] by (intro unat_ucast_small) (auto simp: kernel_word_def)
  then obtain bs where "memcpy (write_bytes m page ?w) (page + 8) table (ucast (phsize * phnum)) =
      Some (write_bytes (write_bytes m page ?w) (page + of_nat 8) bs)" "length bs = ?k"
    using memcpy_writes [OF kw, of "write_bytes m page ?w" "page + 8" table "ucast (phsize * phnum)"] by auto
  moreover from this(2) have "write_bytes (write_bytes m page ?w) (page + of_nat 8) bs = write_bytes m page (?w @ bs)"
    using write_bytes_append [of ?w bs m page] k by simp
  ultimately show ?thesis
    using h by (intro exI [of _ "?w @ bs"])
      (auto simp: put_headers_def header_table_def header_size_def Let_def m2 split: if_splits)
qed

text \<open>The page in memory after the image has been put there.\<close>

lemma headers_kept:
  fixes elf :: "'a::len word"
  assumes kw: "kernel_word TYPE('a)" and hw: "headers_within m elf n" and ag: "agree_on m m' (region elf n)"
    and put: "put_headers elf page m' = Some m''"
  shows "\<exists>hs. m'' = write_bytes m' page hs \<and> length hs = header_size m elf \<and>
    (headers_inside m elf n \<and> region page (header_size m elf) \<inter> region elf n = {} \<longrightarrow> hs = header_bytes m elf)"
proof -
  have n: "n \<le> 2 ^ LENGTH('a)" using hw by (simp add: headers_within_def)
  note same = header_table_agree [OF kw hw ag]
  show ?thesis
  proof (cases "headers_inside m elf n \<and> region page (header_size m elf) \<inter> region elf n = {}")
    case True
    then obtain phnum phsize off where h: "header_table m elf = (phnum, phsize, elf + of_nat off)"
      and inside: "off + unat (phsize * phnum) \<le> n" and clear: "region page (8 + unat (phsize * phnum)) \<inter> region elf n = {}"
      by (auto simp: headers_inside_def header_size_def)
    have "region page (8 + unat (phsize * phnum)) \<inter> region (elf + of_nat off) (unat (phsize * phnum)) = {}"
      using clear region_sub [OF inside n, of elf] by blast
    from put_headers_writes [OF kw same [unfolded h] this] header_size_bound [OF kw, of m elf] put
    have "m'' = write_bytes m' page (header_bytes m elf)"
      using mem_bytes_agree [OF ag inside n] by (simp add: header_bytes_def header_size_def h)
    then show ?thesis by (intro exI [of _ "header_bytes m elf"]) (simp add: header_bytes_def header_size_def h)
  next
    case False
    have "header_size m' elf = header_size m elf" by (simp add: header_size_def same)
    then show ?thesis using put_headers_page [OF kw, of elf page m'] put False by auto
  qed
qed

lemma unpack_step:
  "\<exists>t. p s = Returns x t \<and> mem t = m \<Longrightarrow> (\<And>t. mem t = m \<Longrightarrow> \<exists>y u. q x t = Returns y u) \<Longrightarrow>
    \<exists>y u. andThen p q s = Returns y u"
  by (auto simp: andThen_def)

lemma load_elf_runs:
  fixes elf dest :: "'a::len word"
  assumes kw: "kernel_word TYPE('a)" and p: "placeable cfg (mem s) elf n dest mn mx"
    and nohash: "hash_cfg cfg = HASH_NONE"
    and al: "IS_ALIGNED dest PAGE_BITS" "IS_ALIGNED mn PAGE_BITS"
    and apart: "region dest (unat (ROUND_UP mx PAGE_BITS - mn)) \<inter> loader_region cfg = {}"
  shows "\<exists>r t. load_elf cfg name elf dest keep file_size hash s = Returns r t"
proof -
  let ?k = "unat (ROUND_UP mx PAGE_BITS - mn)" and ?k' = "unat (mx - mn)"
  have b: "elf_getMemoryBounds (mem s) elf False (stack_bounds cfg) = (1, mn, mx)"
    and ok: "image_ok (mem s) elf n" and inside: "region elf n \<subseteq> loader_region cfg"
    and valid: "elf_checkFile (mem s) elf = 0"
    using p by (simp_all add: placeable_def image_ok_def)
  note bounds = placeable_bounds [OF kw p]
  have "\<not> regions_overlap dest (dest + of_nat ?k - 1) (start_sym cfg) (end_sym cfg - 1)"
    using regions_overlap_iff [OF _ bounds(4,5)] bounds(1,2) apart by (simp add: loader_region_def)
  then have ov: "\<not> regions_overlap dest (dest + ucast (ROUND_UP mx PAGE_BITS - mn) - 1) (start_sym cfg) (end_sym cfg - 1)"
    unfolding bounds(8) .
  then have ov': "regions_overlap dest (dest + ucast (ROUND_UP mx PAGE_BITS - mn) - 1) (start_sym cfg) (end_sym cfg - 1) = False"
    by blast
  have al2: "IS_ALIGNED dest 2"
    using al(1) dvd_trans [of "4 :: nat" 4096] by (simp add: IS_ALIGNED_iff_dvd PAGE_BITS_def)
  have "region dest ?k' \<subseteq> region dest ?k" using bounds(2) by (auto simp: region_def)
  then have dj: "region dest ?k' \<inter> region elf n = {}" using apart inside by blast
  let ?m = "write_bytes (mem s) dest (image_bytes (mem s) elf mn (unat (mx - mn)))"
  have unpack: "\<exists>t. unpack_elf_to_paddr cfg elf dest s1 = Returns () t \<and> mem t = ?m" if "mem s1 = mem s" for s1
    using unpack_elf_to_paddr_writes [of s1 elf n cfg 1 mn mx dest, OF kw] that ok b bounds(2,3) dj by simp
  have k: "0 < ?k" using bounds(1,2) by linarith
  have "unat dest + ?k + 2 ^ PAGE_BITS \<le> 2 ^ LENGTH('a)" using p by (simp add: placeable_def)
  then have nx: "ROUND_UP (dest + ucast (ROUND_UP mx PAGE_BITS - mn)) PAGE_BITS = dest + of_nat ?k"
    using next_page [OF kw bounds(7) [OF al(2)] al(1) k] unfolding bounds(8) by blast
  show ?thesis
    unfolding load_elf_def b Let_def prod.case ensure_phys_range_valid_def nohash
      eqTrueI [OF al(1)] eqTrueI [OF al(2)] eqTrueI [OF al2] ov' valid simp_thms if_True abort_if_False
    by (intro runs_step [OF runs_ret] runs_step [OF runs_pr [OF kw]] unpack_step [OF unpack])
      (use put_headers_page [OF kw, of elf "dest + of_nat ?k" ?m] in \<open>auto simp add: nx formatted_eval line_def split: option.split\<close>)
qed

section \<open>Verifying the hash\<close>

lemma check_hash_returns:
  fixes cfg :: "'a::len word config" and s :: "'a word machine" and elf file_size :: "'a word"
  assumes kw: "kernel_word TYPE('a)"
  defines "n \<equiv> if hash_cfg cfg = HASH_SHA then 32 else 16"
  defines "d \<equiv> get_hash \<lparr>sha_structure = stack_ctx cfg, md5_structure = stack_ctx cfg,
    hash_type = hash_method_value (if hash_cfg cfg = HASH_SHA then SHA_256 else MD5_method)\<rparr>
    (mem_bytes (mem s) elf (unat file_size))"
  shows "(\<exists>t. check_hash cfg name elf file_size hash s = Returns () t) \<longleftrightarrow>
    fst (cpio_get_file cfg (mem s) (archive_start cfg) hash) \<noteq> 0 \<and>
    strncmp (str_at (mem s) (fst (cpio_get_file cfg (mem s) (archive_start cfg) hash)))
      (list_chars (d)) (n) = 0"
proof -
  let ?f = "fst (cpio_get_file cfg (mem s) (archive_start cfg) hash)"
  have d: "length (d) = n" by (simp add: d_def n_def length_get_hash)
  have p: "(\<exists>t. andThen (print_hash_prog bs k) q s' = Returns () t) \<longleftrightarrow>
      (\<exists>t. q () (s'\<lparr>console := console s' @ concat (map (\<lambda>b. num_string 16 (unat b)) (take k bs)) @ [CHR 0x0A]\<rparr>) = Returns () t)"
    if "k \<le> length bs" for bs k q and s' :: "'a word machine"
    using that by (simp add: andThen_def print_hash_prog_def print_hash_line [OF kw] foldl_console_fputc console_fputc_def)
  have q: "(\<exists>t. andThen (pr f []) q s' = Returns () t) \<longleftrightarrow>
      (\<exists>t. q () (s'\<lparr>console := console s' @ x\<rparr>) = Returns () t)"
    if "formatted f ([] :: 'a word varg list) = Some x" for f q x and s' :: "'a word machine"
    using pr_prints [OF kw that, of s'] by (simp add: andThen_def)
  have a: "(\<exists>t. andThen (abort_if c f xs) q s' = Returns () t) \<longleftrightarrow> \<not> c \<and> (\<exists>t. q () s' = Returns () t)"
    for c f xs q and s' :: "'a word machine"
    by (auto simp: andThen_Returns abort_if_Returns)
  have "check_hash cfg name elf file_size hash s =
     andThen (abort_if (?f = 0)
            (line ''Cannot compare hashes for %s, expected hash, %s, doesn't exist'') [VStr name, VStr hash]) (\<lambda>_.
        andThen (pr ''Hash from ELF File: '' []) (\<lambda>_.
        andThen (print_hash_prog (mem_bytes (mem s) ?f (n)) (n)) (\<lambda>_.
        andThen (pr ''Hash for ELF Input: '' []) (\<lambda>_.
        andThen (print_hash_prog (d) (n)) (\<lambda>_.
        abort_if (strncmp (str_at (mem s) ?f) (list_chars (d)) (n) \<noteq> 0)
          (line ''Hashes are different. Load failure'') []))))) s"
  proof (cases "hash_cfg cfg = HASH_SHA")
    case True
    show ?thesis unfolding check_hash_def Let_def n_def d_def if_P [OF True] prod.case by (rule refl)
  next
    case False
    show ?thesis unfolding check_hash_def Let_def n_def d_def if_not_P [OF False] prod.case by (rule refl)
  qed
  then show ?thesis
    by (simp only: a) (simp add: p d q formatted_eval abort_if_Returns)
qed

section \<open>Loading all images\<close>

definition placed :: "'a::len word config \<Rightarrow> 'a word image_info \<Rightarrow> bool" where
  "placed cfg i \<longleftrightarrow> IS_ALIGNED (phys_region_start i) PAGE_BITS \<and>
     \<not> regions_overlap (phys_region_start i) (phys_region_end i - 1) (start_sym cfg) (end_sym cfg - 1)"

text \<open>Each image starts behind the previous one and its header page.\<close>

fun consecutive :: "'a::len word \<Rightarrow> 'a word image_info list \<Rightarrow> bool" where
  "consecutive next [] \<longleftrightarrow> True"
| "consecutive next (i # is) \<longleftrightarrow>
     phys_region_start i = next \<and> consecutive (ROUND_UP (phys_region_end i) PAGE_BITS + BIT PAGE_BITS) is"

lemma load_elf_placed:
  fixes elf dest :: "'a::len word"
  assumes kw: "kernel_word TYPE('a)"
    and run: "load_elf cfg name elf dest keep file_size hash s = Returns (next, info) t"
  shows "placed cfg info" "phys_region_start info = dest"
    "next = ROUND_UP (phys_region_end info) PAGE_BITS + (if keep then BIT PAGE_BITS else 0)"
proof -
  obtain r mn mx where b: "elf_getMemoryBounds (mem s) elf False (stack_bounds cfg) = (r, mn, mx)"
    by (cases "elf_getMemoryBounds (mem s) elf False (stack_bounds cfg)") auto
  note c = load_elf_checks [OF kw b run]
  then show "placed cfg info" "phys_region_start info = dest"
    "next = ROUND_UP (phys_region_end info) PAGE_BITS + (if keep then BIT PAGE_BITS else 0)"
    by (auto simp: placed_def image_record_def split: if_splits)
qed

lemma load_users_placed:
  fixes s :: "'a::len word machine"
  assumes kw: "kernel_word TYPE('a)"
  shows "load_users cfg k i next infos s = Returns us t \<Longrightarrow>
    \<exists>new. us = infos @ new \<and> length new \<le> k \<and> (\<forall>x \<in> set new. placed cfg x) \<and> consecutive next new"
proof (induction k arbitrary: i "next" infos s)
  case 0
  then show ?case by simp
next
  case (Suc k)
  obtain user_elf name file_size where e: "cpio_get_entry cfg (mem s) (archive_start cfg) (Suc i) = (user_elf, name, file_size)"
    by (cases "cpio_get_entry cfg (mem s) (archive_start cfg) (Suc i)") auto
  show ?case
  proof (cases "user_elf = 0")
    case True
    then show ?thesis using Suc.prems by (auto simp: e)
  next
    case False
    then obtain next' info s' where l: "load_elf cfg name user_elf next True file_size ''app.bin'' s = Returns (next', info) s'"
      and r: "load_users cfg k (i + 1) next' (infos @ [info]) s' = Returns us t"
      using Suc.prems by (auto simp: e elim!: andThenE)
    from Suc.IH [OF r] obtain new where "us = (infos @ [info]) @ new" "length new \<le> k"
      "\<forall>x \<in> set new. placed cfg x" "consecutive next' new" by blast
    with load_elf_placed [OF kw l] show ?thesis by (intro exI [of _ "info # new"]) simp
  qed
qed

section \<open>A small archive\<close>

text \<open>The loader occupies [0x10000, 0x11000) and holds the sample file, the archive's only
  entry; the hash file, where one is configured, is the array \<open>sample_hash\<close>.\<close>

definition sample_config :: "hash_config \<Rightarrow> 32 word config" where
  "sample_config hc = \<lparr>start_sym = 0x10000, end_sym = 0x11000, archive_start = 0x10000, hash_cfg = hc,
     cpio_get_file = (\<lambda>m a name. if name = ''kernel.elf'' then (0x10000, 88) else (0x30000, 16)),
     cpio_get_entry = (\<lambda>m a i. if i = 0 then (0x10000, ''kernel.elf'', 88) else (0, [], 0)),
     stack_ctx = \<lparr>len = 0, h = [], buf = replicate 64 0\<rparr>, stack_bounds = (0, 0)\<rparr>"

definition sample_machine :: "32 word machine" where
  "sample_machine = \<lparr>mem = sample_mem, console = []\<rparr>"

lemma sample_word: "kernel_word TYPE(32)"
  by (simp add: kernel_word_def)

lemma sample_bounds: "elf_getMemoryBounds sample_mem 0x10000 phys out =
    (1, if phys then (0x20000, 0x20008) else (0x8000, 0x8008))"
proof -
  have "{s \<in> set (segments sample_mem 0x10000). s_memsz s \<noteq> 0} = set (segments sample_mem 0x10000)"
    by (auto simp: sample_segments)
  then show ?thesis
    by (simp add: elf_getMemoryBounds_eq sample_accessors sample_segments s_start_def s_end_def UINT64_MAX_def)
qed

lemma sample_round_up: "ROUND_UP (0x8008 :: uint64) PAGE_BITS = 0x9000"
  by code_simp

lemma sample_placeable:
  "unat dest + 0x2000 \<le> 2 ^ 32 \<Longrightarrow> placeable (sample_config hc) sample_mem 0x10000 88 dest 0x8000 0x8008"
  using region_interval [of "0x10000 :: 32 word" 88] sample_headers
  by (auto simp: placeable_def image_ok_def sample_segments sample_accessors sample_bounds sample_round_up [unfolded PAGE_BITS_def]
      loader_region_def sample_config_def PAGE_BITS_def word_le_nat_alt)

lemma sample_image: "image_bytes sample_mem 0x10000 0x8000 8 = [1, 2, 3, 4, 0, 0, 0, 0]"
proof -
  have "mem_bytes sample_mem 0x10054 4 = [1, 2, 3, 4]" by code_simp
  moreover have "replicate 8 (0 :: byte) = [0, 0, 0, 0, 0, 0, 0, 0]" by (simp add: numeral_eq_Suc)
  ultimately show ?thesis
    by (simp add: image_bytes_def sample_segments loaded_segments_def put_segment_def buf_put_def PT_LOAD_def)
qed

lemma sample_table:
  assumes "region dest 8 \<inter> region 0x10000 88 = {}"
  shows "header_table (write_bytes sample_mem dest [1, 2, 3, 4, 0, 0, 0, 0]) 0x10000 = (1, 32, 0x10034)"
proof -
  have "header_table sample_mem 0x10000 = (1, 32, 0x10034)" by code_simp
  moreover have "agree_on sample_mem (write_bytes sample_mem dest [1, 2, 3, 4, 0, 0, 0, 0]) (region 0x10000 88)"
    unfolding agree_on_def using assms by (intro ballI write_bytes_outside) (auto simp: eval_nat_numeral)
  ultimately show ?thesis
    using header_table_agree [OF sample_word sample_headers] by simp
qed

lemma sample_loads:
  "\<exists>r t. load_elf (sample_config HASH_NONE) name 0x10000 0x20000 False fs hash (sample_machine\<lparr>console := c\<rparr>) = Returns r t"
proof (rule load_elf_runs [OF sample_word])
  show "placeable (sample_config HASH_NONE) (mem (sample_machine\<lparr>console := c\<rparr>)) 0x10000 88 0x20000 0x8000 0x8008"
    using sample_placeable [of "0x20000"] by (simp add: sample_machine_def)
  show "IS_ALIGNED (0x20000 :: 32 word) PAGE_BITS" "IS_ALIGNED (0x8000 :: uint64) PAGE_BITS"
    by code_simp+
  show "region 0x20000 (unat (ROUND_UP 0x8008 PAGE_BITS - 0x8000 :: uint64)) \<inter> loader_region (sample_config HASH_NONE) = {}"
    using region_interval [of "0x20000 :: 32 word" "0x1000"]
    by (auto simp: sample_round_up loader_region_def sample_config_def word_le_nat_alt)
qed (simp_all add: sample_config_def)

section \<open>Properties\<close>

text \<open>C10: If \<^verbatim>\<open>load_elf\<close> returns for a file in order, then the destination and the
  image's first virtual address are page-aligned, the pages of the image do not meet the loader, and
  the record describes the placement. Without \<open>keep_headers\<close> memory has changed exactly by the
  image (its loadable segments over zeros, from the lowest to the highest virtual address) at the
  destination, and the next free address is the end of the image's last page. With it, memory has
  changed by the image and by the header page behind its last page and nowhere else, and the next free
  address is one page further; the page starts with the number and the size of the program headers and
  the table itself, if the table lies in the file and the page is clear of the loader, which no
  check establishes.\<close>

theorem load_elf_places_the_image:
  fixes elf dest :: "'a::len word"
  assumes kw: "kernel_word TYPE('a)" and p: "placeable cfg (mem s) elf n dest mn mx"
    and run: "load_elf cfg name elf dest keep file_size hash s = Returns (next, info) t"
  defines "page \<equiv> dest + of_nat (unat (ROUND_UP mx PAGE_BITS - mn))"
    and "unpacked \<equiv> write_bytes (mem s) dest (image_bytes (mem s) elf mn (unat (mx - mn)))"
  shows "IS_ALIGNED dest PAGE_BITS \<and> IS_ALIGNED mn PAGE_BITS \<and>
    region dest (unat (ROUND_UP mx PAGE_BITS - mn)) \<inter> loader_region cfg = {} \<and>
    info = image_record (mem s) elf dest mn (ROUND_UP mx PAGE_BITS) \<and>
    (if keep then next = page + BIT PAGE_BITS \<and>
       (\<exists>hs. mem t = write_bytes unpacked page hs \<and> length hs = header_size (mem s) elf \<and>
         (headers_inside (mem s) elf n \<and> region page (header_size (mem s) elf) \<inter> loader_region cfg = {} \<longrightarrow>
           hs = header_bytes (mem s) elf))
     else next = page \<and> mem t = unpacked)"
proof -
  note e = load_elf_effect [OF kw p run, folded unpacked_def, folded page_def]
  have hw: "headers_within (mem s) elf n" and inside: "region elf n \<subseteq> loader_region cfg"
    using p by (simp_all add: placeable_def image_ok_def)
  show ?thesis
  proof (cases keep)
    case True
    with e(5) obtain hs where "mem t = write_bytes unpacked page hs" "length hs = header_size (mem s) elf"
      and "headers_inside (mem s) elf n \<and> region page (header_size (mem s) elf) \<inter> region elf n = {} \<longrightarrow>
        hs = header_bytes (mem s) elf"
      using headers_kept [OF kw hw e(6), of page "mem t"] by auto
    then show ?thesis using e(1-5) inside True by auto
  qed (use e in simp)
qed

theorem load_elf_places_the_image_witness:
  "(\<exists>info t. load_elf (sample_config HASH_NONE) ''k'' 0x10000 0x20000 False 88 ''h'' sample_machine = Returns (0x21000, info) t \<and>
    mem t = write_bytes sample_mem 0x20000 [1, 2, 3, 4, 0, 0, 0, 0]) \<and>
   (\<exists>info t. load_elf (sample_config HASH_NONE) ''u'' 0x10000 0x20000 True 88 ''h'' sample_machine = Returns (0x22000, info) t \<and>
    mem_bytes (mem t) 0x21000 4 = [1, 0, 0, 0])"
proof
  let ?c = "sample_config HASH_NONE"
  have p: "placeable ?c (mem sample_machine) 0x10000 88 0x20000 0x8000 0x8008"
    using sample_placeable [of "0x20000"] by (simp add: sample_machine_def)
  obtain nx info t where l: "load_elf ?c ''k'' 0x10000 0x20000 False 88 ''h'' sample_machine = Returns (nx, info) t"
    using sample_loads [of "''k''" 88 "''h''" "[]"] by (auto simp: sample_machine_def)
  from load_elf_places_the_image [OF sample_word p l]
  show "\<exists>info t. load_elf ?c ''k'' 0x10000 0x20000 False 88 ''h'' sample_machine = Returns (0x21000, info) t \<and>
    mem t = write_bytes sample_mem 0x20000 [1, 2, 3, 4, 0, 0, 0, 0]"
    using l by (simp add: sample_image sample_round_up sample_machine_def)
  have up: "ROUND_UP (0x8008 :: uint64) PAGE_BITS - 0x8000 = 0x1000" by (simp add: sample_round_up)
  have clear: "region 0x20000 0x1000 \<inter> loader_region ?c = {}" "region 0x21000 40 \<inter> loader_region ?c = {}"
    using region_interval [of "0x20000 :: 32 word" "0x1000"] region_interval [of "0x21000 :: 32 word" 40]
    by (auto simp: loader_region_def sample_config_def word_le_nat_alt)
  moreover have "IS_ALIGNED (0x20000 :: 32 word) PAGE_BITS" "IS_ALIGNED (0x8000 :: uint64) PAGE_BITS"
    by code_simp+
  moreover have "hash_cfg ?c = HASH_NONE" by (simp add: sample_config_def)
  ultimately obtain nx info t where l: "load_elf ?c ''u'' 0x10000 0x20000 True 88 ''h'' sample_machine = Returns (nx, info) t"
    using load_elf_runs [OF sample_word p, of "''u''" True 88 "''h''"] put_headers_page [OF sample_word]
    by (force simp: up)
  have "header_table sample_mem 0x10000 = (1, 32, 0x10000 + of_nat 52)"
    by code_simp
  then have "headers_inside sample_mem 0x10000 88" "header_size sample_mem 0x10000 = 40"
    "take 4 (header_bytes sample_mem 0x10000) = [1, 0, 0, 0]" "length (header_bytes sample_mem 0x10000) = 40"
    by (auto simp: headers_inside_def header_size_def header_bytes_def bytes_le_def upt_rec intro!: exI [of _ 52])
  moreover have "nx = 0x22000 \<and> mem t = write_bytes (write_bytes sample_mem 0x20000 [1, 2, 3, 4, 0, 0, 0, 0]) 0x21000 (header_bytes sample_mem 0x10000)"
    using load_elf_places_the_image [OF sample_word p l] calculation clear(2)
    by (auto simp: up [unfolded PAGE_BITS_def] sample_image sample_machine_def BIT_def PAGE_BITS_def)
  ultimately show "\<exists>info t. load_elf ?c ''u'' 0x10000 0x20000 True 88 ''h'' sample_machine = Returns (0x22000, info) t \<and>
    mem_bytes (mem t) 0x21000 4 = [1, 0, 0, 0]"
    using l mem_bytes_write_part [of 0 4 "header_bytes sample_mem 0x10000" _ "0x21000 :: 32 word"] by auto
qed

text \<open>C14: The header page can land on the loader itself: with the loader at [0x10000, 0x11000)
  a one-page image for 0xf000 passes every check, and the number of its program headers is
  written over the loader's first four bytes.\<close>

theorem header_page_can_overwrite_the_loader:
  "\<exists>next info t. load_elf (sample_config HASH_NONE) name 0x10000 0xf000 True 88 hash sample_machine = Returns (next, info) t \<and>
    0x10000 \<in> loader_region (sample_config HASH_NONE) \<and>
    mem_bytes (mem sample_machine) 0x10000 4 = [0x7f, 0x45, 0x4c, 0x46] \<and>
    mem_bytes (mem t) 0x10000 4 = [1, 0, 0, 0]"
proof -
  let ?c = "sample_config HASH_NONE" and ?u = "write_bytes sample_mem 0xf000 [1, 2, 3, 4, 0, 0, 0, 0]"
  let ?page = "bytes_le 4 (1 :: uint32) @ bytes_le 4 (32 :: uint32) @ mem_bytes ?u 0x10034 32"
  have p: "placeable ?c (mem sample_machine) 0x10000 88 0xf000 0x8000 0x8008"
    using sample_placeable [of "0xf000"] by (simp add: sample_machine_def)
  have up: "ROUND_UP (0x8008 :: uint64) PAGE_BITS - 0x8000 = 0x1000" by (simp add: sample_round_up)
  have table: "header_table ?u 0x10000 = (1, 32, 0x10034)"
    by (intro sample_table region_disjointI) simp_all
  have "region 0x10000 40 \<inter> region 0x10034 32 = ({} :: 32 word set)" by (rule region_disjointI) simp_all
  then have put: "put_headers 0x10000 0x10000 ?u = Some (write_bytes ?u 0x10000 ?page)"
    using put_headers_writes [OF sample_word table] by simp
  have "region 0xf000 0x1000 \<inter> loader_region ?c = {}"
    using region_interval [of "0xf000 :: 32 word" "0x1000"]
    by (auto simp: loader_region_def sample_config_def word_le_nat_alt)
  moreover have "IS_ALIGNED (0xf000 :: 32 word) PAGE_BITS" "IS_ALIGNED (0x8000 :: uint64) PAGE_BITS"
    by code_simp+
  moreover have "hash_cfg ?c = HASH_NONE" by (simp add: sample_config_def)
  ultimately obtain nx info t where l: "load_elf ?c name 0x10000 0xf000 True 88 hash sample_machine = Returns (nx, info) t"
    using load_elf_runs [OF sample_word p, of name True 88 hash] put
    by (auto simp: up sample_image sample_machine_def)
  have "mem t = write_bytes ?u 0x10000 ?page"
    using load_elf_effect(5) [OF sample_word p l] put by (simp add: up sample_image sample_machine_def)
  moreover have "mem_bytes (write_bytes ?u 0x10000 ?page) 0x10000 4 = [1, 0, 0, 0]"
    using mem_bytes_write_part [of 0 4 ?page ?u "0x10000"] by (simp add: bytes_le_def upt_rec)
  moreover have "mem_bytes (mem sample_machine) 0x10000 4 = [0x7f, 0x45, 0x4c, 0x46]" by code_simp
  moreover have "0x10000 \<in> loader_region ?c" by (simp add: loader_region_def sample_config_def)
  ultimately show ?thesis using l by auto
qed

text \<open>Without hash checking, \<^verbatim>\<open>load_elf\<close> returns for such a file exactly when both
  addresses are page-aligned and the image's pages do not meet the loader; otherwise it aborts.\<close>

theorem load_elf_returns_iff:
  fixes elf dest :: "'a::len word"
  assumes "kernel_word TYPE('a)" and "placeable cfg (mem s) elf n dest mn mx"
    and "hash_cfg cfg = HASH_NONE"
  shows "(\<exists>r t. load_elf cfg name elf dest keep file_size hash s = Returns r t) \<longleftrightarrow>
    IS_ALIGNED dest PAGE_BITS \<and> IS_ALIGNED mn PAGE_BITS \<and>
    region dest (unat (ROUND_UP mx PAGE_BITS - mn)) \<inter> loader_region cfg = {}"
  using load_elf_effect(1-3) [OF assms(1,2)] load_elf_runs [OF assms(1,2,3)]
  by (metis prod.exhaust)

theorem load_elf_returns_iff_witness:
  "(\<exists>r t. load_elf (sample_config HASH_NONE) ''k'' 0x10000 0x20000 False 88 ''h'' sample_machine = Returns r t) \<and>
   \<not> (\<exists>r t. load_elf (sample_config HASH_NONE) ''k'' 0x10000 0x10000 False 88 ''h'' sample_machine = Returns r t)"
proof
  have p: "placeable (sample_config HASH_NONE) (mem sample_machine) 0x10000 88 dest 0x8000 0x8008"
    if "unat dest + 0x2000 \<le> 2 ^ 32" for dest
    using sample_placeable [OF that] by (simp add: sample_machine_def)
  have nohash: "hash_cfg (sample_config HASH_NONE) = HASH_NONE" by (simp add: sample_config_def)
  have "IS_ALIGNED (0x20000 :: 32 word) PAGE_BITS" "IS_ALIGNED (0x8000 :: uint64) PAGE_BITS"
    by code_simp+
  moreover have "region 0x20000 0x1000 \<inter> loader_region (sample_config HASH_NONE) = {}"
    using region_interval [of "0x20000 :: 32 word" "0x1000"]
    by (auto simp: loader_region_def sample_config_def word_le_nat_alt)
  ultimately show "\<exists>r t. load_elf (sample_config HASH_NONE) ''k'' 0x10000 0x20000 False 88 ''h'' sample_machine = Returns r t"
    using load_elf_returns_iff [OF sample_word p [of "0x20000"] nohash] by (simp add: sample_round_up)
  have "0x10000 \<in> region 0x10000 0x1000 \<inter> loader_region (sample_config HASH_NONE)"
    by (simp add: region_def loader_region_def sample_config_def)
  then show "\<not> (\<exists>r t. load_elf (sample_config HASH_NONE) ''k'' 0x10000 0x10000 False 88 ''h'' sample_machine = Returns r t)"
    using load_elf_returns_iff [OF sample_word p [of "0x10000"] nohash] by (auto simp: sample_round_up)
qed

text \<open>C12: The hash check passes exactly when the archive has the hash file and its bytes agree
  with the digest of the file up to and including the first zero byte: bytes behind a common zero
  byte are not compared, because the comparison is \<^verbatim>\<open>strncmp\<close>.\<close>

theorem check_hash_stops_at_zero:
  fixes elf :: "'a::len word" and s :: "'a word machine"
  assumes "kernel_word TYPE('a)" and "length (buf (stack_ctx cfg)) = 64"
  shows "let stored = fst (cpio_get_file cfg (mem s) (archive_start cfg) hash);
             file = mem_bytes (mem s) elf (unat file_size);
             digest = if hash_cfg cfg = HASH_SHA then SHA256 file else MD5 file
    in (\<exists>t. check_hash cfg name elf file_size hash s = Returns () t) \<longleftrightarrow>
      stored \<noteq> 0 \<and> (\<forall>j < length digest. (\<forall>k < j. mem s (stored + of_nat k) \<noteq> 0) \<longrightarrow>
        mem s (stored + of_nat j) = digest ! j)"
proof -
  let ?h = "\<lparr>sha_structure = stack_ctx cfg, md5_structure = stack_ctx cfg,
    hash_type = hash_method_value (if hash_cfg cfg = HASH_SHA then SHA_256 else MD5_method)\<rparr>"
  let ?f = "mem_bytes (mem s) elf (unat file_size)"
  let ?d = "if hash_cfg cfg = HASH_SHA then SHA256 ?f else MD5 ?f"
  have d: "get_hash ?h ?f = ?d"
    using get_hash_methods [of ?h ?f] assms(2) by simp
  moreover have "length ?d = (if hash_cfg cfg = HASH_SHA then 32 else 16)"
    using length_get_hash [of ?h ?f] unfolding d by simp
  ultimately show ?thesis unfolding Let_def
    using check_hash_returns [OF assms(1), of cfg name elf file_size hash s]
    by (auto simp: strncmp_def strncmp_loop_zero agree_from_def str_at_def list_chars_def)
qed

theorem check_hash_stops_at_zero_witness:
  "let file = mem_bytes sample_mem 0x10000 88;
       m = write_bytes sample_mem 0x30000 (MD5 file)
   in (\<exists>t. check_hash (sample_config HASH_MD5) ''k'' 0x10000 88 ''h'' (sample_machine\<lparr>mem := m\<rparr>) = Returns () t) \<and>
      \<not> (\<exists>t. check_hash (sample_config HASH_MD5) ''k'' 0x10000 88 ''h''
        (sample_machine\<lparr>mem := m(0x30000 := MD5 file ! 0 + 1)\<rparr>) = Returns () t)"
proof -
  let ?file = "mem_bytes sample_mem 0x10000 88" and ?c = "sample_config HASH_MD5"
  let ?d = "MD5 ?file"
  let ?m = "write_bytes sample_mem 0x30000 ?d"
  have c: "length (buf (stack_ctx ?c)) = 64" by (simp add: sample_config_def)
  let ?h = "\<lparr>sha_structure = stack_ctx ?c, md5_structure = stack_ctx ?c, hash_type = 1\<rparr>"
  have len: "length ?d = 16"
    using get_hash_methods [of ?h ?file] length_get_hash [of ?h ?file] c by simp
  have "region 0x10000 88 \<inter> region 0x30000 16 = ({} :: 32 word set)"
    by (rule region_disjointI) simp_all
  then have same: "mem_bytes ?m 0x10000 88 = ?file"
    using len by (intro mem_bytes_write_disjoint) auto
  have same': "mem_bytes (?m(0x30000 := x)) 0x10000 88 = ?file" for x
  proof -
    have "region 0x10000 88 \<inter> region 0x30000 1 = ({} :: 32 word set)" by (rule region_disjointI) simp_all
    then have "mem_bytes (write_bytes ?m 0x30000 [x]) 0x10000 88 = mem_bytes ?m 0x10000 88"
      by (intro mem_bytes_write_disjoint) auto
    then show ?thesis by (simp only: write_bytes_singleton same)
  qed
  have "?m (0x30000 + of_nat j) = ?d ! j" if "j < 16" for j
    using that len by (intro write_bytes_nth) simp_all
  then show ?thesis
    using check_hash_stops_at_zero [OF sample_word c, of "sample_machine\<lparr>mem := ?m\<rparr>" "''h''" "0x10000" 88 "''k''"]
      check_hash_stops_at_zero [OF sample_word c, of "sample_machine\<lparr>mem := ?m(0x30000 := ?d ! 0 + 1)\<rparr>" "''h''" "0x10000" 88 "''k''"]
    unfolding Let_def by (auto simp: same same' len sample_config_def sample_machine_def intro!: exI [of _ 0])
qed

text \<open>C11: When \<^verbatim>\<open>load_images\<close> returns, at most the given number of user images has been
  loaded, every image starts on a page boundary and passed the check against the loader's own
  pages, the first user image starts behind the kernel and each further one behind its
  predecessor and its header page.\<close>

theorem load_images_layout:
  fixes s :: "'a::len word machine"
  assumes kw: "kernel_word TYPE('a)" and run: "load_images cfg k s = Returns (kernel_info, user_info) t"
  shows "length user_info \<le> k \<and> (\<forall>i \<in> set (kernel_info # user_info). placed cfg i) \<and>
    consecutive (ROUND_UP (phys_region_end kernel_info) PAGE_BITS) user_info"
proof -
  obtain kernel_elf file_size where f: "cpio_get_file cfg (mem s) (archive_start cfg) ''kernel.elf'' = (kernel_elf, file_size)"
    by (cases "cpio_get_file cfg (mem s) (archive_start cfg) ''kernel.elf''") auto
  obtain r mn mx where b: "elf_getMemoryBounds (mem s) kernel_elf True (stack_bounds cfg) = (r, mn, mx)"
    by (cases "elf_getMemoryBounds (mem s) kernel_elf True (stack_bounds cfg)") auto
  from run obtain nx s1 s2 where l: "load_elf cfg ''kernel'' kernel_elf (ucast mn) False file_size ''kernel.bin'' s =
        Returns (nx, kernel_info) s1"
    and u: "load_users cfg k 0 nx [] s2 = Returns user_info t"
    unfolding load_images_def f b Let_def prod.case
    by (auto elim!: andThenE after_abort_if split: prod.splits option.splits)
  show ?thesis
    using load_elf_placed [OF kw l] load_users_placed [OF kw u] by auto
qed

theorem load_images_layout_witness:
  "\<exists>kernel_info t. load_images (sample_config HASH_NONE) 1 sample_machine = Returns (kernel_info, []) t \<and>
    placed (sample_config HASH_NONE) kernel_info"
proof -
  let ?c = "sample_config HASH_NONE"
  obtain nx ki t where l: "load_elf ?c ''kernel'' 0x10000 0x20000 False 88 ''kernel.bin'' sample_machine = Returns (nx, ki) t"
    using sample_loads [of "''kernel''" 88 "''kernel.bin''" "[]"] by (auto simp: sample_machine_def)
  have "is_cstr (str_lit ''kernel.elf'') [0x6b, 0x65, 0x72, 0x6e, 0x65, 0x6c, 0x2e, 0x65, 0x6c, 0x66]"
    by (simp add: is_cstr_Cons str_lit_def)
  from strcmp_order [OF this this] have "strcmp (str_lit ''kernel.elf'') (str_lit ''kernel.elf'') = Some 0" by auto
  then have "load_images ?c 1 sample_machine = Returns (ki, []) t"
    using l unfolding load_images_def
    by (simp add: sample_config_def sample_machine_def sample_accessors sample_bounds abort_if_False andThen_def ret_def)
  from load_images_layout [OF sample_word this] this show ?thesis by auto
qed

end
