(* ===== verification/Hardware.thy ===== *)
theory Hardware
  imports Prelude
begin

text \<open>
  The hardware the platform code talks to. What a device does is not code of the repository: it is
  the parameter \<^verbatim>\<open>hardware\<close>, which gives the value of every read from the whole history of
  accesses before it. A piece of driver code maps the history so far to the longer history it
  leaves, so its effect is the sequence of volatile accesses it makes, in program order.

  Addresses of device registers are constants below 2^32; they are 64-bit words on both kinds
  of platform.
\<close>

text \<open>A coprocessor-15 register as an instruction names it: opc1, CRn, CRm, opc2.\<close>

type_synonym cpreg = "nat \<times> nat \<times> nat \<times> nat"

datatype access =
    Read uint64 uint32          \<comment> \<open>address and the value read\<close>
  | Write uint64 uint32
  | Store uint64 uint64         \<comment> \<open>an \<^verbatim>\<open>unsigned long\<close> of a 64-bit platform\<close>
  | Mrc cpreg uint32            \<comment> \<open>coprocessor read and its value\<close>
  | Mcr cpreg uint32
  | Mrs string uint64           \<comment> \<open>status or system register read and its value\<close>
  | Msr string uint64
  | Asm string                  \<comment> \<open>an instruction without operands\<close>
  | Call string "uint64 list" uint64  \<comment> \<open>firmware or assembly routine, arguments, result\<close>
  | Print string

type_synonym history = "access list"

record hardware =
  reg_value :: "history \<Rightarrow> uint64 \<Rightarrow> uint32"
  cp_value :: "history \<Rightarrow> cpreg \<Rightarrow> uint32"
  sys_value :: "history \<Rightarrow> string \<Rightarrow> uint64"
  call_value :: "history \<Rightarrow> string \<Rightarrow> uint64 list \<Rightarrow> uint64"

definition rd32 :: "hardware \<Rightarrow> uint64 \<Rightarrow> history \<Rightarrow> uint32 \<times> history" where
  "rd32 hw a h = (let v = reg_value hw h a in (v, h @ [Read a v]))"

definition wr32 :: "uint64 \<Rightarrow> uint32 \<Rightarrow> history \<Rightarrow> history" where
  "wr32 a v h = h @ [Write a v]"

definition mrc :: "hardware \<Rightarrow> cpreg \<Rightarrow> history \<Rightarrow> uint32 \<times> history" where
  "mrc hw r h = (let v = cp_value hw h r in (v, h @ [Mrc r v]))"

definition mcr :: "cpreg \<Rightarrow> uint32 \<Rightarrow> history \<Rightarrow> history" where
  "mcr r v h = h @ [Mcr r v]"

definition mrs :: "hardware \<Rightarrow> string \<Rightarrow> history \<Rightarrow> uint64 \<times> history" where
  "mrs hw r h = (let v = sys_value hw h r in (v, h @ [Mrs r v]))"

definition asm :: "string \<Rightarrow> history \<Rightarrow> history" where
  "asm i h = h @ [Asm i]"

definition firmware :: "hardware \<Rightarrow> string \<Rightarrow> uint64 list \<Rightarrow> history \<Rightarrow> uint64 \<times> history" where
  "firmware hw f args h = (let r = call_value hw h f args in (r, h @ [Call f args r]))"

text \<open>A read-modify-write of a register.\<close>

definition modify32 :: "hardware \<Rightarrow> uint64 \<Rightarrow> (uint32 \<Rightarrow> uint32) \<Rightarrow> history \<Rightarrow> history" where
  "modify32 hw a f h = (let (v, h) = rd32 hw a h in wr32 a (f v) h)"

text \<open>\<^verbatim>\<open>while (!stop(read())) ;\<close> does not return when no value read ever stops it.\<close>

partial_function (option) spin ::
    "(history \<Rightarrow> uint32 \<times> history) \<Rightarrow> (uint32 \<Rightarrow> bool) \<Rightarrow> history \<Rightarrow> history option" where
  "spin read stop h = (let (v, h') = read h in if stop v then Some h' else spin read stop h')"

declare spin.simps [code]

lemma snd_rd32: "snd (rd32 hw a h) = h @ [Read a (reg_value hw h a)]"
  by (simp add: rd32_def Let_def)

section \<open>Polling\<close>

text \<open>The history after \<open>n\<close> reads of a register.\<close>

primrec polls :: "hardware \<Rightarrow> uint64 \<Rightarrow> nat \<Rightarrow> history \<Rightarrow> history" where
  "polls hw a 0 h = h"
| "polls hw a (Suc n) h = snd (rd32 hw a (polls hw a n h))"

definition stops_at :: "hardware \<Rightarrow> uint64 \<Rightarrow> (uint32 \<Rightarrow> bool) \<Rightarrow> history \<Rightarrow> nat \<Rightarrow> bool" where
  "stops_at hw a stop h n \<longleftrightarrow>
     stop (reg_value hw (polls hw a n h) a) \<and> (\<forall>m < n. \<not> stop (reg_value hw (polls hw a m h) a))"

lemma polls_shift: "polls hw a n (snd (rd32 hw a h)) = polls hw a (Suc n) h"
  by (induction n) simp_all

lemma stops_at_Suc:
  "stops_at hw a stop h (Suc n) \<longleftrightarrow>
    \<not> stop (reg_value hw h a) \<and> stops_at hw a stop (snd (rd32 hw a h)) n"
  unfolding stops_at_def All_less_Suc2 polls_shift by auto

lemma spin_step:
  "spin (rd32 hw a) stop h =
    (if stop (reg_value hw h a) then Some (h @ [Read a (reg_value hw h a)])
     else spin (rd32 hw a) stop (h @ [Read a (reg_value hw h a)]))"
  by (subst spin.simps) (simp add: rd32_def Let_def)

lemma spin_stops: "stops_at hw a stop h n \<Longrightarrow> spin (rd32 hw a) stop h = Some (polls hw a (Suc n) h)"
proof (induction n arbitrary: h)
  case 0
  then show ?case by (subst spin_step) (simp add: stops_at_def rd32_def Let_def)
next
  case (Suc n)
  let ?h = "snd (rd32 hw a h)"
  have "stops_at hw a stop ?h n" "\<not> stop (reg_value hw h a)"
    using Suc.prems by (simp_all add: stops_at_Suc)
  then show ?case
    using Suc.IH [of ?h] unfolding polls_shift by (subst spin_step) (simp add: snd_rd32)
qed

lemma spin_reads:
  assumes "spin (rd32 hw a) stop h = Some h'"
  shows "\<exists>n. stops_at hw a stop h n \<and> h' = polls hw a (Suc n) h"
proof -
  have "read = rd32 hw a \<longrightarrow> (\<exists>n. stops_at hw a stop h n)" if "spin read stop h = Some h'" for read
  proof (rule spin.raw_induct [where P = "\<lambda>read stop h h'. read = rd32 hw a \<longrightarrow> (\<exists>n. stops_at hw a stop h n)", OF _ that])
    fix spin read stop h h'
    assume IH: "\<And>read stop h h'. spin read stop h = Some h' \<Longrightarrow>
        read = rd32 hw a \<longrightarrow> (\<exists>n. stops_at hw a stop h n)"
      and run: "(let (v, h1) = read h in if stop v then Some h1 else spin read stop h1) = Some h'"
    show "read = rd32 hw a \<longrightarrow> (\<exists>n. stops_at hw a stop h n)"
    proof (cases "stop (reg_value hw h a)")
      case True
      then have "stops_at hw a stop h 0" by (simp add: stops_at_def)
      then show ?thesis by blast
    next
      case False
      have "\<exists>n. stops_at hw a stop (snd (rd32 hw a h)) n" if "read = rd32 hw a"
        using IH run False that by (auto simp: rd32_def Let_def split: if_splits)
      then show ?thesis
        using False by (metis stops_at_Suc)
    qed
  qed
  then obtain n where "stops_at hw a stop h n" using assms by blast
  with spin_stops [OF this] assms show ?thesis by auto
qed

text \<open>A wait returns exactly when some read gives a value that stops it.\<close>

lemma spin_returns_iff:
  "(\<exists>h'. spin (rd32 hw a) stop h = Some h') \<longleftrightarrow> (\<exists>n. stop (reg_value hw (polls hw a n h) a))"
proof
  assume "\<exists>n. stop (reg_value hw (polls hw a n h) a)"
  then have "stops_at hw a stop h (LEAST n. stop (reg_value hw (polls hw a n h) a))"
    unfolding stops_at_def by (auto intro: LeastI_ex dest: not_less_Least)
  from spin_stops [OF this] show "\<exists>h'. spin (rd32 hw a) stop h = Some h'" by blast
qed (auto simp: stops_at_def dest!: spin_reads)

text \<open>The reads a wait has made: all but the last refused, the last one let it go on.\<close>

lemma polls_reads:
  "\<exists>vs. length vs = n \<and> polls hw a n h = h @ map (Read a) vs \<and>
    (\<forall>m < n. vs ! m = reg_value hw (polls hw a m h) a)"
proof (induction n)
  case (Suc n)
  then obtain vs where "length vs = n" "polls hw a n h = h @ map (Read a) vs"
    "\<forall>m < n. vs ! m = reg_value hw (polls hw a m h) a" by blast
  then show ?case
    by (intro exI [of _ "vs @ [reg_value hw (polls hw a n h) a]"])
      (auto simp: rd32_def Let_def nth_append less_Suc_eq)
qed simp

lemma spin_history:
  assumes "spin (rd32 hw a) stop h = Some h'"
  obtains vs v where "h' = h @ map (Read a) vs @ [Read a v]" "stop v" "\<forall>x \<in> set vs. \<not> stop x"
proof -
  obtain n where n: "stops_at hw a stop h n" and h': "h' = polls hw a (Suc n) h"
    using spin_reads [OF assms] by blast
  obtain vs where vs: "length vs = n" "polls hw a n h = h @ map (Read a) vs"
    "\<forall>m < n. vs ! m = reg_value hw (polls hw a m h) a" using polls_reads by blast
  have "\<forall>x \<in> set vs. \<not> stop x"
    using vs(1,3) n unfolding stops_at_def by (auto simp: in_set_conv_nth)
  moreover have "stop (reg_value hw (polls hw a n h) a)" using n by (simp add: stops_at_def)
  ultimately show thesis
    using that [of vs "reg_value hw (polls hw a n h) a"] vs(2) h' by (simp add: rd32_def Let_def)
qed

end
