(* ===== verification/Uart.thy ===== *)
theory Uart
  imports Hardware Printf "HOL-Library.Monad_Syntax"
begin

text \<open>
  The console drivers, src/plat/*/sys_fputc.c. Every driver waits for its transmitter, writes the
  character to the data register and calls itself with a carriage return after a newline; they
  differ in the register addresses, the test for a ready transmitter, the value written and, for
  one, a register to be written first. The record \<^verbatim>\<open>uart\<close> holds these differences, one
  definition per platform with the names of its source, and \<^verbatim>\<open>fputc\<close> is the function.

  An \<^verbatim>\<open>int\<close> is a 32-bit word.
\<close>

section \<open>The code\<close>

record uart =
  UART_PPTR :: uint64
  status_reg :: uint64
  tx_ready :: "uint32 \<Rightarrow> bool"
  first_writes :: "(uint64 \<times> uint32) list"
  tx_reg :: uint64
  tx_value :: "uint32 \<Rightarrow> uint32"

definition UART_REG :: "uart \<Rightarrow> uint64 \<Rightarrow> uint64" where
  "UART_REG u x = UART_PPTR u + x"

definition uart_send :: "uart \<Rightarrow> hardware \<Rightarrow> uint32 \<Rightarrow> history \<Rightarrow> history option" where
  "uart_send u hw c h = do {
     h \<leftarrow> spin (rd32 hw (UART_REG u (status_reg u))) (tx_ready u) h;
     let h = fold (\<lambda>(x, v). wr32 (UART_REG u x) v) (first_writes u) h;
     Some (wr32 (UART_REG u (tx_reg u)) (tx_value u c) h)
   }"

function fputc :: "uart \<Rightarrow> hardware \<Rightarrow> uint32 \<Rightarrow> history \<Rightarrow> history option" where
  "fputc u hw c h = do {
     h \<leftarrow> uart_send u hw c h;
     if c = of_char CHR 0x0A then fputc u hw (of_char CHR 0x0D) h else Some h
   }"
  by pat_completeness auto
termination
  by (relation "measure (\<lambda>(u, hw, c, h). if c = of_char CHR 0x0A then 1 else 0)") auto

declare fputc.simps [simp del]

definition am335x_uart :: "uart" where
  "am335x_uart =
     (let UTHR = 0x00; ULSR = 0x14; ULSR_THRE = 0x20
      in \<lparr>UART_PPTR = 0x44E09000, status_reg = ULSR, tx_ready = (\<lambda>v. v AND ULSR_THRE \<noteq> 0),
          first_writes = [], tx_reg = UTHR, tx_value = (\<lambda>c. c)\<rparr>)"

definition apq8064_uart :: "uart" where
  "apq8064_uart =
     (let USR = 0x08; UTF = 0x70; UNTX = 0x40; USR_TXEMP = BIT 3
      in \<lparr>UART_PPTR = 0x16640000, status_reg = USR, tx_ready = (\<lambda>v. v AND USR_TXEMP \<noteq> 0),
          first_writes = [(UNTX, 1)], tx_reg = UTF, tx_value = (\<lambda>c. c AND 0xff)\<rparr>)"

definition bcm2837_uart :: "uart" where
  "bcm2837_uart =
     (let MU_IO = 0x40; MU_LSR = 0x54; MU_LSR_TXIDLE = BIT 6
      in \<lparr>UART_PPTR = 0x3f215000, status_reg = MU_LSR, tx_ready = (\<lambda>v. v AND MU_LSR_TXIDLE \<noteq> 0),
          first_writes = [], tx_reg = MU_IO, tx_value = (\<lambda>c. c AND 0xff)\<rparr>)"

definition exynos4_uart :: "uart" where
  "exynos4_uart =
     (let UTRSTAT = 0x10; UTXH = 0x20; TXBUF_EMPTY = BIT 1
      in \<lparr>UART_PPTR = 0x13810000, status_reg = UTRSTAT, tx_ready = (\<lambda>v. v AND TXBUF_EMPTY \<noteq> 0),
          first_writes = [], tx_reg = UTXH, tx_value = (\<lambda>c. c AND 0xff)\<rparr>)"

definition exynos5_uart :: "uart" where
  "exynos5_uart =
     (let UTRSTAT = 0x10; UTXH = 0x20; TXBUF_EMPTY = BIT 1
      in \<lparr>UART_PPTR = 0x12C20000, status_reg = UTRSTAT, tx_ready = (\<lambda>v. v AND TXBUF_EMPTY \<noteq> 0),
          first_writes = [], tx_reg = UTXH, tx_value = (\<lambda>c. c AND 0xff)\<rparr>)"

definition hikey_uart :: "uart" where
  "hikey_uart =
     (let UARTDR = 0x000; UARTFR = 0x018; UARTFR_TXFF = BIT 5
      in \<lparr>UART_PPTR = 0xF8015000, status_reg = UARTFR, tx_ready = (\<lambda>v. \<not> v AND UARTFR_TXFF \<noteq> 0),
          first_writes = [], tx_reg = UARTDR, tx_value = (\<lambda>c. c AND 0xff)\<rparr>)"

definition imx31_uart :: "uart" where
  "imx31_uart =
     (let UART_TRANSMIT = 0x40; UART_STAT2 = 0x98; TXFE = BIT 14
      in \<lparr>UART_PPTR = 0x43F90000, status_reg = UART_STAT2, tx_ready = (\<lambda>v. v AND TXFE \<noteq> 0),
          first_writes = [], tx_reg = UART_TRANSMIT, tx_value = (\<lambda>c. c)\<rparr>)"

definition imx6_uart :: "bool \<Rightarrow> uart" where
  "imx6_uart plat_sabre =
     (let UART_TRANSMIT = 0x40; UART_STAT2 = 0x98; TXFE = BIT 14
      in \<lparr>UART_PPTR = if plat_sabre then 0x021e8000 else 0x02020000, status_reg = UART_STAT2, tx_ready = (\<lambda>v. v AND TXFE \<noteq> 0),
          first_writes = [], tx_reg = UART_TRANSMIT, tx_value = (\<lambda>c. c)\<rparr>)"

definition imx7_uart :: "uart" where
  "imx7_uart =
     (let UART_TRANSMIT = 0x40; UART_STAT2 = 0x98; TXFE = BIT 14
      in \<lparr>UART_PPTR = 0x30860000, status_reg = UART_STAT2, tx_ready = (\<lambda>v. v AND TXFE \<noteq> 0),
          first_writes = [], tx_reg = UART_TRANSMIT, tx_value = (\<lambda>c. c)\<rparr>)"

definition nslu2_uart :: "uart" where
  "nslu2_uart =
     (let UTHR = 0x00; ULSR = 0x14
      in \<lparr>UART_PPTR = 0xC8000000, status_reg = ULSR, tx_ready = (\<lambda>v. v AND BIT 6 \<noteq> 0),
          first_writes = [], tx_reg = UTHR, tx_value = (\<lambda>c. c)\<rparr>)"

definition odroidc2_uart :: "uart" where
  "odroidc2_uart =
     (let UART_WFIFO = 0x0; UART_STATUS = 0xC; UART_TX_FULL = BIT 21
      in \<lparr>UART_PPTR = 0xc81004c0, status_reg = UART_STATUS, tx_ready = (\<lambda>v. \<not> v AND UART_TX_FULL \<noteq> 0),
          first_writes = [], tx_reg = UART_WFIFO, tx_value = (\<lambda>c. c)\<rparr>)"

definition omap3_uart :: "uart" where
  "omap3_uart =
     (let UTHR = 0x00; ULSR = 0x14; ULSR_THRE = 0x20
      in \<lparr>UART_PPTR = 0x49020000, status_reg = ULSR, tx_ready = (\<lambda>v. v AND ULSR_THRE \<noteq> 0),
          first_writes = [], tx_reg = UTHR, tx_value = (\<lambda>c. c)\<rparr>)"

definition realview_uart :: "uart" where
  "realview_uart =
     (let URXD = 0x00; URST = 0x18
      in \<lparr>UART_PPTR = 0x10009000, status_reg = URST, tx_ready = (\<lambda>v. \<not> v AND BIT 5 \<noteq> 0),
          first_writes = [], tx_reg = URXD, tx_value = (\<lambda>c. c)\<rparr>)"

definition tk1_uart :: "uart" where
  "tk1_uart =
     (let UTHR = 0x0; ULSR = 0x14; ULSR_THRE = BIT 5
      in \<lparr>UART_PPTR = 0x70006300, status_reg = ULSR, tx_ready = (\<lambda>v. v AND ULSR_THRE \<noteq> 0),
          first_writes = [], tx_reg = UTHR, tx_value = (\<lambda>c. c AND 0xff)\<rparr>)"

definition tx1_uart :: "uart" where
  "tx1_uart =
     (let UTHR = 0x0; ULSR = 0x14; ULSR_THRE = BIT 5
      in \<lparr>UART_PPTR = 0x70006000, status_reg = ULSR, tx_ready = (\<lambda>v. v AND ULSR_THRE \<noteq> 0),
          first_writes = [], tx_reg = UTHR, tx_value = (\<lambda>c. c AND 0xff)\<rparr>)"

definition tx2_uart :: "uart" where
  "tx2_uart =
     (let UTHR = 0x0; ULSR = 0x14; ULSR_THRE = BIT 5
      in \<lparr>UART_PPTR = 0x03100000, status_reg = ULSR, tx_ready = (\<lambda>v. v AND ULSR_THRE \<noteq> 0),
          first_writes = [], tx_reg = UTHR, tx_value = (\<lambda>c. c AND 0xff)\<rparr>)"

definition zynq7000_uart :: "uart" where
  "zynq7000_uart =
     (let UART_CHANNEL_STS = 0x2C; UART_TX_RX_FIFO = 0x30; UART_CHANNEL_STS_TXEMPTY = BIT 3
      in \<lparr>UART_PPTR = 0xE0001000, status_reg = UART_CHANNEL_STS, tx_ready = (\<lambda>v. v AND UART_CHANNEL_STS_TXEMPTY \<noteq> 0),
          first_writes = [], tx_reg = UART_TX_RX_FIFO, tx_value = (\<lambda>c. c)\<rparr>)"

definition zynqmp_uart :: "bool \<Rightarrow> uart" where
  "zynqmp_uart ultra96 =
     (let XUARTPS_SR = 0x2C; XUARTPS_FIFO = 0x30; XUARTPS_SR_TXEMPTY = BIT 3
      in \<lparr>UART_PPTR = if ultra96 then 0xFF010000 else 0xFF000000, status_reg = XUARTPS_SR, tx_ready = (\<lambda>v. v AND XUARTPS_SR_TXEMPTY \<noteq> 0),
          first_writes = [], tx_reg = XUARTPS_FIFO, tx_value = (\<lambda>c. c)\<rparr>)"

text \<open>\<^verbatim>\<open>enable_uart\<close> of zynq7000 and zynqmp.\<close>

definition zynq7000_enable_uart :: "hardware \<Rightarrow> history \<Rightarrow> history" where
  "zynq7000_enable_uart hw h =
     (let UART_CONTROL = 0x00; UART_CONTROL_TX_EN = BIT 4; UART_CONTROL_TX_DIS = BIT 5;
          (v, h) = rd32 hw (UART_REG zynq7000_uart UART_CONTROL) h;
          v = v OR UART_CONTROL_TX_EN;
          v = v AND NOT UART_CONTROL_TX_DIS
      in wr32 (UART_REG zynq7000_uart UART_CONTROL) v h)"

definition zynqmp_enable_uart :: "bool \<Rightarrow> hardware \<Rightarrow> history \<Rightarrow> history" where
  "zynqmp_enable_uart ultra96 hw h =
     (let XUARTPS_CR = 0x00; XUARTPS_CR_TX_EN = BIT 4; XUARTPS_CR_TX_DIS = BIT 5;
          (v, h) = rd32 hw (UART_REG (zynqmp_uart ultra96) XUARTPS_CR) h;
          v = v OR XUARTPS_CR_TX_EN;
          v = v AND NOT XUARTPS_CR_TX_DIS
      in wr32 (UART_REG (zynqmp_uart ultra96) XUARTPS_CR) v h)"

text \<open>\<^verbatim>\<open>printf\<close> over a driver: the formatter hands over characters one at a time, and a
  wait that never ends ends the run.\<close>

definition uart_console :: "uart \<Rightarrow> hardware \<Rightarrow> history option \<Rightarrow> char \<Rightarrow> history option" where
  "uart_console u hw s c = Option.bind s (fputc u hw (of_char c))"

section \<open>What a driver sends\<close>

lemma fputc_eq:
  "fputc u hw c h = do {
     h \<leftarrow> uart_send u hw c h;
     if c = 10 then uart_send u hw 13 h else Some h
   }"
proof -
  have "fputc u hw 13 g = uart_send u hw 13 g" for g
    by (subst fputc.simps) (simp cong: option.case_cong)
  then show ?thesis by (subst fputc.simps) (simp cong: if_cong)
qed

text \<open>The bytes written to the data register, and the rule that a byte is only written when the
  last access, but for the driver's first writes, was a status read that found the transmitter
  ready.\<close>

definition sent :: "uart \<Rightarrow> history \<Rightarrow> byte list" where
  "sent u h = concat (map (\<lambda>e. case e of
     Write a v \<Rightarrow> if a = UART_REG u (tx_reg u) then [ucast v] else [] | _ \<Rightarrow> []) h)"

fun obeys_ready :: "uart \<Rightarrow> access list \<Rightarrow> history \<Rightarrow> bool" where
  "obeys_ready u before [] \<longleftrightarrow> True"
| "obeys_ready u before (e # h) \<longleftrightarrow>
     (case e of
        Write a v \<Rightarrow> a = UART_REG u (tx_reg u) \<longrightarrow>
          (\<exists>v rest. before = rev (map (\<lambda>(x, v). Write (UART_REG u x) v) (first_writes u)) @
              Read (UART_REG u (status_reg u)) v # rest \<and> tx_ready u v)
      | _ \<Rightarrow> True) \<and>
     obeys_ready u (e # before) h"

text \<open>Bytes as they appear on the line: a carriage return follows each newline.\<close>

definition on_the_line :: "uint32 \<Rightarrow> byte list" where
  "on_the_line c = (if c = of_char CHR 0x0A then [0x0A, 0x0D] else [ucast c])"

text \<open>The law of a driver: the low byte of the register value is the character, and the registers
  it writes first are not the data register.\<close>

locale uart_driver =
  fixes u :: uart
  assumes value_low: "ucast (tx_value u c) = (ucast c :: byte)"
    and first_apart: "(x, v) \<in> set (first_writes u) \<Longrightarrow> UART_REG u x \<noteq> UART_REG u (tx_reg u)"
begin

lemma send_history:
  assumes "uart_send u hw c h = Some h'"
  obtains vs v where
    "h' = h @ map (Read (UART_REG u (status_reg u))) vs @ [Read (UART_REG u (status_reg u)) v] @
       map (\<lambda>(x, v). Write (UART_REG u x) v) (first_writes u) @ [Write (UART_REG u (tx_reg u)) (tx_value u c)]"
    "tx_ready u v"
proof -
  obtain h1 where w: "spin (rd32 hw (UART_REG u (status_reg u))) (tx_ready u) h = Some h1"
    and h': "h' = wr32 (UART_REG u (tx_reg u)) (tx_value u c)
      (fold (\<lambda>(x, v). wr32 (UART_REG u x) v) (first_writes u) h1)"
    using assms unfolding uart_send_def by (auto simp: bind_eq_Some_conv Let_def)
  have f: "fold (\<lambda>(x, v). wr32 (UART_REG u x) v) ws g = g @ map (\<lambda>(x, v). Write (UART_REG u x) v) ws"
    for ws g by (induction ws arbitrary: g) (auto simp: wr32_def)
  show thesis
    by (rule spin_history [OF w]) (use that h' f in \<open>auto simp: wr32_def\<close>)
qed

lemma sent_append: "sent u (g @ h) = sent u g @ sent u h"
  by (simp add: sent_def)

lemma sent_send: "uart_send u hw c h = Some h' \<Longrightarrow> sent u h' = sent u h @ [ucast c]"
proof (erule send_history)
  fix vs v
  have "sent u (map (Read (UART_REG u (status_reg u))) vs) = []" by (simp add: sent_def)
  moreover have "sent u (map (\<lambda>(x, v). Write (UART_REG u x) v) (first_writes u)) = []"
    using first_apart by (auto simp: sent_def)
  ultimately show "sent u h' = sent u h @ [ucast c]"
    if "h' = h @ map (Read (UART_REG u (status_reg u))) vs @ [Read (UART_REG u (status_reg u)) v] @
       map (\<lambda>(x, v). Write (UART_REG u x) v) (first_writes u) @ [Write (UART_REG u (tx_reg u)) (tx_value u c)]"
    using that by (simp add: sent_append) (simp add: sent_def value_low)
qed

lemma fputc_sends: "fputc u hw c h = Some h' \<Longrightarrow> sent u h' = sent u h @ on_the_line c"
  by (auto simp: fputc_eq bind_eq_Some_conv on_the_line_def dest!: sent_send split: if_splits)

lemma obeys_append:
  "obeys_ready u before (g @ h) \<longleftrightarrow> obeys_ready u before g \<and> obeys_ready u (rev g @ before) h"
  by (induction g arbitrary: before) auto

lemma obeys_others: "\<forall>a v. Write a v \<in> set g \<longrightarrow> a \<noteq> UART_REG u (tx_reg u) \<Longrightarrow> obeys_ready u before g"
  by (induction g arbitrary: before) (auto split: access.splits)

lemma send_obeys:
  assumes "uart_send u hw c h = Some h'" and "obeys_ready u [] h"
  shows "obeys_ready u [] h'"
proof -
  have "obeys_ready u before (map (\<lambda>(x, v). Write (UART_REG u x) v) (first_writes u))" for before
    using first_apart by (intro obeys_others) force
  moreover have "obeys_ready u before (map (Read a) vs)" for before a vs
    by (intro obeys_others) auto
  ultimately show ?thesis
    using assms(2) by (auto simp: obeys_append rev_map intro: send_history [OF assms(1)])
qed

lemma fputc_obeys: "fputc u hw c h = Some h' \<Longrightarrow> obeys_ready u [] h \<Longrightarrow> obeys_ready u [] h'"
  by (auto simp: fputc_eq bind_eq_Some_conv dest: send_obeys split: if_splits)

end

lemma low_byte: "ucast (c AND 0xff) = (ucast (c :: uint32) :: byte)"
proof (rule bit_eqI)
  fix n assume "possible_bit TYPE(byte) n"
  then show "bit (ucast (c AND 0xff) :: byte) n = bit (ucast c :: byte) n"
    using bit_mask_iff [of "8" n, where 'a = "32 word"]
    by (auto simp: bit_simps mask_numeral possible_bit_word)
qed

interpretation am335x: uart_driver "am335x_uart"
  by unfold_locales (auto simp: am335x_uart_def Let_def UART_REG_def low_byte)

interpretation apq8064: uart_driver "apq8064_uart"
  by unfold_locales (auto simp: apq8064_uart_def Let_def UART_REG_def low_byte)

interpretation bcm2837: uart_driver "bcm2837_uart"
  by unfold_locales (auto simp: bcm2837_uart_def Let_def UART_REG_def low_byte)

interpretation exynos4: uart_driver "exynos4_uart"
  by unfold_locales (auto simp: exynos4_uart_def Let_def UART_REG_def low_byte)

interpretation exynos5: uart_driver "exynos5_uart"
  by unfold_locales (auto simp: exynos5_uart_def Let_def UART_REG_def low_byte)

interpretation hikey: uart_driver "hikey_uart"
  by unfold_locales (auto simp: hikey_uart_def Let_def UART_REG_def low_byte)

interpretation imx31: uart_driver "imx31_uart"
  by unfold_locales (auto simp: imx31_uart_def Let_def UART_REG_def low_byte)

interpretation imx6: uart_driver "imx6_uart plat_sabre" for plat_sabre
  by unfold_locales (auto simp: imx6_uart_def Let_def UART_REG_def low_byte)

interpretation imx7: uart_driver "imx7_uart"
  by unfold_locales (auto simp: imx7_uart_def Let_def UART_REG_def low_byte)

interpretation nslu2: uart_driver "nslu2_uart"
  by unfold_locales (auto simp: nslu2_uart_def Let_def UART_REG_def low_byte)

interpretation odroidc2: uart_driver "odroidc2_uart"
  by unfold_locales (auto simp: odroidc2_uart_def Let_def UART_REG_def low_byte)

interpretation omap3: uart_driver "omap3_uart"
  by unfold_locales (auto simp: omap3_uart_def Let_def UART_REG_def low_byte)

interpretation realview: uart_driver "realview_uart"
  by unfold_locales (auto simp: realview_uart_def Let_def UART_REG_def low_byte)

interpretation tk1: uart_driver "tk1_uart"
  by unfold_locales (auto simp: tk1_uart_def Let_def UART_REG_def low_byte)

interpretation tx1: uart_driver "tx1_uart"
  by unfold_locales (auto simp: tx1_uart_def Let_def UART_REG_def low_byte)

interpretation tx2: uart_driver "tx2_uart"
  by unfold_locales (auto simp: tx2_uart_def Let_def UART_REG_def low_byte)

interpretation zynq7000: uart_driver "zynq7000_uart"
  by unfold_locales (auto simp: zynq7000_uart_def Let_def UART_REG_def low_byte)

interpretation zynqmp: uart_driver "zynqmp_uart ultra96" for ultra96
  by unfold_locales (auto simp: zynqmp_uart_def Let_def UART_REG_def low_byte)

definition uarts :: "uart list" where
  "uarts = [am335x_uart, apq8064_uart, bcm2837_uart, exynos4_uart, exynos5_uart, hikey_uart, imx31_uart, imx6_uart True, imx6_uart False, imx7_uart, nslu2_uart, odroidc2_uart, omap3_uart, realview_uart, tk1_uart, tx1_uart, tx2_uart, zynq7000_uart, zynqmp_uart True, zynqmp_uart False]"

lemmas uart_drivers =
  am335x.uart_driver_axioms apq8064.uart_driver_axioms bcm2837.uart_driver_axioms exynos4.uart_driver_axioms
  exynos5.uart_driver_axioms hikey.uart_driver_axioms imx31.uart_driver_axioms imx6.uart_driver_axioms
  imx7.uart_driver_axioms nslu2.uart_driver_axioms odroidc2.uart_driver_axioms omap3.uart_driver_axioms
  realview.uart_driver_axioms tk1.uart_driver_axioms tx1.uart_driver_axioms tx2.uart_driver_axioms
  zynq7000.uart_driver_axioms zynqmp.uart_driver_axioms

lemma uarts_driver: "u \<in> set uarts \<Longrightarrow> uart_driver u"
  by (auto simp: uarts_def intro: uart_drivers)

section \<open>Waiting for the transmitter\<close>

text \<open>After any history the transmitter gets ready within finitely many status reads.\<close>

definition live :: "uart \<Rightarrow> hardware \<Rightarrow> bool" where
  "live u hw \<longleftrightarrow> (\<forall>h. \<exists>n. tx_ready u (reg_value hw (polls hw (UART_REG u (status_reg u)) n h) (UART_REG u (status_reg u))))"

lemma send_returns_iff:
  "(\<exists>h'. uart_send u hw c h = Some h') \<longleftrightarrow>
    (\<exists>n. tx_ready u (reg_value hw (polls hw (UART_REG u (status_reg u)) n h) (UART_REG u (status_reg u))))"
  unfolding uart_send_def spin_returns_iff [symmetric] by (auto simp: bind_eq_Some_conv)

lemma fputc_live: "live u hw \<Longrightarrow> \<exists>h'. fputc u hw c h = Some h'"
proof -
  assume "live u hw"
  then have send: "\<exists>h'. uart_send u hw c h = Some h'" for c h
    unfolding send_returns_iff live_def by blast
  obtain h1 where "uart_send u hw c h = Some h1" using send by blast
  then show ?thesis using send [of 13 h1] by (simp add: fputc_eq)
qed

lemma console_sends:
  assumes "uart_driver u" and "live u hw"
  shows "\<exists>h'. foldl (uart_console u hw) (Some h) t = Some h' \<and>
    sent u h' = sent u h @ concat (map (\<lambda>c. on_the_line (of_char c)) t)"
proof (induction t arbitrary: h)
  case (Cons c t)
  obtain h1 where h1: "fputc u hw (of_char c) h = Some h1" using fputc_live [OF assms(2)] by blast
  moreover have "sent u h1 = sent u h @ on_the_line (of_char c)"
    by (rule uart_driver.fputc_sends [OF assms(1) h1])
  ultimately show ?case using Cons.IH [of h1] by (simp add: uart_console_def)
qed simp

text \<open>For the concrete instances: every third access finds the line idle.\<close>

definition slow_hardware :: hardware where
  "slow_hardware = \<lparr>reg_value = (\<lambda>h a. if length h mod 3 = 2 then 0x20 else 0), cp_value = (\<lambda>h r. 0),
     sys_value = (\<lambda>h r. 0), call_value = (\<lambda>h f args. 0)\<rparr>"

lemma slow_live: "live tx1_uart slow_hardware"
  unfolding live_def
proof
  fix h
  have len: "length (polls hw a n h) = length h + n" for hw a n
    by (induction n) (simp_all add: snd_rd32)
  have "(length h + (2 + 2 * length h)) mod 3 = 2" by presburger
  then show "\<exists>n. tx_ready tx1_uart (reg_value slow_hardware
      (polls slow_hardware (UART_REG tx1_uart (status_reg tx1_uart)) n h) (UART_REG tx1_uart (status_reg tx1_uart)))"
    by (intro exI [of _ "2 + 2 * length h"])
      (simp only: len slow_hardware_def tx1_uart_def Let_def hardware.simps uart.simps if_True, simp add: BIT_def)
qed

section \<open>Properties\<close>



text \<open>C25: \<^verbatim>\<open>printf\<close> over any of the drivers returns if the transmitter always gets ready
  again, and the line then carries the rendered text with a carriage return after each newline.\<close>

theorem printf_over_a_uart:
  fixes args :: "'a::len word varg list"
  assumes "kernel_word TYPE('a)" and "u \<in> set uarts" and "live u hw" and "formatted fmt args = Some t"
  shows "\<exists>n h'. printf (uart_console u hw) (Some h) fmt args = Some (n, Some h') \<and>
    sent u h' = sent u h @ concat (map (\<lambda>c. on_the_line (of_char c)) t)"
  using console_sends [OF uarts_driver [OF assms(2)] assms(3), of h t]
  by (auto simp: printf_formatted [OF assms(1)] assms(4))

theorem printf_over_a_uart_witness:
  "\<exists>n h'. printf (uart_console tx1_uart slow_hardware) (Some []) (''hi'' @ [CHR 0x0A]) ([] :: 64 word varg list) = Some (n, Some h') \<and>
    sent tx1_uart h' = [0x68, 0x69, 0x0A, 0x0D]"
proof -
  have "formatted (''hi'' @ [CHR 0x0A]) ([] :: 64 word varg list) = Some (''hi'' @ [CHR 0x0A])"
    by (simp add: formatted_eval)
  moreover have "tx1_uart \<in> set uarts" by (simp add: uarts_def)
  ultimately show ?thesis
    using printf_over_a_uart [OF _ _ slow_live, of "''hi'' @ [CHR 0x0A]" "[] :: 64 word varg list" "''hi'' @ [CHR 0x0A]" "[]"]
    by (auto simp: kernel_word_def sent_def on_the_line_def)
qed

end
