(* ===== verification/Device.thy ===== *)
theory Device
  imports Machine Uart
begin

text \<open>
  Programs that work on devices: the state is the history of accesses, and the operations below
  are the accesses the C code makes. Each \<^verbatim>\<open>printf\<close> call leaves one entry with its text;
  \<^verbatim>\<open>Uart\<close> says how such a text reaches the line.
\<close>

type_synonym 'r code = "('r, history) prog"

section \<open>The operations\<close>

definition read32 :: "hardware \<Rightarrow> uint64 \<Rightarrow> uint32 code" where
  "read32 hw a = (\<lambda>h. let (v, h) = rd32 hw a h in Returns v h)"

definition write32 :: "uint64 \<Rightarrow> uint32 \<Rightarrow> unit code" where
  "write32 a v = (\<lambda>h. Returns () (wr32 a v h))"

definition update32 :: "hardware \<Rightarrow> uint64 \<Rightarrow> (uint32 \<Rightarrow> uint32) \<Rightarrow> unit code" where
  "update32 hw a f = andThen (read32 hw a) (\<lambda>v. write32 a (f v))"

definition store64 :: "uint64 \<Rightarrow> uint64 \<Rightarrow> unit code" where
  "store64 a v = (\<lambda>h. Returns () (h @ [Store a v]))"

definition read_cp :: "hardware \<Rightarrow> cpreg \<Rightarrow> uint32 code" where
  "read_cp hw r = (\<lambda>h. let (v, h) = mrc hw r h in Returns v h)"

definition write_cp :: "cpreg \<Rightarrow> uint32 \<Rightarrow> unit code" where
  "write_cp r v = (\<lambda>h. Returns () (mcr r v h))"

definition read_sys :: "hardware \<Rightarrow> string \<Rightarrow> uint64 code" where
  "read_sys hw r = (\<lambda>h. let (v, h) = mrs hw r h in Returns v h)"

definition write_sys :: "string \<Rightarrow> uint64 \<Rightarrow> unit code" where
  "write_sys r v = (\<lambda>h. Returns () (h @ [Msr r v]))"

definition instr :: "string \<Rightarrow> unit code" where
  "instr i = (\<lambda>h. Returns () (asm i h))"

definition call_fw :: "hardware \<Rightarrow> string \<Rightarrow> uint64 list \<Rightarrow> uint64 code" where
  "call_fw hw f args = (\<lambda>h. let (r, h) = firmware hw f args h in Returns r h)"

text \<open>A call whose result is not used.\<close>

definition invoke :: "hardware \<Rightarrow> string \<Rightarrow> uint64 list \<Rightarrow> unit code" where
  "invoke hw f args = andThen (call_fw hw f args) (\<lambda>_. ret ())"

definition wait_for :: "hardware \<Rightarrow> uint64 \<Rightarrow> (uint32 \<Rightarrow> bool) \<Rightarrow> unit code" where
  "wait_for hw a stop = (\<lambda>h. case spin (rd32 hw a) stop h of None \<Rightarrow> Hangs | Some h' \<Rightarrow> Returns () h')"

definition say :: "string \<Rightarrow> 'w::len word varg list \<Rightarrow> unit code" where
  "say fmt args = (\<lambda>h. case printf (\<lambda>t c. t @ [c]) [] fmt args of
     None \<Rightarrow> Undefined | Some (n, t) \<Rightarrow> Returns () (h @ [Print t]))"

text \<open>A message without arguments; the word width does not matter for it.\<close>

definition say_line :: "string \<Rightarrow> unit code" where
  "say_line t = say (line t) ([] :: uint64 varg list)"

definition abort_dev :: "'r code" where
  "abort_dev = andThen (say_line ''abort() called.'') (\<lambda>_ h. Aborts h)"

text \<open>Statements one after the other.\<close>

primrec seq :: "unit code list \<Rightarrow> unit code" where
  "seq [] = ret ()"
| "seq (p # ps) = andThen p (\<lambda>_. seq ps)"

text \<open>\<^verbatim>\<open>for (i = k; i < n; i++) body(i)\<close>\<close>

definition for_each :: "nat \<Rightarrow> nat \<Rightarrow> (nat \<Rightarrow> unit code) \<Rightarrow> unit code" where
  "for_each k n body = seq (map body [k..<n])"

text \<open>An endless loop, observed for \<open>n\<close> rounds.\<close>

primrec forever :: "nat \<Rightarrow> unit code \<Rightarrow> 'r code" where
  "forever 0 body = (\<lambda>h. Aborts h)"
| "forever (Suc n) body = andThen body (\<lambda>_. forever n body)"

section \<open>Running them\<close>

named_theorems run \<open>evaluation of device programs, one operation at a time\<close>

lemma andThen_run [run]:
  "andThen p q h = (case p h of Returns r h' \<Rightarrow> q r h' | Aborts h' \<Rightarrow> Aborts h'
     | Hangs \<Rightarrow> Hangs | Undefined \<Rightarrow> Undefined)"
  by (simp add: andThen_def)

lemma read32_run [run]: "read32 hw a h = Returns (reg_value hw h a) (h @ [Read a (reg_value hw h a)])"
  by (simp add: read32_def rd32_def Let_def)

lemma write32_run [run]: "write32 a v h = Returns () (h @ [Write a v])"
  by (simp add: write32_def wr32_def)

lemma update32_run [run]:
  "update32 hw a f h =
    Returns () (h @ [Read a (reg_value hw h a), Write a (f (reg_value hw h a))])"
  by (simp add: update32_def run)

lemma store64_run [run]: "store64 a v h = Returns () (h @ [Store a v])"
  by (simp add: store64_def)

lemma read_cp_run [run]: "read_cp hw r h = Returns (cp_value hw h r) (h @ [Mrc r (cp_value hw h r)])"
  by (simp add: read_cp_def mrc_def Let_def)

lemma write_cp_run [run]: "write_cp r v h = Returns () (h @ [Mcr r v])"
  by (simp add: write_cp_def mcr_def)

lemma read_sys_run [run]: "read_sys hw r h = Returns (sys_value hw h r) (h @ [Mrs r (sys_value hw h r)])"
  by (simp add: read_sys_def mrs_def Let_def)

lemma write_sys_run [run]: "write_sys r v h = Returns () (h @ [Msr r v])"
  by (simp add: write_sys_def)

lemma instr_run [run]: "instr i h = Returns () (h @ [Asm i])"
  by (simp add: instr_def asm_def)

lemma call_fw_run [run]:
  "call_fw hw f args h = Returns (call_value hw h f args) (h @ [Call f args (call_value hw h f args)])"
  by (simp add: call_fw_def firmware_def Let_def)

lemma invoke_run [run]: "invoke hw f args h = Returns () (h @ [Call f args (call_value hw h f args)])"
  by (simp add: invoke_def run ret_def)

lemma ret_run [run]: "ret r h = Returns r h"
  by (simp add: ret_def)

lemma foldl_snoc: "foldl (\<lambda>t c. t @ [c]) s t = s @ t"
  by (induction t arbitrary: s) simp_all

lemma say_run:
  fixes args :: "'w::len word varg list"
  shows "kernel_word TYPE('w) \<Longrightarrow>
    say fmt args h = (case formatted fmt args of None \<Rightarrow> Undefined | Some t \<Rightarrow> Returns () (h @ [Print t]))"
  by (cases "formatted fmt args") (simp_all add: say_def printf_formatted foldl_snoc)

text \<open>A text without a percent sign is printed as it stands.\<close>

lemma formatted_plain: "CHR ''%'' \<notin> set t \<Longrightarrow> formatted t args = Some t"
proof -
  have "CHR ''%'' \<notin> set t \<Longrightarrow> read_format False t = Some (map Lit t)"
    by (induction t) (auto simp: read_format.simps(2))
  moreover have "render (map Lit t) args = Some t" by (induction t) simp_all
  ultimately show "CHR ''%'' \<notin> set t \<Longrightarrow> formatted t args = Some t" by (simp add: formatted_def)
qed

lemma say_line_run [run]: "CHR ''%'' \<notin> set t \<Longrightarrow> say_line t h = Returns () (h @ [Print (line t)])"
  by (simp add: say_line_def say_run kernel_word_def formatted_plain line_def)

lemma abort_dev_run [run]: "abort_dev h = Aborts (h @ [Print (line ''abort() called.'')])"
  by (simp add: abort_dev_def run)

lemma andThen_ret: "andThen p (\<lambda>_. ret ()) = (p :: unit code)"
  by (auto simp: fun_eq_iff run split: outcome.split)

lemma seq_append: "seq (ps @ qs) = andThen (seq ps) (\<lambda>_. seq qs)"
  by (induction ps) (auto simp: fun_eq_iff run split: outcome.split)

lemma for_each_Suc: "k \<le> n \<Longrightarrow> for_each k (Suc n) body = andThen (for_each k n body) (\<lambda>_. body n)"
  by (auto simp: for_each_def seq_append fun_eq_iff run split: outcome.split)

lemma for_each_empty [simp]: "n \<le> k \<Longrightarrow> for_each k n body = ret ()"
  by (simp add: for_each_def)

section \<open>Views of a history\<close>

text \<open>The text on the console, and the writes to device registers.\<close>

fun printed :: "history \<Rightarrow> string" where
  "printed [] = []"
| "printed (Print t # h) = t @ printed h"
| "printed (_ # h) = printed h"

fun writes :: "history \<Rightarrow> (uint64 \<times> uint32) list" where
  "writes [] = []"
| "writes (Write a v # h) = (a, v) # writes h"
| "writes (_ # h) = writes h"

lemma printed_append [simp]: "printed (g @ h) = printed g @ printed h"
  by (induction g rule: printed.induct) simp_all

lemma writes_append [simp]: "writes (g @ h) = writes g @ writes h"
  by (induction g rule: writes.induct) simp_all

text \<open>A loop whose rounds each add a fixed piece to the history.\<close>

lemma for_each_adds:
  assumes "\<And>i h. k \<le> i \<Longrightarrow> i < n \<Longrightarrow> body i h = Returns () (h @ piece i)"
  shows "for_each k n body h = Returns () (h @ concat (map piece [k..<n]))"
proof (cases "k \<le> n")
  case True
  then show ?thesis using assms
  proof (induction n rule: dec_induct)
    case base
    then show ?case by (simp add: run)
  next
    case (step m)
    then show ?case by (simp add: for_each_Suc run)
  qed
qed (simp add: run)

lemma wait_for_returns:
  "(\<exists>h'. wait_for hw a stop h = Returns () h') \<longleftrightarrow> (\<exists>n. stop (reg_value hw (polls hw a n h) a))"
  unfolding spin_returns_iff [symmetric] by (auto simp: wait_for_def split: option.split)

end
