(* ===== verification/Sbi.thy ===== *)
theory Sbi
  imports Device Hash
begin

text \<open>
  The supervisor binary interface of RISC-V, src/plat/spike/sbi.h, and the console of spike, which
  prints through it. The registers have the width of the platform's words; what the firmware
  does is the hardware parameter.
\<close>

section \<open>The code\<close>

definition SBI_SET_TIMER :: uint64 where "SBI_SET_TIMER = 0"
definition SBI_CONSOLE_PUTCHAR :: uint64 where "SBI_CONSOLE_PUTCHAR = 1"
definition SBI_CONSOLE_GETCHAR :: uint64 where "SBI_CONSOLE_GETCHAR = 2"
definition SBI_CLEAR_IPI :: uint64 where "SBI_CLEAR_IPI = 3"
definition SBI_SEND_IPI :: uint64 where "SBI_SEND_IPI = 4"
definition SBI_REMOTE_FENCE_I :: uint64 where "SBI_REMOTE_FENCE_I = 5"
definition SBI_REMOTE_SFENCE_VMA :: uint64 where "SBI_REMOTE_SFENCE_VMA = 6"
definition SBI_REMOTE_SFENCE_VMA_ASID :: uint64 where "SBI_REMOTE_SFENCE_VMA_ASID = 7"
definition SBI_SHUTDOWN :: uint64 where "SBI_SHUTDOWN = 8"

definition uintptr :: "'a::len itself \<Rightarrow> uint64 \<Rightarrow> uint64" where
  "uintptr w x = ucast (ucast x :: 'a word)"

text \<open>The arguments are the registers a7, a0, a1 and a2.\<close>

definition SBI_CALL :: "'a::len itself \<Rightarrow> hardware \<Rightarrow> uint64 \<Rightarrow> uint64 \<Rightarrow> uint64 \<Rightarrow> uint64 \<Rightarrow> uint64 code" where
  "SBI_CALL w hw which arg0 arg1 arg2 =
     andThen (call_fw hw ''ecall'' (map (uintptr w) [which, arg0, arg1, arg2])) (\<lambda>a0. ret (uintptr w a0))"

definition SBI_CALL_0 :: "'a::len itself \<Rightarrow> hardware \<Rightarrow> uint64 \<Rightarrow> uint64 code" where
  "SBI_CALL_0 w hw which = SBI_CALL w hw which 0 0 0"

definition SBI_CALL_1 :: "'a::len itself \<Rightarrow> hardware \<Rightarrow> uint64 \<Rightarrow> uint64 \<Rightarrow> uint64 code" where
  "SBI_CALL_1 w hw which arg0 = SBI_CALL w hw which arg0 0 0"

definition SBI_CALL_2 :: "'a::len itself \<Rightarrow> hardware \<Rightarrow> uint64 \<Rightarrow> uint64 \<Rightarrow> uint64 \<Rightarrow> uint64 code" where
  "SBI_CALL_2 w hw which arg0 arg1 = SBI_CALL w hw which arg0 arg1 0"

definition drop_result :: "'r code \<Rightarrow> unit code" where
  "drop_result p = andThen p (\<lambda>_. ret ())"

definition sbi_console_putchar :: "'a::len itself \<Rightarrow> hardware \<Rightarrow> uint32 \<Rightarrow> unit code" where
  "sbi_console_putchar w hw ch = drop_result (SBI_CALL_1 w hw SBI_CONSOLE_PUTCHAR (scast ch))"

definition sbi_console_getchar :: "'a::len itself \<Rightarrow> hardware \<Rightarrow> uint32 code" where
  "sbi_console_getchar w hw = andThen (SBI_CALL_0 w hw SBI_CONSOLE_GETCHAR) (\<lambda>r. ret (ucast r))"

definition sbi_set_timer :: "'a::len itself \<Rightarrow> hardware \<Rightarrow> uint64 \<Rightarrow> unit code" where
  "sbi_set_timer w hw stime_value = drop_result
     (if LENGTH('a) = 32 then SBI_CALL_2 w hw SBI_SET_TIMER stime_value (drop_bit 32 stime_value)
      else SBI_CALL_1 w hw SBI_SET_TIMER stime_value)"

definition sbi_shutdown :: "'a::len itself \<Rightarrow> hardware \<Rightarrow> unit code" where
  "sbi_shutdown w hw = drop_result (SBI_CALL_0 w hw SBI_SHUTDOWN)"

definition sbi_clear_ipi :: "'a::len itself \<Rightarrow> hardware \<Rightarrow> unit code" where
  "sbi_clear_ipi w hw = drop_result (SBI_CALL_0 w hw SBI_CLEAR_IPI)"

definition sbi_send_ipi :: "'a::len itself \<Rightarrow> hardware \<Rightarrow> uint64 \<Rightarrow> unit code" where
  "sbi_send_ipi w hw hart_mask = drop_result (SBI_CALL_1 w hw SBI_SEND_IPI hart_mask)"

definition sbi_remote_fence_i :: "'a::len itself \<Rightarrow> hardware \<Rightarrow> uint64 \<Rightarrow> unit code" where
  "sbi_remote_fence_i w hw hart_mask = drop_result (SBI_CALL_1 w hw SBI_REMOTE_FENCE_I hart_mask)"

definition sbi_remote_sfence_vma :: "'a::len itself \<Rightarrow> hardware \<Rightarrow> uint64 \<Rightarrow> uint64 \<Rightarrow> uint64 \<Rightarrow> unit code" where
  "sbi_remote_sfence_vma w hw hart_mask start sz = drop_result (SBI_CALL_1 w hw SBI_REMOTE_SFENCE_VMA hart_mask)"

definition sbi_remote_sfence_vma_asid ::
    "'a::len itself \<Rightarrow> hardware \<Rightarrow> uint64 \<Rightarrow> uint64 \<Rightarrow> uint64 \<Rightarrow> uint64 \<Rightarrow> unit code" where
  "sbi_remote_sfence_vma_asid w hw hart_mask start sz asid =
     drop_result (SBI_CALL_1 w hw SBI_REMOTE_SFENCE_VMA_ASID hart_mask)"

text \<open>src/plat/spike/sys_fputc.c\<close>

definition spike_fputc :: "'a::len itself \<Rightarrow> hardware \<Rightarrow> uint32 \<Rightarrow> uint32 code" where
  "spike_fputc w hw c = andThen (sbi_console_putchar w hw c) (\<lambda>_. ret 0)"

section \<open>What reaches the firmware\<close>

lemma SBI_CALL_run:
  "SBI_CALL w hw which arg0 arg1 arg2 g =
    (let args = map (uintptr w) [which, arg0, arg1, arg2]; r = call_value hw g ''ecall'' args
     in Returns (uintptr w r) (g @ [Call ''ecall'' args r]))"
  by (simp add: SBI_CALL_def run Let_def)

lemmas sbi_calls = SBI_CALL_0_def SBI_CALL_1_def SBI_CALL_2_def SBI_CALL_run drop_result_def

lemma uintptr_take: "uintptr TYPE('a::len) x = take_bit LENGTH('a) x"
  by (rule bit_word_eqI) (simp add: uintptr_def bit_simps)

lemma uintptr_small: "unat x < 2 ^ LENGTH('a) \<Longrightarrow> uintptr TYPE('a::len) x = x"
  by (simp add: uintptr_take word_unat_eq_iff unsigned_take_bit_eq take_bit_nat_eq_self)

text \<open>A timer value of 64 bits arrives whole on both kinds of platform: on a 32-bit one the two
  registers hold its halves.\<close>

lemma sbi_set_timer_whole:
  assumes "kernel_word TYPE('a::len)"
  shows "\<exists>lo hi r. sbi_set_timer TYPE('a) hw t g = Returns () (g @ [Call ''ecall'' [0, lo, hi, 0] r]) \<and>
    unat t = unat lo + 2 ^ LENGTH('a) * unat hi \<and> unat lo < 2 ^ LENGTH('a)"
proof (cases "LENGTH('a) = 32")
  case True
  have "unat (drop_bit 32 t) < 2 ^ 32"
    using unat_lt2p [of t] by (simp add: drop_bit_eq_div unat_div)
  moreover have "unat t = unat (uintptr TYPE('a) t) + 2 ^ 32 * unat (drop_bit 32 t)"
    by (simp add: uintptr_take True unsigned_take_bit_eq take_bit_eq_mod drop_bit_eq_div unat_div unat_mod)
  moreover have "unat (uintptr TYPE('a) t) < 2 ^ 32"
    using take_bit_nat_less_exp [of 32 "unat t"] by (simp add: uintptr_take True unsigned_take_bit_eq)
  ultimately show ?thesis using True uintptr_small [where 'a = 'a, of 0]
    by (simp add: sbi_set_timer_def sbi_calls andThen_run ret_run Let_def SBI_SET_TIMER_def uintptr_small)
next
  case False
  then have "LENGTH('a) = 64" using assms by (simp add: kernel_word_def)
  moreover then have "uintptr TYPE('a) x = x" for x
    using unat_lt2p [of x] by (intro uintptr_small) simp
  ultimately show ?thesis using False unat_lt2p [of t]
    by (simp add: sbi_set_timer_def sbi_calls andThen_run ret_run Let_def SBI_SET_TIMER_def)
qed

text \<open>One character is one call, with the character's code; newlines are not translated.\<close>

lemma spike_fputc_byte:
  assumes "kernel_word TYPE('a::len)"
  shows "\<exists>r. spike_fputc TYPE('a) hw (ucast (b :: byte)) g = Returns 0 (g @ [Call ''ecall'' [1, ucast b, 0, 0] r])"
proof -
  have "scast (ucast b :: uint32) = (ucast b :: uint64)"
    using scast_ucast_byte [where 'a = 64, of b] unat_lt2p [of b]
    by (simp add: word_unat_eq_iff kernel_word_def unsigned_ucast_eq take_bit_nat_eq_self)
  moreover have "uintptr TYPE('a) (ucast b) = ucast b"
    using assms unat_lt2p [of b] by (intro uintptr_small) (auto simp: kernel_word_def unsigned_ucast_eq take_bit_nat_eq_self)
  moreover have "uintptr TYPE('a) 1 = 1" "uintptr TYPE('a) 0 = 0"
    using assms by (auto intro!: uintptr_small simp: kernel_word_def)
  ultimately show ?thesis
    by (simp add: spike_fputc_def sbi_console_putchar_def sbi_calls andThen_run ret_run Let_def SBI_CONSOLE_PUTCHAR_def)
qed

end
