(* ===== verification/Tables.thy ===== *)
theory Tables
  imports Prelude "HOL-Library.Monad_Syntax"
begin

text \<open>
  What the page-table code of the three architectures shares: stores into a C array, counting
  loops over one, and the arithmetic of aligned words. A store outside an array is undefined in C;
  it makes the run \<open>None\<close>, so a result is a proof that the code stays inside its tables.
\<close>

definition store_at :: "nat \<Rightarrow> 'e \<Rightarrow> 'e list \<Rightarrow> 'e list option" where
  "store_at i v xs = (if i < length xs then Some (xs[i := v]) else None)"

text \<open>\<^verbatim>\<open>for (i = k; i < n; i++) body\<close>; the bounds fit the counter's type.\<close>

function for_up :: "nat \<Rightarrow> nat \<Rightarrow> (nat \<Rightarrow> 's \<Rightarrow> 's option) \<Rightarrow> 's \<Rightarrow> 's option" where
  "for_up k n body s = (if k < n then Option.bind (body k s) (for_up (k + 1) n body) else Some s)"
  by pat_completeness auto
termination by (relation "measure (\<lambda>(k, n, _). n - k)") auto

declare for_up.simps [simp del]

text \<open>The array after \<^verbatim>\<open>for (i = k; i < n; i++) xs[b + i] = f(i)\<close>.\<close>

definition fill :: "nat \<Rightarrow> nat \<Rightarrow> nat \<Rightarrow> (nat \<Rightarrow> 'e) \<Rightarrow> 'e list \<Rightarrow> 'e list" where
  "fill b k n f xs = map (\<lambda>j. if b + k \<le> j \<and> j < b + n then f (j - b) else xs ! j) [0..<length xs]"

lemma length_fill [simp]: "length (fill b k n f xs) = length xs"
  by (simp add: fill_def)

lemma nth_fill: "j < length xs \<Longrightarrow> fill b k n f xs ! j = (if b + k \<le> j \<and> j < b + n then f (j - b) else xs ! j)"
  by (simp add: fill_def)

lemma for_up_fill:
  assumes "\<And>i xs. k \<le> i \<Longrightarrow> i < n \<Longrightarrow> body i xs = store_at (b + i) (f i) xs" and "b + n \<le> length xs"
  shows "for_up k n body xs = Some (fill b k n f xs)"
  using assms
proof (induction "n - k" arbitrary: k xs)
  case 0
  then have "fill b k n f xs = xs" by (intro nth_equalityI) (auto simp: nth_fill)
  with 0 show ?case by (simp add: for_up.simps [of k])
next
  case (Suc d)
  then have k: "k < n" by simp
  from Suc have "fill b (k + 1) n f (xs[b + k := f k]) = fill b k n f xs"
    by (intro nth_equalityI) (auto simp: nth_fill nth_list_update)
  moreover have "for_up (k + 1) n body (xs[b + k := f k]) = Some (fill b (k + 1) n f (xs[b + k := f k]))"
    using Suc.prems Suc.hyps(2) by (intro Suc.hyps(1)) auto
  ultimately show ?case
    using k Suc.prems by (simp add: for_up.simps [of k] store_at_def)
qed

text \<open>Block sizes of the two ARM ports.\<close>

abbreviation (input) ARM_SECTION_BITS :: nat where "ARM_SECTION_BITS \<equiv> 20"
abbreviation (input) ARM_1GB_BLOCK_BITS :: nat where "ARM_1GB_BLOCK_BITS \<equiv> 30"
abbreviation (input) ARM_2MB_BLOCK_BITS :: nat where "ARM_2MB_BLOCK_BITS \<equiv> 21"

section \<open>Aligned words\<close>

definition aligned :: "nat \<Rightarrow> 'b::len word \<Rightarrow> bool" where
  "aligned n x \<longleftrightarrow> take_bit n x = 0"

lemma take_bit_small: "unat (x :: 'b::len word) < 2 ^ n \<Longrightarrow> take_bit n x = x"
  by (simp add: word_unat_eq_iff unsigned_take_bit_eq take_bit_nat_eq_self)

lemma aligned_push [simp]: "aligned n (push_bit n x)"
  by (simp add: aligned_def take_bit_push_bit)

lemma aligned_mono: "aligned n x \<Longrightarrow> m \<le> n \<Longrightarrow> aligned m x"
  unfolding aligned_def by (metis min.absorb1 take_bit_of_0 take_bit_take_bit)

lemma push_drop: "push_bit n (drop_bit n x) = x - take_bit n (x :: 'b::len word)"
  using bits_ident [of n x] by (metis add_diff_cancel)

lemma aligned_drop: "aligned n x \<Longrightarrow> push_bit n (drop_bit n x) = (x :: 'b::len word)"
  by (simp add: push_drop aligned_def)

lemma aligned_add: "aligned n x \<Longrightarrow> aligned n y \<Longrightarrow> aligned n (x + y :: 'b::len word)"
proof -
  assume "aligned n x" and "aligned n y"
  then have "x + y = push_bit n (drop_bit n x + drop_bit n y)"
    by (simp add: push_bit_add aligned_drop)
  then show ?thesis by simp
qed

lemma aligned_minus: "aligned n x \<Longrightarrow> aligned n y \<Longrightarrow> aligned n (x - y :: 'b::len word)"
proof -
  assume "aligned n x" and "aligned n y"
  then have "x - y = push_bit n (drop_bit n x - drop_bit n y)"
    by (simp add: push_bit_eq_mult left_diff_distrib) (simp add: aligned_drop flip: push_bit_eq_mult)
  then show ?thesis by simp
qed

lemma aligned_or: "aligned n x \<Longrightarrow> x OR take_bit n y = x + take_bit n (y :: 'b::len word)"
proof -
  assume "aligned n x"
  then have "\<not> bit x m" if "m < n" for m
    using that bit_take_bit_iff [of n x m] by (simp add: aligned_def)
  then have "x + take_bit n y = x OR take_bit n y"
    by (intro disjunctive_add) (auto simp: bit_simps)
  then show ?thesis by (rule sym)
qed

lemma descriptor_fields:
  fixes x :: "'b::len word"
  assumes "aligned n x" and "m \<le> n"
  shows "take_bit m (x OR c) = take_bit m c" and "push_bit n (drop_bit n (x OR c)) = x OR push_bit n (drop_bit n c)"
  using aligned_mono [OF assms] aligned_drop [OF assms(1)]
  by (simp_all add: aligned_def push_bit_or)

lemma unat_drop_bit: "unat (drop_bit n (x :: 'b::len word)) = unat x div 2 ^ n"
  by (simp add: unsigned_drop_bit_eq take_bit_nat_eq_self unat_lt2p order_le_less_trans [OF div_le_dividend]
      drop_bit_eq_div [of n "unat x"])

lemma aligned_dvd: "aligned n (x :: 'b::len word) \<longleftrightarrow> 2 ^ n dvd unat x"
  using IS_ALIGNED_iff_dvd [of x n] by (simp add: aligned_def IS_ALIGNED_def MASK_eq_mask take_bit_eq_mask)

lemma below_aligned:
  fixes v :: "'b::len word"
  assumes "aligned b v"
  shows "va < v \<longleftrightarrow> unat (drop_bit b va) < unat (drop_bit b v)"
proof -
  obtain k where k: "unat v = 2 ^ b * k" using assms unfolding aligned_dvd by blast
  have "unat va div 2 ^ b < k \<longleftrightarrow> unat va < 2 ^ b * k"
    by (simp add: less_mult_imp_div_less mult.commute div_less_iff_less_mult)
  then show ?thesis by (simp add: word_less_nat_alt unat_drop_bit k)
qed

section \<open>Windows of 2 MB blocks\<close>

lemma mid_bits: "push_bit 21 (take_bit 9 (drop_bit 21 va)) + take_bit 21 va = take_bit 30 (va :: uint64)"
proof -
  have "push_bit 21 (take_bit 9 (drop_bit 21 va)) OR take_bit 21 va = take_bit 30 va"
    by (rule bit_eqI) (auto simp: bit_simps)
  then show ?thesis by (simp add: aligned_or)
qed

text \<open>Within a gigabyte, addresses are ordered by their last index.\<close>

lemma window_order:
  fixes fv va :: uint64
  assumes "aligned 21 fv" and "drop_bit 30 va = drop_bit 30 fv"
  shows "fv \<le> va \<longleftrightarrow> unat (take_bit 9 (drop_bit 21 fv)) \<le> unat (take_bit 9 (drop_bit 21 va))"
proof -
  have "unat (drop_bit 21 z) = 512 * unat (drop_bit 30 z) + unat (take_bit 9 (drop_bit 21 z))" for z :: uint64
    using div_mult_mod_eq [of "unat z div 2 ^ 21" 512]
    by (simp add: unat_drop_bit unsigned_take_bit_eq take_bit_eq_mod [of _ "_ div _"]
        div_mult2_eq [of _ "2 ^ 21" 512, simplified])
  then show ?thesis
    using below_aligned [OF assms(1), of va] assms(2) by (simp add: not_less [symmetric])
qed

lemma window_offset:
  fixes fv va :: uint64
  assumes "aligned 21 fv" and "drop_bit 30 va = drop_bit 30 fv"
    and "unat (take_bit 9 (drop_bit 21 fv)) \<le> unat (take_bit 9 (drop_bit 21 va))"
  shows "push_bit 21 (of_nat (unat (take_bit 9 (drop_bit 21 va)) - unat (take_bit 9 (drop_bit 21 fv)))) + fp + take_bit 21 va = va - fv + fp"
proof -
  have "of_nat (unat (take_bit 9 (drop_bit 21 va)) - unat (take_bit 9 (drop_bit 21 fv))) = take_bit 9 (drop_bit 21 va) - take_bit 9 (drop_bit 21 fv)"
    using assms(3) by (simp add: of_nat_diff)
  moreover have "push_bit 21 (x - y) = push_bit 21 x - push_bit 21 y" for x y :: uint64
    by (simp add: push_bit_eq_mult left_diff_distrib)
  moreover have "va = push_bit 30 (drop_bit 30 va) + take_bit 30 va" "fv = push_bit 30 (drop_bit 30 va) + take_bit 30 fv"
    using bits_ident [of 30 va] bits_ident [of 30 fv] assms(2) by simp_all
  then have "va - fv = take_bit 30 va - take_bit 30 fv" by (metis add_diff_cancel_left)
  moreover have "take_bit 21 fv = 0" using assms(1) by (simp add: aligned_def)
  ultimately show ?thesis
    using mid_bits [of va] mid_bits [of fv] by simp
qed

end
