(* ===== verification/Kernel_Window.thy ===== *)
theory Kernel_Window
  imports Tables Loader
begin

text \<open>
  The contract between the boot page tables and the code that relies on them: the address space
  that is switched on before the jump to the kernel maps the kernel's window to where the image
  was loaded, and maps the loader, which runs on for a few instructions, to itself. Each of the
  five ways the ports build their tables provides it.
\<close>

text \<open>The byte a program sees at a virtual address.\<close>

definition sees :: "('a::len word \<Rightarrow> 'p::len word option) \<Rightarrow> 'a mem \<Rightarrow> 'a word \<Rightarrow> byte option" where
  "sees tr m va = map_option (\<lambda>pa. m (ucast pa)) (tr va)"

text \<open>The bytes from \<open>v\<close> on, as far as they lie in the window; the bytes of a set of addresses.\<close>

definition sees_bytes :: "('a::len word \<Rightarrow> byte option) \<Rightarrow> 'a word set \<Rightarrow> 'a word \<Rightarrow> byte list \<Rightarrow> bool" where
  "sees_bytes view w v bs \<longleftrightarrow> (\<forall>j < length bs. v + of_nat j \<in> w \<longrightarrow> view (v + of_nat j) = Some (bs ! j))"

definition sees_same :: "('a::len word \<Rightarrow> byte option) \<Rightarrow> 'a mem \<Rightarrow> 'a word set \<Rightarrow> bool" where
  "sees_same view m r \<longleftrightarrow> (\<forall>va \<in> r. view va = Some (m va))"

locale kernel_window =
  fixes build :: "'a::len word image_info \<Rightarrow> 't option"
    and translate :: "'t \<Rightarrow> 'a word \<Rightarrow> 'p::len word option"
    and mappable :: "'a word image_info \<Rightarrow> bool"
    and window :: "'a word image_info \<Rightarrow> 'a word set"
    and identity :: "'a word image_info \<Rightarrow> 'a word set"
  assumes builds: "mappable info \<Longrightarrow> \<exists>t. build info = Some t"
    and maps_window: "mappable info \<Longrightarrow> build info = Some t \<Longrightarrow> va \<in> window info \<Longrightarrow>
      \<exists>pa. translate t va = Some pa \<and> ucast pa = va - virt_region_start info + phys_region_start info"
    and maps_identity: "mappable info \<Longrightarrow> build info = Some t \<Longrightarrow> va \<in> identity info \<Longrightarrow>
      \<exists>pa. translate t va = Some pa \<and> ucast pa = va"
begin

lemma sees_image:
  assumes ok: "mappable info" and t: "build info = Some t"
    and m: "mem_bytes m (phys_region_start info) n = bs" and j: "j < n"
    and w: "virt_region_start info + of_nat j \<in> window info"
  shows "sees (translate t) m (virt_region_start info + of_nat j) = Some (bs ! j)"
proof -
  obtain pa where pa: "translate t (virt_region_start info + of_nat j) = Some pa"
    and "ucast pa = virt_region_start info + of_nat j - virt_region_start info + phys_region_start info"
    using maps_window [OF ok t w] by blast
  then have "ucast pa = phys_region_start info + of_nat j" by simp
  moreover have "bs ! j = m (phys_region_start info + of_nat j)" using m j by auto
  ultimately show ?thesis using pa by (simp add: sees_def)
qed

lemma sees_itself:
  assumes ok: "mappable info" and t: "build info = Some t" and va: "va \<in> identity info"
  shows "sees (translate t) m va = Some (m va)"
  using maps_identity [OF ok t va] by (auto simp: sees_def)

text \<open>With an image in its place and the loader unchanged, both are where the code expects them.\<close>

lemma kernel_and_loader_seen:
  assumes ok: "mappable info" and t: "build info = Some t"
    and m: "mem_bytes m (phys_region_start info) (length bs) = bs" and same: "agree_on m0 m r"
  shows "sees_bytes (sees (translate t) m) (window info) (virt_region_start info) bs"
    and "sees_same (sees (translate t) m) m0 (r \<inter> identity info)"
  using sees_image [OF ok t m] sees_itself [OF ok t] same
  by (auto simp: sees_bytes_def sees_same_def agree_on_def)

end

end
