(* ===== verification/Mmu32.thy ===== *)
theory Mmu32
  imports Kernel_Window
begin

text \<open>
  src/arch-arm/32/mmu.c and structures.c: the boot page tables of the 32-bit ARM ports, and the
  translation the hardware makes from them. Link addresses are parameters.
\<close>

section \<open>The code\<close>

definition PD_BITS :: nat where "PD_BITS = 12"
definition PT_BITS :: nat where "PT_BITS = 8"
definition HYP_PGD_BITS :: nat where "HYP_PGD_BITS = 2"
definition HYP_PMD_BITS :: nat where "HYP_PMD_BITS = 9"

definition GET_PT_INDEX :: "uint32 \<Rightarrow> uint32" where
  "GET_PT_INDEX x = drop_bit PAGE_BITS x AND MASK PT_BITS"

record tables32 =
  boot_pd :: "uint32 list"
  boot_pt :: "uint32 list"
  lpae_boot_pgd :: "uint64 list"
  lpae_boot_pmd :: "uint64 list"

text \<open>Uninitialised data is zero.\<close>

definition bss_tables32 :: tables32 where
  "bss_tables32 = \<lparr>boot_pd = replicate (2 ^ PD_BITS) 0, boot_pt = replicate (2 ^ PT_BITS) 0,
     lpae_boot_pgd = replicate (2 ^ HYP_PGD_BITS) 0, lpae_boot_pmd = replicate (2 ^ (HYP_PGD_BITS + HYP_PMD_BITS)) 0\<rparr>"

record links32 =
  boot_pt_addr :: uint32
  arm_vector_table :: uint32
  lpae_boot_pmd_addr :: uint32

definition ARM_VECTOR_TABLE :: uint32 where "ARM_VECTOR_TABLE = 0xffff0000"

definition init_boot_vspace32 :: "links32 \<Rightarrow> uint32 image_info \<Rightarrow> tables32 \<Rightarrow> tables32 option" where
  "init_boot_vspace32 l kernel_info t = do {
     let first_vaddr = virt_region_start kernel_info;
     let first_paddr = phys_region_start kernel_info;
     pd \<leftarrow> for_up 0 (unat (drop_bit ARM_SECTION_BITS first_vaddr))
       (\<lambda>i. store_at i (push_bit ARM_SECTION_BITS (of_nat i) OR BIT 10 OR BIT 1)) (boot_pd t);
     let n = drop_bit ARM_SECTION_BITS (- first_vaddr) - 1;
     pd \<leftarrow> for_up 0 (unat n)
       (\<lambda>i. store_at (unat (of_nat i + drop_bit ARM_SECTION_BITS first_vaddr))
          ((push_bit ARM_SECTION_BITS (of_nat i) + first_paddr) OR BIT 10 OR BIT 1)) pd;
     pd \<leftarrow> store_at (unat (n + drop_bit ARM_SECTION_BITS first_vaddr)) (boot_pt_addr l OR BIT 9 OR BIT 0) pd;
     pt \<leftarrow> store_at (unat (GET_PT_INDEX ARM_VECTOR_TABLE)) (arm_vector_table l OR BIT 4 OR BIT 1) (boot_pt t);
     Some (t\<lparr>boot_pd := pd, boot_pt := pt\<rparr>)
   }"

definition init_hyp_boot_vspace32 :: "links32 \<Rightarrow> uint32 image_info \<Rightarrow> tables32 \<Rightarrow> tables32 option" where
  "init_hyp_boot_vspace32 l kernel_info t = do {
     let first_vaddr = virt_region_start kernel_info;
     let first_paddr = phys_region_start kernel_info;
     pgd \<leftarrow> for_up 0 4
       (\<lambda>i. store_at i (ucast ((lpae_boot_pmd_addr l + push_bit PAGE_BITS (of_nat i)) OR BIT 1 OR BIT 0)))
       (lpae_boot_pgd t);
     let n = unat (drop_bit ARM_2MB_BLOCK_BITS first_vaddr);
     pmd \<leftarrow> for_up 0 n
       (\<lambda>i. store_at i (ucast (push_bit ARM_2MB_BLOCK_BITS (of_nat i) OR BIT 10 OR BIT 0 :: uint32)))
       (lpae_boot_pmd t);
     pmd \<leftarrow> for_up 0 (unat (drop_bit ARM_2MB_BLOCK_BITS (- first_vaddr)))
       (\<lambda>k. store_at (n + k)
          (ucast ((push_bit ARM_2MB_BLOCK_BITS (of_nat k) + first_paddr) OR BIT 10 OR BIT 0 :: uint32))) pmd;
     Some (t\<lparr>lpae_boot_pgd := pgd, lpae_boot_pmd := pmd\<rparr>)
   }"

section \<open>The translation the hardware makes\<close>

text \<open>Short descriptors: a section, or a page table whose entries are 4K pages. Only the page
  table at \<^verbatim>\<open>_boot_pt\<close> exists.\<close>

definition translate_sv :: "links32 \<Rightarrow> tables32 \<Rightarrow> uint32 \<Rightarrow> uint32 option" where
  "translate_sv l t va =
     (let d = boot_pd t ! unat (drop_bit 20 va)
      in if take_bit 2 d = 2 then Some (push_bit 20 (drop_bit 20 d) OR take_bit 20 va)
         else if take_bit 2 d = 1 \<and> push_bit 10 (drop_bit 10 d) = boot_pt_addr l then
           (let e = boot_pt t ! unat (take_bit 8 (drop_bit 12 va))
            in if bit e 1 then Some (push_bit 12 (drop_bit 12 e) OR take_bit 12 va) else None)
         else None)"

text \<open>Long descriptors: four first-level entries for 1 GB each, and 2 MB blocks below them.\<close>

definition translate_hyp :: "links32 \<Rightarrow> tables32 \<Rightarrow> uint32 \<Rightarrow> uint64 option" where
  "translate_hyp l t va =
     (let d = lpae_boot_pgd t ! unat (drop_bit 30 va);
          entry = push_bit 12 (drop_bit 12 d) + push_bit 3 (ucast (take_bit 9 (drop_bit 21 va)));
          i = unat (drop_bit 3 (entry - ucast (lpae_boot_pmd_addr l)))
      in if take_bit 2 d = 3 \<and> i < length (lpae_boot_pmd t) then
           (let e = lpae_boot_pmd t ! i
            in if take_bit 2 e = 1 then Some (push_bit 21 (drop_bit 21 e) OR ucast (take_bit 21 va)) else None)
         else None)"

section \<open>Indices and descriptors\<close>

text \<open>The first index of the kernel window and the number of entries from it to the end.\<close>

lemma window_indices:
  fixes v :: uint32
  assumes "aligned b v" and "v \<noteq> 0" and "b < 32"
  shows "unat (drop_bit b v) + unat (drop_bit b (- v)) = 2 ^ (32 - b)"
    and "0 < unat (drop_bit b v)" and "0 < unat (drop_bit b (- v))"
proof -
  obtain k where k: "unat v = 2 ^ b * k" using assms(1) unfolding aligned_dvd by blast
  have pow: "(2 :: nat) ^ 32 = 2 ^ b * 2 ^ (32 - b)" using assms(3) by (simp flip: power_add)
  have "0 < unat v" using assms(2) by (simp add: unat_gt_0)
  then have k0: "0 < k" using k by simp
  have m: "unat (- v) = 2 ^ b * (2 ^ (32 - b) - k)"
    using assms(2) k k0 pow unat_sub_if' [of 0 v] by (simp add: diff_mult_distrib2)
  have kmax: "k < 2 ^ (32 - b)"
  proof -
    have "2 ^ b * k < 2 ^ b * 2 ^ (32 - b)" using unat_lt2p [of v] unfolding k pow [symmetric] by simp
    then show ?thesis by simp
  qed
  show "unat (drop_bit b v) + unat (drop_bit b (- v)) = 2 ^ (32 - b)" "0 < unat (drop_bit b v)"
    "0 < unat (drop_bit b (- v))"
    using k0 kmax by (simp_all add: unat_drop_bit k m)
qed

lemma section_entry:
  fixes x :: uint32
  assumes "aligned 20 x"
  shows "take_bit 2 (x OR BIT 10 OR BIT 1) = 2" and "push_bit 20 (drop_bit 20 (x OR BIT 10 OR BIT 1)) = x"
  using descriptor_fields [OF assms, of 2 "BIT 10 OR BIT 1"] descriptor_fields [OF assms, of 20 "BIT 10 OR BIT 1"]
  by (simp_all add: BIT_def or.assoc)

lemma block_entry:
  fixes x :: uint32
  assumes "aligned 21 x"
  shows "take_bit 2 (ucast (x OR BIT 10 OR BIT 0) :: uint64) = 1"
    and "push_bit 21 (drop_bit 21 (ucast (x OR BIT 10 OR BIT 0) :: uint64)) = ucast x"
proof -
  have u: "(ucast (x OR BIT 10 OR BIT 0) :: uint64) = ucast x OR 0x401"
    by (simp add: unsigned_or_eq BIT_def or.assoc)
  have "aligned 21 (ucast x :: uint64)"
    using assms by (simp add: aligned_def flip: unsigned_take_bit_eq)
  then show "take_bit 2 (ucast (x OR BIT 10 OR BIT 0) :: uint64) = 1"
    "push_bit 21 (drop_bit 21 (ucast (x OR BIT 10 OR BIT 0) :: uint64)) = ucast x"
    unfolding u using descriptor_fields [of 21 "ucast x :: uint64" 2 "0x401"]
      descriptor_fields [of 21 "ucast x :: uint64" 21 "0x401"] by simp_all
qed

text \<open>An address is its aligned part and its offset.\<close>

lemma split_address:
  fixes x va :: uint32
  assumes "aligned b x"
  shows "x OR take_bit b va = x + (va - push_bit b (drop_bit b va))"
  by (simp add: aligned_or [OF assms] push_drop)

section \<open>The tables\<close>

lemma boot_pd_result:
  fixes fv fp :: uint32
  assumes fv: "aligned 20 fv" "fv \<noteq> 0" and v: "v = unat (drop_bit 20 fv)"
    and info: "virt_region_start info = fv" "phys_region_start info = fp"
  shows "init_boot_vspace32 l info bss_tables32 = Some (bss_tables32\<lparr>
    boot_pd := (fill v 0 (4095 - v) (\<lambda>i. (push_bit 20 (of_nat i) + fp) OR BIT 10 OR BIT 1)
        (fill 0 0 v (\<lambda>i. push_bit 20 (of_nat i) OR BIT 10 OR BIT 1) (replicate 4096 0)))
      [4095 := boot_pt_addr l OR BIT 9 OR BIT 0],
    boot_pt := (replicate 256 0)[240 := arm_vector_table l OR BIT 4 OR BIT 1]\<rparr>)"
proof -
  note w = window_indices [OF fv, folded v, simplified]
  have v4096: "v < 4096" "0 < v" using w by linarith+
  have fv_eq: "drop_bit 20 fv = of_nat v" by (simp add: v)
  have "drop_bit 20 (- fv) = of_nat (4096 - v)"
    using w unat_of_nat_less [of "4096 - v", where 'a = 32] by (simp add: word_unat_eq_iff)
  then have n: "drop_bit 20 (- fv) - 1 = of_nat (4095 - v)" using v4096 by (simp add: of_nat_diff)
  have un: "unat (of_nat (4095 - v) :: uint32) = 4095 - v" by (intro unat_of_nat_less) simp
  have idx: "unat (of_nat i + of_nat v :: uint32) = v + i" if "i < 4096" for i
  proof -
    have "i + v < 2 ^ LENGTH(32)" using that v4096 by simp
    from unat_of_nat_less [OF this] show ?thesis by (simp only: of_nat_add add.commute)
  qed
  have last: "unat (of_nat (4095 - v) + of_nat v :: uint32) = 4095"
    unfolding idx [of "4095 - v", OF order_le_less_trans [OF diff_le_self], simplified] using v4096 by simp
  have uv: "unat (of_nat v :: uint32) = v" using v4096 by (intro unat_of_nat_less) simp
  have pt: "unat (GET_PT_INDEX ARM_VECTOR_TABLE) = 240" by code_simp
  let ?f = "\<lambda>i. push_bit 20 (of_nat i) OR BIT 10 OR BIT 1 :: uint32"
  let ?g = "\<lambda>i. (push_bit 20 (of_nat i) + fp) OR BIT 10 OR BIT 1 :: uint32"
  have low: "for_up 0 v (\<lambda>i. store_at i (?f i)) (replicate 4096 0) = Some (fill 0 0 v ?f (replicate 4096 0))"
    using v4096 by (intro for_up_fill) simp_all
  have high: "for_up 0 (4095 - v) (\<lambda>i. store_at (unat (of_nat i + of_nat v :: uint32)) (?g i)) (fill 0 0 v ?f (replicate 4096 0)) =
      Some (fill v 0 (4095 - v) ?g (fill 0 0 v ?f (replicate 4096 0)))"
  proof (rule for_up_fill)
    show "store_at (unat (of_nat i + of_nat v :: uint32)) (?g i) xs = store_at (v + i) (?g i) xs" if "i < 4095 - v" for i xs
      using that idx [of i] by simp
  qed (use v4096 in simp)
  have "boot_pd bss_tables32 = replicate 4096 0" "boot_pt bss_tables32 = replicate 256 0"
    by (simp_all add: bss_tables32_def PD_BITS_def PT_BITS_def)
  then show ?thesis
    unfolding init_boot_vspace32_def info Let_def n un fv_eq last v [symmetric]
    by (simp only: low high bind.simps store_at_def length_fill length_replicate pt uv) simp
qed

lemma hyp_tables_result:
  fixes fv fp :: uint32
  assumes fv: "aligned 21 fv" "fv \<noteq> 0" and v: "v = unat (drop_bit 21 fv)"
    and info: "virt_region_start info = fv" "phys_region_start info = fp"
  shows "init_hyp_boot_vspace32 l info bss_tables32 = Some (bss_tables32\<lparr>
    lpae_boot_pgd := fill 0 0 4 (\<lambda>i. ucast ((lpae_boot_pmd_addr l + push_bit PAGE_BITS (of_nat i)) OR BIT 1 OR BIT 0)) (replicate 4 0),
    lpae_boot_pmd := fill v 0 (2048 - v) (\<lambda>i. ucast ((push_bit 21 (of_nat i) + fp) OR BIT 10 OR BIT 0 :: uint32))
        (fill 0 0 v (\<lambda>i. ucast (push_bit 21 (of_nat i) OR BIT 10 OR BIT 0 :: uint32)) (replicate 2048 0))\<rparr>)"
proof -
  note w = window_indices [OF fv, folded v, simplified]
  have v2048: "v < 2048" and n: "unat (drop_bit 21 (- fv)) = 2048 - v" using w by linarith+
  let ?f = "\<lambda>i. ucast (push_bit 21 (of_nat i) OR BIT 10 OR BIT 0 :: uint32) :: uint64"
  let ?g = "\<lambda>i. ucast ((push_bit 21 (of_nat i) + fp) OR BIT 10 OR BIT 0 :: uint32) :: uint64"
  let ?h = "\<lambda>i. ucast ((lpae_boot_pmd_addr l + push_bit PAGE_BITS (of_nat i)) OR BIT 1 OR BIT 0) :: uint64"
  have pgd: "for_up 0 4 (\<lambda>i. store_at i (?h i)) (replicate 4 0) = Some (fill 0 0 4 ?h (replicate 4 0))"
    by (intro for_up_fill) simp_all
  have low: "for_up 0 v (\<lambda>i. store_at i (?f i)) (replicate 2048 0) = Some (fill 0 0 v ?f (replicate 2048 0))"
    using v2048 by (intro for_up_fill) simp_all
  have high: "for_up 0 (2048 - v) (\<lambda>i. store_at (v + i) (?g i)) (fill 0 0 v ?f (replicate 2048 0)) =
      Some (fill v 0 (2048 - v) ?g (fill 0 0 v ?f (replicate 2048 0)))"
    using v2048 by (intro for_up_fill) simp_all
  have "lpae_boot_pgd bss_tables32 = replicate 4 0" "lpae_boot_pmd bss_tables32 = replicate 2048 0"
    by (simp_all add: bss_tables32_def HYP_PGD_BITS_def HYP_PMD_BITS_def)
  then show ?thesis
    unfolding init_hyp_boot_vspace32_def info Let_def n v [symmetric]
    by (simp only: pgd low high bind.simps)
qed

lemma of_nat_index: "of_nat (unat (drop_bit n va)) = drop_bit n (va :: uint32)"
  by simp

text \<open>An address of the window has the offset from the physical start that it has from the virtual
  start.\<close>

lemma window_address:
  fixes fv fp va :: uint32
  assumes "aligned b fv" and "aligned b fp" and "unat (drop_bit b fv) \<le> unat (drop_bit b va)"
  shows "(push_bit b (of_nat (unat (drop_bit b va) - unat (drop_bit b fv))) + fp) + (va - push_bit b (drop_bit b va)) = va - fv + fp"
proof -
  have "of_nat (unat (drop_bit b va) - unat (drop_bit b fv)) = drop_bit b va - drop_bit b fv"
    using assms(3) by (simp add: of_nat_diff)
  moreover have "push_bit b (x - y) = push_bit b x - push_bit b y" for x y :: uint32
    by (simp add: push_bit_eq_mult left_diff_distrib)
  ultimately show ?thesis using aligned_drop [OF assms(1)] by simp
qed

lemma vector_page:
  fixes va :: uint32
  assumes "unat (drop_bit 20 va) = 4095"
  shows "unat (take_bit 8 (drop_bit 12 va)) = 240 \<longleftrightarrow> 0xffff0000 \<le> va \<and> va < 0xffff1000"
    and "0xffff0000 \<le> va \<Longrightarrow> va < 0xffff1000 \<Longrightarrow> take_bit 12 va = va - 0xffff0000"
proof -
  define q where "q = unat va div 4096"
  have "unat va div 2 ^ 20 = q div 256" by (simp add: q_def div_mult2_eq [of _ 4096 256, simplified])
  then have "q div 256 = 4095" using assms by (simp add: unat_drop_bit)
  then have q: "q = 256 * 4095 + q mod 256" by (metis mult_div_mod_eq)
  have "unat (take_bit 8 (drop_bit 12 va)) = take_bit 8 q"
    by (simp add: unsigned_take_bit_eq unat_drop_bit q_def)
  moreover have "take_bit 8 q = q mod 256" by (simp add: take_bit_eq_mod)
  ultimately have "unat (take_bit 8 (drop_bit 12 va)) = q mod 256" by (rule trans)
  moreover have "q mod 256 = 240 \<longleftrightarrow> q = 1048560"
  proof
    show "q mod 256 = 240 \<Longrightarrow> q = 1048560" by (subst q) simp
  qed simp
  moreover have iff: "q = 1048560 \<longleftrightarrow> 0xffff0000 \<le> va \<and> va < 0xffff1000"
  proof
    assume "q = 1048560"
    then have "unat va = 4096 * 1048560 + unat va mod 4096" unfolding q_def by (metis mult_div_mod_eq)
    moreover have "unat va mod 4096 < 4096" by simp
    ultimately show "0xffff0000 \<le> va \<and> va < 0xffff1000"
      unfolding word_le_nat_alt word_less_nat_alt by simp
  next
    assume "0xffff0000 \<le> va \<and> va < 0xffff1000"
    then show "q = 1048560"
      unfolding q_def word_le_nat_alt word_less_nat_alt by (intro div_nat_eqI) simp_all
  qed
  ultimately show "unat (take_bit 8 (drop_bit 12 va)) = 240 \<longleftrightarrow> 0xffff0000 \<le> va \<and> va < 0xffff1000"
    by simp
  assume "0xffff0000 \<le> va" "va < 0xffff1000"
  then have "drop_bit 12 va = 1048560"
    using iff by (simp add: word_unat_eq_iff unat_drop_bit q_def)
  then show "take_bit 12 va = va - 0xffff0000"
    using push_drop [of 12 va] by (simp add: push_bit_eq_mult algebra_simps)
qed

lemma sv_table_entry:
  fixes pt :: uint32
  assumes "aligned 10 pt"
  shows "take_bit 2 (pt OR BIT 9 OR BIT 0) = 1" and "push_bit 10 (drop_bit 10 (pt OR BIT 9 OR BIT 0)) = pt"
  using descriptor_fields [OF assms, of 2 "BIT 9 OR BIT 0"] descriptor_fields [OF assms, of 10 "BIT 9 OR BIT 0"]
  by (simp_all add: BIT_def or.assoc)

lemma page_entry:
  fixes e :: uint32
  assumes "aligned 12 e"
  shows "bit (e OR BIT 4 OR BIT 1) 1" and "push_bit 12 (drop_bit 12 (e OR BIT 4 OR BIT 1)) = e"
  using descriptor_fields [OF assms, of 12 "BIT 4 OR BIT 1"]
  by (simp_all add: BIT_def or.assoc bit_simps)

lemma index_8: "unat (take_bit 8 (x :: uint32)) < 256"
  using take_bit_nat_less_exp [of 8 "unat x"] by (simp add: unsigned_take_bit_eq)

text \<open>The entry a long-descriptor walk reaches.\<close>

lemma hyp_walk:
  fixes va :: uint32
  assumes pmd: "aligned 12 (lpae_boot_pmd_addr l)" "unat (lpae_boot_pmd_addr l) + 4 * 4096 \<le> 2 ^ 32"
    and len: "length (lpae_boot_pmd t) = 2048"
    and pgd: "lpae_boot_pgd t ! unat (drop_bit 30 va) =
      ucast ((lpae_boot_pmd_addr l + push_bit PAGE_BITS (of_nat (unat (drop_bit 30 va)))) OR BIT 1 OR BIT 0)"
    and e: "lpae_boot_pmd t ! unat (drop_bit 21 va) = ucast (x OR BIT 10 OR BIT 0)" "aligned 21 x"
  shows "translate_hyp l t va = Some (ucast (x + (va - push_bit 21 (drop_bit 21 va))))"
proof -
  let ?a = "lpae_boot_pmd_addr l"
  define k where "k = unat (drop_bit 30 va)"
  define j where "j = unat (take_bit 9 (drop_bit 21 va))"
  define i where "i = unat (drop_bit 21 va)"
  have i2048: "i < 2048" and k4: "k < 4" using unat_lt2p [of va] by (simp_all add: i_def k_def unat_drop_bit)
  have ij: "i = 512 * k + j"
    using div_mult_mod_eq [of "unat va div 2 ^ 21" 512]
    by (simp add: i_def j_def k_def unat_drop_bit unsigned_take_bit_eq take_bit_eq_mod [of _ "_ div _"]
        div_mult2_eq [of _ "2 ^ 21" 512, simplified] mult.commute)
  have push: "push_bit PAGE_BITS (of_nat k) = (of_nat (4096 * k) :: uint32)"
    by (simp add: push_bit_eq_mult PAGE_BITS_def mult.commute)
  have u: "unat (?a + of_nat (4096 * k)) = unat ?a + 4096 * k"
    using pmd(2) k4 by (intro unat_plus_of_nat) simp
  have al: "aligned 12 (?a + of_nat (4096 * k))"
    unfolding push [symmetric] PAGE_BITS_def by (intro aligned_add pmd(1)) simp
  let ?d = "(?a + of_nat (4096 * k)) OR BIT 1 OR BIT 0"
  have d: "(ucast ?d :: uint64) = ucast (?a + of_nat (4096 * k)) OR 3"
    by (simp only: unsigned_or_eq or.assoc) (simp add: BIT_def)
  have al64: "aligned 12 (ucast (?a + of_nat (4096 * k)) :: uint64)"
    using al by (simp add: aligned_def flip: unsigned_take_bit_eq)
  have t3: "take_bit 2 (ucast ?d :: uint64) = 3"
    and base: "push_bit 12 (drop_bit 12 (ucast ?d :: uint64)) = ucast (?a + of_nat (4096 * k))"
    unfolding d using descriptor_fields [OF al64, of 2 3] descriptor_fields [OF al64, of 12 3] by simp_all
  have nat: "(ucast y :: uint64) = of_nat (unat y)" for y :: uint32 by simp
  have "push_bit 12 (drop_bit 12 (ucast ?d :: uint64)) + push_bit 3 (ucast (take_bit 9 (drop_bit 21 va))) - ucast ?a =
      of_nat (8 * i)"
    unfolding base unfolding nat u j_def [symmetric] ij by (simp add: push_bit_eq_mult)
  moreover have "unat (drop_bit 3 (of_nat (8 * i) :: uint64)) = i"
  proof -
    have "unat (of_nat (8 * i) :: uint64) = 8 * i" using i2048 by (intro unat_of_nat_less) simp
    then show ?thesis by (simp only: unat_drop_bit) simp
  qed
  ultimately have idx: "unat (drop_bit 3 (push_bit 12 (drop_bit 12 (ucast ?d :: uint64)) +
      push_bit 3 (ucast (take_bit 9 (drop_bit 21 va))) - ucast ?a)) = i"
    by simp
  have split: "push_bit 21 (drop_bit 21 (ucast (x OR BIT 10 OR BIT 0) :: uint64)) OR ucast (take_bit 21 va) =
      ucast (x OR take_bit 21 va)"
    unfolding block_entry [OF e(2)] by (simp add: unsigned_or_eq)
  show ?thesis
    using i2048 block_entry(1) [OF e(2)]
    unfolding translate_hyp_def Let_def k_def [symmetric] pgd [folded k_def, unfolded push] idx t3 len e(1) [folded i_def] split
      split_address [OF e(2)] by simp
qed

lemma translate_section:
  assumes "boot_pd t ! unat (drop_bit 20 va) = x OR BIT 10 OR BIT 1" and "aligned 20 x"
  shows "translate_sv l t va = Some (x + (va - push_bit 20 (drop_bit 20 va)))"
  unfolding translate_sv_def Let_def assms(1) section_entry [OF assms(2)] split_address [OF assms(2)]
  by simp

lemma translate_table:
  assumes "boot_pd t ! unat (drop_bit 20 va) = boot_pt_addr l OR BIT 9 OR BIT 0" and "aligned 10 (boot_pt_addr l)"
  shows "translate_sv l t va =
    (let e = boot_pt t ! unat (take_bit 8 (drop_bit 12 va))
     in if bit e 1 then Some (push_bit 12 (drop_bit 12 e) OR take_bit 12 va) else None)"
  unfolding translate_sv_def Let_def assms(1) sv_table_entry [OF assms(2)] by simp

text \<open>For the concrete instances.\<close>

definition sample_kernel32 :: "uint32 image_info" where
  "sample_kernel32 = \<lparr>phys_region_start = 0x10000000, phys_region_end = 0x10100000, virt_region_start = 0xe0000000,
     virt_region_end = 0xe0100000, virt_entry = 0xe0000000, phys_virt_offset = 0x30000000\<rparr>"

definition sample_links32 :: links32 where
  "sample_links32 = \<lparr>boot_pt_addr = 0x20000400, arm_vector_table = 0x20005000, lpae_boot_pmd_addr = 0x20008000\<rparr>"

lemma sample_kernel32_fields:
  "virt_region_start sample_kernel32 = 0xe0000000" "phys_region_start sample_kernel32 = 0x10000000"
  by (simp_all add: sample_kernel32_def)

section \<open>The maps that are built\<close>

lemma boot_vspace32_map:
  fixes fv fp :: uint32
  assumes fv: "aligned 20 fv" "fv \<noteq> 0" and fp: "aligned 20 fp"
    and info: "virt_region_start info = fv" "phys_region_start info = fp"
    and pt: "aligned 10 (boot_pt_addr l)" and vectors: "aligned 12 (arm_vector_table l)"
  shows "\<exists>t. init_boot_vspace32 l info bss_tables32 = Some t \<and>
    (\<forall>va. translate_sv l t va =
      (if va < fv then Some va
       else if va < 0xfff00000 then Some (va - fv + fp)
       else if 0xffff0000 \<le> va \<and> va < 0xffff1000 then Some (arm_vector_table l + (va - 0xffff0000))
       else None))"
proof -
  define v where "v = unat (drop_bit 20 fv)"
  have v: "0 < v" "v \<le> 4095" using window_indices [OF fv] by (simp_all add: v_def)
  note result = boot_pd_result [OF fv v_def info, of l]
  let ?t = "the (init_boot_vspace32 l info bss_tables32)"
  have "translate_sv l ?t va =
      (if va < fv then Some va
       else if va < 0xfff00000 then Some (va - fv + fp)
       else if 0xffff0000 \<le> va \<and> va < 0xffff1000 then Some (arm_vector_table l + (va - 0xffff0000))
       else None)" for va
  proof -
    let ?i = "unat (drop_bit 20 va)" and ?d = "boot_pd ?t ! unat (drop_bit 20 va)"
    have i: "?i < 4096" using unat_lt2p [of va] by (simp add: unat_drop_bit)
    have below: "va < fv \<longleftrightarrow> ?i < v" by (simp add: below_aligned [OF fv(1)] v_def)
    have top: "va < 0xfff00000 \<longleftrightarrow> ?i < 4095"
      using below_aligned [of 20 "0xfff00000" va] by (simp add: aligned_def)
    consider "?i < v" | "v \<le> ?i" "?i < 4095" | "?i = 4095" using i by linarith
    then show ?thesis
    proof cases
      case 1
      then have "?d = push_bit 20 (of_nat ?i) OR BIT 10 OR BIT 1"
        using v i by (simp add: result nth_fill)
      from translate_section [OF this] show ?thesis
        using 1 below unfolding of_nat_index by simp
    next
      case 2
      then have d: "?d = (push_bit 20 (of_nat (?i - v)) + fp) OR BIT 10 OR BIT 1"
        using v i by (simp add: result nth_fill)
      have "aligned 20 (push_bit 20 (of_nat (?i - v)) + fp)" by (intro aligned_add fp) simp
      from translate_section [OF d this] show ?thesis
        using 2 below top window_address [OF fv(1) fp, of va] by (simp add: v_def)
    next
      case 3
      then have d: "?d = boot_pt_addr l OR BIT 9 OR BIT 0" by (simp add: result)
      let ?j = "unat (take_bit 8 (drop_bit 12 va))"
      have "boot_pt ?t ! ?j = (if ?j = 240 then arm_vector_table l OR BIT 4 OR BIT 1 else 0)"
        using index_8 [of "drop_bit 12 va"] by (simp add: result nth_list_update)
      then show ?thesis
        using 3 v below top vector_page [OF 3] aligned_or [OF vectors, of va] page_entry [OF vectors]
        unfolding translate_table [OF d pt] Let_def by auto
    qed
  qed
  with result show ?thesis by auto
qed

lemma hyp_vspace32_map:
  fixes fv fp :: uint32
  assumes fv: "aligned 21 fv" "fv \<noteq> 0" and fp: "aligned 21 fp"
    and info: "virt_region_start info = fv" "phys_region_start info = fp"
    and pmd: "aligned 12 (lpae_boot_pmd_addr l)" "unat (lpae_boot_pmd_addr l) + 4 * 4096 \<le> 2 ^ 32"
  shows "\<exists>t. init_hyp_boot_vspace32 l info bss_tables32 = Some t \<and>
    (\<forall>va. translate_hyp l t va = Some (ucast (if va < fv then va else va - fv + fp)))"
proof -
  define v where "v = unat (drop_bit 21 fv)"
  note result = hyp_tables_result [OF fv v_def info, of l]
  let ?t = "the (init_hyp_boot_vspace32 l info bss_tables32)"
  have "translate_hyp l ?t va = Some (ucast (if va < fv then va else va - fv + fp))" for va
  proof -
    let ?i = "unat (drop_bit 21 va)"
    have i: "?i < 2048" "unat (drop_bit 30 va) < 4" using unat_lt2p [of va] by (simp_all add: unat_drop_bit)
    have below: "va < fv \<longleftrightarrow> ?i < v" by (simp add: below_aligned [OF fv(1)] v_def)
    have len: "length (lpae_boot_pmd ?t) = 2048" by (simp add: result)
    have pgd: "lpae_boot_pgd ?t ! unat (drop_bit 30 va) =
      ucast ((lpae_boot_pmd_addr l + push_bit PAGE_BITS (of_nat (unat (drop_bit 30 va)))) OR BIT 1 OR BIT 0)"
      using i(2) by (simp only: result option.sel tables32.simps tables32.update_convs) (simp add: nth_fill del: word_of_nat_eq_iff)
    show ?thesis
    proof (cases "?i < v")
      case True
      have "lpae_boot_pmd ?t ! ?i = ucast (push_bit 21 (of_nat ?i) OR BIT 10 OR BIT 0 :: uint32)"
        using True i by (simp only: result option.sel) (simp add: nth_fill)
      from hyp_walk [OF pmd len pgd this] show ?thesis using True below unfolding of_nat_index by simp
    next
      case False
      have e: "lpae_boot_pmd ?t ! ?i = ucast ((push_bit 21 (of_nat (?i - v)) + fp) OR BIT 10 OR BIT 0 :: uint32)"
        using False i by (simp only: result option.sel) (simp add: nth_fill)
      have al: "aligned 21 (push_bit 21 (of_nat (?i - v)) + fp)" by (intro aligned_add fp) simp
      have le: "unat (drop_bit 21 fv) \<le> ?i" using False by (simp add: v_def)
      from hyp_walk [OF pmd len pgd e al] show ?thesis
        unfolding window_address [OF fv(1) fp le, folded v_def] using False below by simp
    qed
  qed
  with result show ?thesis by auto
qed

text \<open>Both maps provide the kernel's window and the loader's identity.\<close>

definition sections_ok :: "links32 \<Rightarrow> uint32 image_info \<Rightarrow> bool" where
  "sections_ok l info \<longleftrightarrow> aligned 20 (virt_region_start info) \<and> virt_region_start info \<noteq> 0 \<and>
     aligned 20 (phys_region_start info) \<and> aligned 10 (boot_pt_addr l) \<and> aligned 12 (arm_vector_table l)"

definition blocks_ok :: "links32 \<Rightarrow> uint32 image_info \<Rightarrow> bool" where
  "blocks_ok l info \<longleftrightarrow> aligned 21 (virt_region_start info) \<and> virt_region_start info \<noteq> 0 \<and>
     aligned 21 (phys_region_start info) \<and> aligned 12 (lpae_boot_pmd_addr l) \<and>
     unat (lpae_boot_pmd_addr l) + 4 * 4096 \<le> 2 ^ 32"

interpretation sv: kernel_window "\<lambda>info. init_boot_vspace32 l info bss_tables32" "translate_sv l"
  "sections_ok l" "\<lambda>info. {virt_region_start info ..< 0xfff00000}" "\<lambda>info. {..< virt_region_start info}" for l
proof unfold_locales
  fix info
  assume ok: "sections_ok l info"
  then obtain t where t: "init_boot_vspace32 l info bss_tables32 = Some t"
    and map: "\<And>va. translate_sv l t va =
      (if va < virt_region_start info then Some va
       else if va < 0xfff00000 then Some (va - virt_region_start info + phys_region_start info)
       else if 0xffff0000 \<le> va \<and> va < 0xffff1000 then Some (arm_vector_table l + (va - 0xffff0000))
       else None)"
    using boot_vspace32_map [OF _ _ _ refl refl, of info l] unfolding sections_ok_def by auto
  show "\<exists>t. init_boot_vspace32 l info bss_tables32 = Some t" using t by blast
  fix t' va
  assume t': "init_boot_vspace32 l info bss_tables32 = Some t'"
  show "\<exists>pa. translate_sv l t' va = Some pa \<and> ucast pa = va - virt_region_start info + phys_region_start info"
    if "va \<in> {virt_region_start info ..< 0xfff00000}"
    using that t t' by (auto simp: map)
  show "\<exists>pa. translate_sv l t' va = Some pa \<and> ucast pa = va" if "va \<in> {..< virt_region_start info}"
    using that t t' by (simp add: map)
qed

interpretation hyp: kernel_window "\<lambda>info. init_hyp_boot_vspace32 l info bss_tables32" "translate_hyp l"
  "blocks_ok l" "\<lambda>info. {virt_region_start info ..}" "\<lambda>info. {..< virt_region_start info}" for l
proof unfold_locales
  fix info
  assume ok: "blocks_ok l info"
  then obtain t where t: "init_hyp_boot_vspace32 l info bss_tables32 = Some t"
    and map: "\<And>va. translate_hyp l t va =
      Some (ucast (if va < virt_region_start info then va else va - virt_region_start info + phys_region_start info))"
    using hyp_vspace32_map [OF _ _ _ refl refl, of info l] unfolding blocks_ok_def by auto
  show "\<exists>t. init_hyp_boot_vspace32 l info bss_tables32 = Some t" using t by blast
  have up: "ucast (ucast x :: uint64) = x" for x :: uint32 by (rule ucast_up_ucast_id) (simp add: is_up)
  fix t' va
  assume t': "init_hyp_boot_vspace32 l info bss_tables32 = Some t'"
  show "\<exists>pa. translate_hyp l t' va = Some pa \<and> ucast pa = va - virt_region_start info + phys_region_start info"
    if "va \<in> {virt_region_start info ..}"
    using that t t' by (auto simp: map up)
  show "\<exists>pa. translate_hyp l t' va = Some pa \<and> ucast pa = va" if "va \<in> {..< virt_region_start info}"
    using that t t' by (simp add: map up)
qed

section \<open>Properties\<close>





end
