(* ===== verification/Mmu64.thy ===== *)
theory Mmu64
  imports Kernel_Window
begin

text \<open>
  src/arch-arm/64/mmu.c and structures.c: the boot page tables of the 64-bit ARM ports, for a
  kernel at EL1 (lower half through \<^verbatim>\<open>_boot_pgd_down\<close>, upper half through \<^verbatim>\<open>_boot_pgd_up\<close>) and for
  a hypervisor kernel at EL2 (one table). Link addresses are parameters; \<open>smp\<close> is
  CONFIG_MAX_NUM_NODES > 1.
\<close>

section \<open>The code\<close>

definition PGD_BITS :: nat where "PGD_BITS = 9"
definition PUD_BITS :: nat where "PUD_BITS = 9"
definition PMD_BITS :: nat where "PMD_BITS = 9"

definition GET_PGD_INDEX :: "uint64 \<Rightarrow> uint64" where
  "GET_PGD_INDEX x = drop_bit (ARM_2MB_BLOCK_BITS + PMD_BITS + PUD_BITS) x AND MASK PGD_BITS"

definition GET_PUD_INDEX :: "uint64 \<Rightarrow> uint64" where
  "GET_PUD_INDEX x = drop_bit (ARM_2MB_BLOCK_BITS + PMD_BITS) x AND MASK PUD_BITS"

definition GET_PMD_INDEX :: "uint64 \<Rightarrow> uint64" where
  "GET_PMD_INDEX x = drop_bit ARM_2MB_BLOCK_BITS x AND MASK PMD_BITS"

record tables64 =
  boot_pgd_up :: "uint64 list"
  boot_pud_up :: "uint64 list"
  boot_pmd_up :: "uint64 list"
  boot_pgd_down :: "uint64 list"
  boot_pud_down :: "uint64 list"

definition bss_tables64 :: tables64 where
  "bss_tables64 = \<lparr>boot_pgd_up = replicate (2 ^ PGD_BITS) 0, boot_pud_up = replicate (2 ^ PUD_BITS) 0,
     boot_pmd_up = replicate (2 ^ PMD_BITS) 0, boot_pgd_down = replicate (2 ^ PGD_BITS) 0,
     boot_pud_down = replicate (2 ^ PUD_BITS) 0\<rparr>"

record links64 =
  boot_pud_up_addr :: uint64
  boot_pmd_up_addr :: uint64
  boot_pud_down_addr :: uint64

definition table_desc :: "uint64 \<Rightarrow> uint64" where
  "table_desc a = a OR BIT 1 OR BIT 0"

definition device_1gb :: "nat \<Rightarrow> uint64" where
  "device_1gb i = push_bit ARM_1GB_BLOCK_BITS (of_nat i) OR BIT 10 OR push_bit 2 0 OR BIT 0"

definition normal_2mb :: "bool \<Rightarrow> nat \<Rightarrow> uint64 \<Rightarrow> uint64" where
  "normal_2mb smp i first_paddr =
     (push_bit ARM_2MB_BLOCK_BITS (of_nat i) + first_paddr) OR BIT 10
     OR (if smp then push_bit 8 3 else 0) OR push_bit 2 4 OR BIT 0"

definition init_boot_vspace64 :: "bool \<Rightarrow> links64 \<Rightarrow> uint64 image_info \<Rightarrow> tables64 \<Rightarrow> tables64 option" where
  "init_boot_vspace64 smp l kernel_info t = do {
     let first_vaddr = virt_region_start kernel_info;
     let first_paddr = phys_region_start kernel_info;
     pgd_down \<leftarrow> store_at 0 (table_desc (boot_pud_down_addr l)) (boot_pgd_down t);
     pud_down \<leftarrow> for_up 0 (2 ^ PUD_BITS) (\<lambda>i. store_at i (device_1gb i)) (boot_pud_down t);
     pgd_up \<leftarrow> store_at (unat (GET_PGD_INDEX first_vaddr)) (table_desc (boot_pud_up_addr l)) (boot_pgd_up t);
     pud_up \<leftarrow> store_at (unat (GET_PUD_INDEX first_vaddr)) (table_desc (boot_pmd_up_addr l)) (boot_pud_up t);
     pmd_up \<leftarrow> for_up 0 (2 ^ PMD_BITS) (\<lambda>i. store_at i (normal_2mb smp i first_paddr)) (boot_pmd_up t);
     Some (t\<lparr>boot_pgd_up := pgd_up, boot_pud_up := pud_up, boot_pmd_up := pmd_up,
       boot_pgd_down := pgd_down, boot_pud_down := pud_down\<rparr>)
   }"

definition init_hyp_boot_vspace64 :: "bool \<Rightarrow> links64 \<Rightarrow> uint64 image_info \<Rightarrow> tables64 \<Rightarrow> tables64 option" where
  "init_hyp_boot_vspace64 smp l kernel_info t = do {
     let first_vaddr = virt_region_start kernel_info;
     let first_paddr = phys_region_start kernel_info;
     pgd_down \<leftarrow> store_at 0 (table_desc (boot_pud_down_addr l)) (boot_pgd_down t);
     pud_down \<leftarrow> for_up 0 (2 ^ PUD_BITS) (\<lambda>i. store_at i (device_1gb i)) (boot_pud_down t);
     pgd_down \<leftarrow> store_at (unat (GET_PGD_INDEX first_vaddr)) (table_desc (boot_pud_up_addr l)) pgd_down;
     pud_up \<leftarrow> store_at (unat (GET_PUD_INDEX first_vaddr)) (table_desc (boot_pmd_up_addr l)) (boot_pud_up t);
     let pmd_index = unat (GET_PMD_INDEX first_vaddr);
     pmd_up \<leftarrow> for_up pmd_index (2 ^ PMD_BITS) (\<lambda>i. store_at i (normal_2mb smp (i - pmd_index) first_paddr)) (boot_pmd_up t);
     Some (t\<lparr>boot_pud_up := pud_up, boot_pmd_up := pmd_up,
       boot_pgd_down := pgd_down, boot_pud_down := pud_down\<rparr>)
   }"

section \<open>The translation the hardware makes\<close>

text \<open>The memory the walk reads: the three lower tables at their link addresses, one page each.\<close>

definition table_memory :: "links64 \<Rightarrow> tables64 \<Rightarrow> uint64 \<Rightarrow> uint64 list" where
  "table_memory l t a =
     (if a = boot_pud_down_addr l then boot_pud_down t
      else if a = boot_pud_up_addr l then boot_pud_up t
      else if a = boot_pmd_up_addr l then boot_pmd_up t
      else replicate 512 0)"

definition out_addr :: "nat \<Rightarrow> uint64 \<Rightarrow> uint64" where
  "out_addr n d = push_bit n (drop_bit n (take_bit 48 d))"

definition next_table :: "links64 \<Rightarrow> tables64 \<Rightarrow> uint64 \<Rightarrow> uint64 list" where
  "next_table l t d = table_memory l t (out_addr 12 d)"

text \<open>4K granule, 48-bit addresses: a top-level entry covers 512 GB, blocks are 1 GB or 2 MB.\<close>

definition walk :: "links64 \<Rightarrow> tables64 \<Rightarrow> uint64 list \<Rightarrow> uint64 \<Rightarrow> uint64 option" where
  "walk l t pgd va =
     (let d0 = pgd ! unat (GET_PGD_INDEX va)
      in if take_bit 2 d0 \<noteq> 3 then None
         else let d1 = next_table l t d0 ! unat (GET_PUD_INDEX va)
         in if take_bit 2 d1 = 1 then Some (out_addr 30 d1 OR take_bit 30 va)
            else if take_bit 2 d1 \<noteq> 3 then None
            else let d2 = next_table l t d1 ! unat (GET_PMD_INDEX va)
            in if take_bit 2 d2 = 1 then Some (out_addr 21 d2 OR take_bit 21 va) else None)"

text \<open>At EL1 the top 16 bits of the address choose the table; at EL2 there is only the lower one.\<close>

definition translate_el1 :: "links64 \<Rightarrow> tables64 \<Rightarrow> uint64 \<Rightarrow> uint64 option" where
  "translate_el1 l t va =
     (if drop_bit 48 va = 0 then walk l t (boot_pgd_down t) va
      else if drop_bit 48 va = 0xffff then walk l t (boot_pgd_up t) va
      else None)"

definition translate_el2 :: "links64 \<Rightarrow> tables64 \<Rightarrow> uint64 \<Rightarrow> uint64 option" where
  "translate_el2 l t va = (if drop_bit 48 va = 0 then walk l t (boot_pgd_down t) va else None)"

section \<open>Indices and descriptors\<close>

lemma index_fields:
  "GET_PGD_INDEX x = take_bit 9 (drop_bit 39 x)" "GET_PUD_INDEX x = take_bit 9 (drop_bit 30 x)"
  "GET_PMD_INDEX x = take_bit 9 (drop_bit 21 x)"
  by (simp_all add: GET_PGD_INDEX_def GET_PUD_INDEX_def GET_PMD_INDEX_def MASK_eq_mask take_bit_eq_mask
      PGD_BITS_def PUD_BITS_def PMD_BITS_def)

lemma index_less: "unat (take_bit 9 (x :: uint64)) < 512"
  using take_bit_nat_less_exp [of 9 "unat x"] by (simp add: unsigned_take_bit_eq)

lemma index_0: "unat (take_bit 9 (x :: uint64)) = 0 \<longleftrightarrow> take_bit 9 x = 0"
  by (rule unat_eq_zero)

text \<open>An address is decided by its upper part and the next nine bits.\<close>

lemma drop_split:
  fixes x y :: uint64
  shows "drop_bit n x = drop_bit n y \<longleftrightarrow>
    drop_bit (n + 9) x = drop_bit (n + 9) y \<and> take_bit 9 (drop_bit n x) = take_bit 9 (drop_bit n y)"
proof -
  have up: "drop_bit (n + 9) z = drop_bit 9 (drop_bit n z)" for z :: uint64
    by (simp add: drop_bit_drop_bit add.commute)
  have "drop_bit n x = drop_bit n y"
    if "drop_bit 9 (drop_bit n x) = drop_bit 9 (drop_bit n y)" "take_bit 9 (drop_bit n x) = take_bit 9 (drop_bit n y)"
  proof -
    have "drop_bit n x = push_bit 9 (drop_bit 9 (drop_bit n x)) + take_bit 9 (drop_bit n x)"
      by (rule bits_ident [symmetric])
    also have "\<dots> = drop_bit n y" unfolding that by (rule bits_ident)
    finally show ?thesis .
  qed
  then show ?thesis unfolding up by metis
qed

lemma same_gb:
  fixes x y :: uint64
  shows "drop_bit 30 x = drop_bit 30 y \<longleftrightarrow> drop_bit 48 x = drop_bit 48 y \<and>
    GET_PGD_INDEX x = GET_PGD_INDEX y \<and> GET_PUD_INDEX x = GET_PUD_INDEX y"
  using drop_split [of 30 x y] drop_split [of 39 x y] by (auto simp: index_fields)

lemma low_512gb: "drop_bit 39 (x :: uint64) = 0 \<longleftrightarrow> drop_bit 48 x = 0 \<and> GET_PGD_INDEX x = 0"
  using drop_split [of 39 x 0] by (simp add: index_fields)

lemma same_2mb:
  fixes x y :: uint64
  shows "drop_bit 21 x = drop_bit 21 y \<longleftrightarrow> drop_bit 30 x = drop_bit 30 y \<and> GET_PMD_INDEX x = GET_PMD_INDEX y"
  using drop_split [of 21 x y] by (auto simp: index_fields)

definition fits_48 :: "uint64 \<Rightarrow> bool" where
  "fits_48 x \<longleftrightarrow> take_bit 48 x = x"

lemma descriptor_output:
  assumes "aligned n x" and "fits_48 x" and "m \<le> n" and "take_bit 48 c = c"
  shows "take_bit m (x OR c) = take_bit m c" and "out_addr n (x OR c) = x OR push_bit n (drop_bit n c)"
  using descriptor_fields [OF assms(1,3), of c] descriptor_fields [OF assms(1) order_refl, of c] assms(2,4)
  by (simp_all add: out_addr_def fits_48_def)

lemma desc_table_entry:
  assumes "aligned 12 a" and "fits_48 a"
  shows "take_bit 2 (table_desc a) = 3" and "out_addr 12 (table_desc a) = a"
  using descriptor_output [OF assms, of 2 3] by (simp_all add: table_desc_def BIT_def or.assoc)

lemma gb_entry:
  assumes "k < 512"
  shows "take_bit 2 (device_1gb k) = 1" and "out_addr 30 (device_1gb k) = push_bit 30 (of_nat k)"
proof -
  have "unat (of_nat k :: uint64) = k" using assms by (intro unat_of_nat_less) simp
  then have "take_bit 18 (of_nat k :: uint64) = of_nat k"
    using assms by (simp add: word_unat_eq_iff unsigned_take_bit_eq take_bit_nat_eq_self)
  then have f: "fits_48 (push_bit 30 (of_nat k))" by (simp add: fits_48_def take_bit_push_bit)
  then show "take_bit 2 (device_1gb k) = 1" and "out_addr 30 (device_1gb k) = push_bit 30 (of_nat k)"
    using descriptor_output [OF aligned_push f, of 2 "0x401"] by (simp_all add: device_1gb_def BIT_def or.assoc)
qed

lemma mb_entry:
  assumes "aligned 21 (push_bit 21 (of_nat k) + fp)" and "fits_48 (push_bit 21 (of_nat k) + fp)"
  shows "take_bit 2 (normal_2mb smp k fp) = 1" and "out_addr 21 (normal_2mb smp k fp) = push_bit 21 (of_nat k) + fp"
proof -
  have d: "normal_2mb smp k fp = (push_bit 21 (of_nat k) + fp) OR (if smp then 0x711 else 0x411)"
    by (simp add: normal_2mb_def BIT_def or.assoc)
  show "take_bit 2 (normal_2mb smp k fp) = 1" and "out_addr 21 (normal_2mb smp k fp) = push_bit 21 (of_nat k) + fp"
    unfolding d using descriptor_output [OF assms, of 2] by simp_all
qed

section \<open>Walks\<close>

text \<open>The three lower tables are page-aligned, below 2^48 and different.\<close>

definition good_links :: "links64 \<Rightarrow> bool" where
  "good_links l \<longleftrightarrow> (\<forall>a \<in> {boot_pud_down_addr l, boot_pud_up_addr l, boot_pmd_up_addr l}. aligned 12 a \<and> fits_48 a) \<and>
     distinct [boot_pud_down_addr l, boot_pud_up_addr l, boot_pmd_up_addr l]"

lemma next_tables:
  assumes "good_links l"
  shows "next_table l t (table_desc (boot_pud_down_addr l)) = boot_pud_down t"
    and "next_table l t (table_desc (boot_pud_up_addr l)) = boot_pud_up t"
    and "next_table l t (table_desc (boot_pmd_up_addr l)) = boot_pmd_up t"
    and "take_bit 2 (table_desc (boot_pud_down_addr l)) = 3" and "take_bit 2 (table_desc (boot_pud_up_addr l)) = 3"
    and "take_bit 2 (table_desc (boot_pmd_up_addr l)) = 3"
  using assms by (auto simp: good_links_def next_table_def table_memory_def desc_table_entry)

lemma walk_identity:
  assumes l: "good_links l" and va: "drop_bit 39 va = 0"
    and t: "pgd ! 0 = table_desc (boot_pud_down_addr l)" "boot_pud_down t = fill 0 0 512 device_1gb (replicate 512 0)"
  shows "walk l t pgd va = Some va"
proof -
  let ?k = "unat (GET_PUD_INDEX va)"
  have k: "?k < 512" by (simp add: index_fields index_less)
  have "GET_PGD_INDEX va = 0" using va low_512gb by blast
  then have d0: "pgd ! unat (GET_PGD_INDEX va) = table_desc (boot_pud_down_addr l)" using t(1) by simp
  have d1: "boot_pud_down t ! ?k = device_1gb ?k" using k by (simp add: t(2) nth_fill)
  have "drop_bit 9 (drop_bit 30 va) = 0" using va by (simp add: drop_bit_drop_bit)
  then have "GET_PUD_INDEX va = drop_bit 30 va"
    using bits_ident [of 9 "drop_bit 30 va"] by (simp add: index_fields)
  then have "push_bit 30 (of_nat ?k) OR take_bit 30 va = va"
    using aligned_or [of 30 "push_bit 30 (drop_bit 30 va)" va] bits_ident [of 30 va] by simp
  then show ?thesis
    unfolding walk_def Let_def d0 next_tables [OF l] d1 gb_entry [OF k] by simp
qed

lemma walk_window:
  assumes l: "good_links l" and pgd: "pgd ! unat (GET_PGD_INDEX va) = table_desc (boot_pud_up_addr l)"
    and t: "boot_pud_up t = (replicate 512 0)[p := table_desc (boot_pmd_up_addr l)]" "p < 512"
  shows "walk l t pgd va =
    (if unat (GET_PUD_INDEX va) = p then
       (let d2 = boot_pmd_up t ! unat (GET_PMD_INDEX va)
        in if take_bit 2 d2 = 1 then Some (out_addr 21 d2 OR take_bit 21 va) else None)
     else None)"
proof -
  have "unat (GET_PUD_INDEX va) < 512" by (simp add: index_fields index_less)
  then have "boot_pud_up t ! unat (GET_PUD_INDEX va) =
      (if unat (GET_PUD_INDEX va) = p then table_desc (boot_pmd_up_addr l) else 0)"
    using t by (simp add: nth_list_update)
  then show ?thesis
  proof (cases "unat (GET_PUD_INDEX va) = p")
    case True
    with \<open>boot_pud_up t ! _ = _\<close> have d1: "boot_pud_up t ! p = table_desc (boot_pmd_up_addr l)" by simp
    show ?thesis
      unfolding walk_def Let_def pgd next_tables [OF l] True d1 by simp
  next
    case False
    with \<open>boot_pud_up t ! _ = _\<close> have d1: "boot_pud_up t ! unat (GET_PUD_INDEX va) = 0" by simp
    show ?thesis
      unfolding walk_def Let_def pgd next_tables [OF l] d1 using False by simp
  qed
qed

lemma walk_none: "pgd ! unat (GET_PGD_INDEX va) = 0 \<Longrightarrow> walk l t pgd va = None"
  by (simp add: walk_def)

lemma nth_single: "i < 512 \<Longrightarrow> (replicate 512 0)[j := d] ! i = (if i = j then d else (0 :: uint64))"
  by (simp add: nth_list_update)

section \<open>The tables\<close>

lemma bss_tables64_fields:
  "boot_pgd_up bss_tables64 = replicate 512 0" "boot_pud_up bss_tables64 = replicate 512 0"
  "boot_pmd_up bss_tables64 = replicate 512 0" "boot_pgd_down bss_tables64 = replicate 512 0"
  "boot_pud_down bss_tables64 = replicate 512 0"
  by (simp_all add: bss_tables64_def PGD_BITS_def PUD_BITS_def PMD_BITS_def)

lemma fill_up: "for_up k 512 (\<lambda>i. store_at i (f i)) (replicate 512 (0 :: uint64)) = Some (fill 0 k 512 f (replicate 512 0))"
  by (rule for_up_fill) simp_all

lemma boot_tables_result:
  assumes info: "virt_region_start info = fv" "phys_region_start info = fp"
  shows "init_boot_vspace64 smp l info bss_tables64 = Some (bss_tables64\<lparr>
    boot_pgd_up := (replicate 512 0)[unat (GET_PGD_INDEX fv) := table_desc (boot_pud_up_addr l)],
    boot_pud_up := (replicate 512 0)[unat (GET_PUD_INDEX fv) := table_desc (boot_pmd_up_addr l)],
    boot_pmd_up := fill 0 0 512 (\<lambda>i. normal_2mb smp i fp) (replicate 512 0),
    boot_pgd_down := (replicate 512 0)[0 := table_desc (boot_pud_down_addr l)],
    boot_pud_down := fill 0 0 512 device_1gb (replicate 512 0)\<rparr>)"
proof -
  have "unat (GET_PGD_INDEX fv) < 512" "unat (GET_PUD_INDEX fv) < 512" by (simp_all add: index_fields index_less)
  moreover have "2 ^ PUD_BITS = (512 :: nat)" "2 ^ PMD_BITS = (512 :: nat)" by (simp_all add: PUD_BITS_def PMD_BITS_def)
  ultimately show ?thesis
    unfolding init_boot_vspace64_def info Let_def bss_tables64_fields
    by (simp only: fill_up store_at_def length_replicate if_True bind.simps) simp
qed

lemma hyp_tables64_result:
  assumes info: "virt_region_start info = fv" "phys_region_start info = fp"
  defines "k \<equiv> unat (GET_PMD_INDEX fv)"
  shows "init_hyp_boot_vspace64 smp l info bss_tables64 = Some (bss_tables64\<lparr>
    boot_pud_up := (replicate 512 0)[unat (GET_PUD_INDEX fv) := table_desc (boot_pmd_up_addr l)],
    boot_pmd_up := fill 0 k 512 (\<lambda>i. normal_2mb smp (i - k) fp) (replicate 512 0),
    boot_pgd_down := ((replicate 512 0)[0 := table_desc (boot_pud_down_addr l)])
      [unat (GET_PGD_INDEX fv) := table_desc (boot_pud_up_addr l)],
    boot_pud_down := fill 0 0 512 device_1gb (replicate 512 0)\<rparr>)"
proof -
  have "unat (GET_PGD_INDEX fv) < 512" "unat (GET_PUD_INDEX fv) < 512" by (simp_all add: index_fields index_less)
  moreover have "2 ^ PUD_BITS = (512 :: nat)" "2 ^ PMD_BITS = (512 :: nat)" by (simp_all add: PUD_BITS_def PMD_BITS_def)
  ultimately show ?thesis
    unfolding init_hyp_boot_vspace64_def info Let_def bss_tables64_fields k_def
    by (simp only: fill_up store_at_def length_replicate length_list_update if_True bind.simps) simp
qed

lemmas window_order_pmd = window_order [folded index_fields(3)]
lemmas window_offset_pmd = window_offset [folded index_fields(3)]

text \<open>The block that maps an address of the window.\<close>

lemma window_block:
  fixes fp va :: uint64
  assumes fp: "aligned 21 fp" "unat fp + 2 ^ 30 \<le> 2 ^ 48" and j: "j < 512"
    and d: "boot_pmd_up t ! unat (GET_PMD_INDEX va) = normal_2mb smp j fp"
  shows "(let d2 = boot_pmd_up t ! unat (GET_PMD_INDEX va)
        in if take_bit 2 d2 = 1 then Some (out_addr 21 d2 OR take_bit 21 va) else None) =
    Some (push_bit 21 (of_nat j) + fp + take_bit 21 va)"
proof -
  have al: "aligned 21 (push_bit 21 (of_nat j) + fp)" by (intro aligned_add fp) simp
  have p: "push_bit 21 (of_nat j) = (of_nat (2 ^ 21 * j) :: uint64)" by (simp add: push_bit_eq_mult mult.commute)
  have "unat (fp + of_nat (2 ^ 21 * j)) = unat fp + 2 ^ 21 * j"
    using fp(2) j by (intro unat_plus_of_nat) simp
  then have "unat (push_bit 21 (of_nat j) + fp) < 2 ^ 48" using fp(2) j unfolding p by (simp add: add.commute)
  then have "fits_48 (push_bit 21 (of_nat j) + fp)"
    unfolding fits_48_def word_unat_eq_iff unsigned_take_bit_eq by (simp only: take_bit_nat_eq_self)
  from mb_entry [OF al this] show ?thesis
    unfolding Let_def d aligned_or [OF al, symmetric] by simp
qed

text \<open>For the concrete instances.\<close>

definition sample_kernel64 :: "uint64 \<Rightarrow> uint64 image_info" where
  "sample_kernel64 fv = \<lparr>phys_region_start = 0x40000000, phys_region_end = 0x40100000, virt_region_start = fv,
     virt_region_end = fv + 0x100000, virt_entry = fv, phys_virt_offset = 0x40000000 - fv\<rparr>"

definition sample_links64 :: links64 where
  "sample_links64 = \<lparr>boot_pud_up_addr = 0x50000000, boot_pmd_up_addr = 0x50001000, boot_pud_down_addr = 0x50003000\<rparr>"

lemma sample_kernel64_fields:
  "virt_region_start (sample_kernel64 fv) = fv" "phys_region_start (sample_kernel64 fv) = 0x40000000"
  by (simp_all add: sample_kernel64_def)

lemma sample_links64_good: "good_links sample_links64"
  by (simp add: good_links_def sample_links64_def aligned_def fits_48_def)

section \<open>The maps that are built\<close>

lemma pmd_index_less: "unat (GET_PGD_INDEX va) < 512" "unat (GET_PUD_INDEX va) < 512" "unat (GET_PMD_INDEX va) < 512"
  by (simp_all add: index_fields index_less)

text \<open>The walk through the kernel's table, filled from its first entry and from the kernel's entry.\<close>

lemma walk_gigabyte:
  assumes l: "good_links l" and fp: "aligned 21 fp" "unat fp + 2 ^ 30 \<le> 2 ^ 48"
    and pgd: "pgd ! unat (GET_PGD_INDEX va) = table_desc (boot_pud_up_addr l)"
    and pud: "boot_pud_up t = (replicate 512 0)[unat (GET_PUD_INDEX fv) := table_desc (boot_pmd_up_addr l)]"
    and pmd: "boot_pmd_up t = fill 0 0 512 (\<lambda>i. normal_2mb smp i fp) (replicate 512 0)"
  shows "walk l t pgd va =
    (if unat (GET_PUD_INDEX va) = unat (GET_PUD_INDEX fv) then Some (fp + take_bit 30 va) else None)"
proof -
  note w = walk_window [OF l pgd pud pmd_index_less(2)]
  have "boot_pmd_up t ! unat (GET_PMD_INDEX va) = normal_2mb smp (unat (GET_PMD_INDEX va)) fp"
    using pmd_index_less by (simp add: pmd nth_fill)
  note b = window_block [OF fp pmd_index_less(3) this]
  have "push_bit 21 (of_nat (unat (GET_PMD_INDEX va))) + fp + take_bit 21 va = fp + take_bit 30 va"
    using mid_bits [of va] by (simp add: index_fields)
  then show ?thesis unfolding w b by simp
qed

lemma walk_from_index:
  assumes l: "good_links l" and fp: "aligned 21 fp" "unat fp + 2 ^ 30 \<le> 2 ^ 48" and fv: "aligned 21 fv"
    and pgd: "pgd ! unat (GET_PGD_INDEX va) = table_desc (boot_pud_up_addr l)"
    and pud: "boot_pud_up t = (replicate 512 0)[unat (GET_PUD_INDEX fv) := table_desc (boot_pmd_up_addr l)]"
    and pmd: "boot_pmd_up t = fill 0 (unat (GET_PMD_INDEX fv)) 512
      (\<lambda>i. normal_2mb smp (i - unat (GET_PMD_INDEX fv)) fp) (replicate 512 0)"
    and gb: "drop_bit 30 va = drop_bit 30 fv \<longleftrightarrow> unat (GET_PUD_INDEX va) = unat (GET_PUD_INDEX fv)"
  shows "walk l t pgd va = (if drop_bit 30 va = drop_bit 30 fv \<and> fv \<le> va then Some (va - fv + fp) else None)"
proof -
  let ?k = "unat (GET_PMD_INDEX fv)"
  note w = walk_window [OF l pgd pud pmd_index_less(2)]
  show ?thesis
  proof (cases "drop_bit 30 va = drop_bit 30 fv")
    case False
    then show ?thesis using gb unfolding w by simp
  next
    case same: True
    show ?thesis
    proof (cases "?k \<le> unat (GET_PMD_INDEX va)")
      case True
      then have "boot_pmd_up t ! unat (GET_PMD_INDEX va) = normal_2mb smp (unat (GET_PMD_INDEX va) - ?k) fp"
        using pmd_index_less by (simp add: pmd nth_fill)
      note b = window_block [OF fp order_le_less_trans [OF diff_le_self pmd_index_less(3)] this]
      have "walk l t pgd va = Some (va - fv + fp)"
        unfolding w b window_offset_pmd [OF fv same True] using gb same by simp
      then show ?thesis using same True window_order_pmd [OF fv same] by simp
    next
      case False
      then have "boot_pmd_up t ! unat (GET_PMD_INDEX va) = 0" using pmd_index_less by (simp add: pmd nth_fill)
      then have "walk l t pgd va = None" unfolding w by simp
      then show ?thesis using False window_order_pmd [OF fv same] by simp
    qed
  qed
qed

lemma boot_vspace64_map:
  assumes info: "virt_region_start info = fv" "phys_region_start info = fp"
    and fv: "drop_bit 48 fv = 0xffff" and fp: "aligned 21 fp" "unat fp + 2 ^ 30 \<le> 2 ^ 48" and l: "good_links l"
  shows "\<exists>t. init_boot_vspace64 smp l info bss_tables64 = Some t \<and>
    (\<forall>va. translate_el1 l t va =
      (if drop_bit 39 va = 0 then Some va
       else if drop_bit 30 va = drop_bit 30 fv then Some (fp + take_bit 30 va)
       else None)) \<and>
    (translate_el1 l t fv = Some fp \<longleftrightarrow> take_bit 30 fv = 0)"
proof -
  note result = boot_tables_result [OF info, of smp l]
  let ?t = "the (init_boot_vspace64 smp l info bss_tables64)"
  have down: "boot_pgd_down ?t = (replicate 512 0)[0 := table_desc (boot_pud_down_addr l)]"
    and up: "boot_pgd_up ?t = (replicate 512 0)[unat (GET_PGD_INDEX fv) := table_desc (boot_pud_up_addr l)]"
    and pud: "boot_pud_down ?t = fill 0 0 512 device_1gb (replicate 512 0)"
      "boot_pud_up ?t = (replicate 512 0)[unat (GET_PUD_INDEX fv) := table_desc (boot_pmd_up_addr l)]"
    and pmd: "boot_pmd_up ?t = fill 0 0 512 (\<lambda>i. normal_2mb smp i fp) (replicate 512 0)"
    by (simp_all add: result)
  have tr: "translate_el1 l ?t va =
      (if drop_bit 39 va = 0 then Some va
       else if drop_bit 30 va = drop_bit 30 fv then Some (fp + take_bit 30 va) else None)" for va
  proof -
    note less = pmd_index_less(1) [of va]
    have gb: "drop_bit 30 va = drop_bit 30 fv \<longleftrightarrow> drop_bit 48 va = 0xffff \<and>
        unat (GET_PGD_INDEX va) = unat (GET_PGD_INDEX fv) \<and> unat (GET_PUD_INDEX va) = unat (GET_PUD_INDEX fv)"
      unfolding same_gb fv by (simp only: word_unat_eq_iff [of "GET_PGD_INDEX _"] word_unat_eq_iff [of "GET_PUD_INDEX _"])
    consider "drop_bit 48 va = 0" | "drop_bit 48 va = 0xffff" | "drop_bit 48 va \<noteq> 0" "drop_bit 48 va \<noteq> 0xffff" by blast
    then show ?thesis
    proof cases
      case 1
      then have low: "drop_bit 39 va = 0 \<longleftrightarrow> unat (GET_PGD_INDEX va) = 0" by (simp add: low_512gb unat_eq_zero)
      show ?thesis
      proof (cases "unat (GET_PGD_INDEX va) = 0")
        case True
        then show ?thesis
          using 1 low walk_identity [OF l _ _ pud(1), of va "boot_pgd_down ?t"] by (simp add: translate_el1_def down)
      next
        case False
        then have "walk l ?t (boot_pgd_down ?t) va = None"
          using less by (intro walk_none) (simp add: down nth_single)
        then show ?thesis using 1 low gb False by (simp add: translate_el1_def)
      qed
    next
      case 2
      then have high: "drop_bit 39 va \<noteq> 0" by (simp add: low_512gb)
      show ?thesis
      proof (cases "unat (GET_PGD_INDEX va) = unat (GET_PGD_INDEX fv)")
        case True
        then have pgd: "boot_pgd_up ?t ! unat (GET_PGD_INDEX va) = table_desc (boot_pud_up_addr l)"
          using less by (simp add: up)
        show ?thesis
          using 2 high True gb walk_gigabyte [OF l fp pgd pud(2) pmd] by (simp add: translate_el1_def)
      next
        case False
        then have "walk l ?t (boot_pgd_up ?t) va = None"
          using less by (intro walk_none) (simp add: up nth_single)
        then show ?thesis using 2 high gb False by (simp add: translate_el1_def)
      qed
    next
      case 3
      then have "drop_bit 39 va \<noteq> 0" "drop_bit 30 va \<noteq> drop_bit 30 fv" using gb by (auto simp: low_512gb)
      then show ?thesis using 3 by (simp add: translate_el1_def)
    qed
  qed
  moreover have "drop_bit 39 fv \<noteq> 0" using fv by (auto simp: low_512gb)
  ultimately show ?thesis using result by auto
qed

lemma hyp_vspace64_map:
  assumes info: "virt_region_start info = fv" "phys_region_start info = fp"
    and fv: "drop_bit 48 fv = 0" "aligned 21 fv" and fp: "aligned 21 fp" "unat fp + 2 ^ 30 \<le> 2 ^ 48" and l: "good_links l"
  shows "\<exists>t. init_hyp_boot_vspace64 smp l info bss_tables64 = Some t \<and>
    (\<forall>va. translate_el2 l t va =
      (if drop_bit 30 va = drop_bit 30 fv \<and> fv \<le> va then Some (va - fv + fp)
       else if drop_bit 39 va = 0 \<and> drop_bit 39 fv \<noteq> 0 then Some va
       else None))"
proof -
  note result = hyp_tables64_result [OF info, of smp l]
  let ?t = "the (init_hyp_boot_vspace64 smp l info bss_tables64)" and ?k = "unat (GET_PMD_INDEX fv)"
  have down: "boot_pgd_down ?t = ((replicate 512 0)[0 := table_desc (boot_pud_down_addr l)])
      [unat (GET_PGD_INDEX fv) := table_desc (boot_pud_up_addr l)]"
    and pud: "boot_pud_down ?t = fill 0 0 512 device_1gb (replicate 512 0)"
      "boot_pud_up ?t = (replicate 512 0)[unat (GET_PUD_INDEX fv) := table_desc (boot_pmd_up_addr l)]"
    and pmd: "boot_pmd_up ?t = fill 0 ?k 512 (\<lambda>i. normal_2mb smp (i - ?k) fp) (replicate 512 0)"
    by (simp_all add: result)
  have "translate_el2 l ?t va =
      (if drop_bit 30 va = drop_bit 30 fv \<and> fv \<le> va then Some (va - fv + fp)
       else if drop_bit 39 va = 0 \<and> drop_bit 39 fv \<noteq> 0 then Some va
       else None)" for va
  proof (cases "drop_bit 48 va = 0")
    case False
    then show ?thesis using fv(1) same_gb [of va fv] low_512gb [of va] by (simp add: translate_el2_def)
  next
    case True
    note less = pmd_index_less(1) [of va]
    have gb: "drop_bit 30 va = drop_bit 30 fv \<longleftrightarrow>
        unat (GET_PGD_INDEX va) = unat (GET_PGD_INDEX fv) \<and> unat (GET_PUD_INDEX va) = unat (GET_PUD_INDEX fv)"
      unfolding same_gb fv True by (simp only: word_unat_eq_iff [of "GET_PGD_INDEX _"] word_unat_eq_iff [of "GET_PUD_INDEX _"] simp_thms)
    have low: "drop_bit 39 va = 0 \<longleftrightarrow> unat (GET_PGD_INDEX va) = 0" "drop_bit 39 fv = 0 \<longleftrightarrow> unat (GET_PGD_INDEX fv) = 0"
      using True fv by (simp_all add: low_512gb unat_eq_zero)
    have tr: "translate_el2 l ?t va = walk l ?t (boot_pgd_down ?t) va" using True by (simp add: translate_el2_def)
    consider "unat (GET_PGD_INDEX va) = unat (GET_PGD_INDEX fv)"
      | "unat (GET_PGD_INDEX va) \<noteq> unat (GET_PGD_INDEX fv)" "unat (GET_PGD_INDEX va) = 0"
      | "unat (GET_PGD_INDEX va) \<noteq> unat (GET_PGD_INDEX fv)" "unat (GET_PGD_INDEX va) \<noteq> 0" by blast
    then show ?thesis
    proof cases
      case 1
      then have pgd: "boot_pgd_down ?t ! unat (GET_PGD_INDEX va) = table_desc (boot_pud_up_addr l)"
        using less by (simp add: down)
      note w = walk_from_index [OF l fp fv(2) pgd pud(2) pmd]
      show ?thesis using 1 low gb unfolding tr by (subst w) auto
    next
      case 2
      then have "boot_pgd_down ?t ! 0 = table_desc (boot_pud_down_addr l)" by (simp add: down)
      from walk_identity [OF l _ this pud(1), of va] show ?thesis using 2 low gb tr by simp
    next
      case 3
      then have "walk l ?t (boot_pgd_down ?t) va = None"
        using less by (intro walk_none) (simp add: down nth_list_update)
      then show ?thesis using 3 low gb tr by auto
    qed
  qed
  with result show ?thesis by auto
qed

text \<open>Both maps provide the kernel's window and the loader's identity; at EL1 only if the kernel
  starts on a gigabyte, at EL2 only if it does not share the lower 512 GB with the loader.\<close>

definition el1_ok :: "links64 \<Rightarrow> uint64 image_info \<Rightarrow> bool" where
  "el1_ok l info \<longleftrightarrow> drop_bit 48 (virt_region_start info) = 0xffff \<and> take_bit 30 (virt_region_start info) = 0 \<and>
     aligned 21 (phys_region_start info) \<and> unat (phys_region_start info) + 2 ^ 30 \<le> 2 ^ 48 \<and> good_links l"

definition el2_ok :: "links64 \<Rightarrow> uint64 image_info \<Rightarrow> bool" where
  "el2_ok l info \<longleftrightarrow> drop_bit 48 (virt_region_start info) = 0 \<and> drop_bit 39 (virt_region_start info) \<noteq> 0 \<and>
     aligned 21 (virt_region_start info) \<and> aligned 21 (phys_region_start info) \<and>
     unat (phys_region_start info) + 2 ^ 30 \<le> 2 ^ 48 \<and> good_links l"

lemma offset_in_gb:
  fixes va fv :: uint64
  assumes "drop_bit 30 va = drop_bit 30 fv" and "take_bit 30 fv = 0"
  shows "take_bit 30 va = va - fv"
  using push_drop [of 30 va] push_drop [of 30 fv] assms by (simp add: algebra_simps)

interpretation el1: kernel_window "\<lambda>info. init_boot_vspace64 smp l info bss_tables64" "translate_el1 l"
  "el1_ok l" "\<lambda>info. {va. drop_bit 30 va = drop_bit 30 (virt_region_start info)}" "\<lambda>info. {va. drop_bit 39 va = 0}"
  for smp l
proof unfold_locales
  fix info
  assume ok: "el1_ok l info"
  let ?fv = "virt_region_start info"
  obtain t where t: "init_boot_vspace64 smp l info bss_tables64 = Some t"
    and map: "\<And>va. translate_el1 l t va =
      (if drop_bit 39 va = 0 then Some va
       else if drop_bit 30 va = drop_bit 30 ?fv then Some (phys_region_start info + take_bit 30 va)
       else None)"
    using boot_vspace64_map [OF refl refl, of info l smp] ok unfolding el1_ok_def by auto
  show "\<exists>t. init_boot_vspace64 smp l info bss_tables64 = Some t" using t by blast
  fix t' va
  assume t': "init_boot_vspace64 smp l info bss_tables64 = Some t'"
  show "\<exists>pa. translate_el1 l t' va = Some pa \<and> ucast pa = va - ?fv + phys_region_start info"
    if "va \<in> {va. drop_bit 30 va = drop_bit 30 ?fv}"
  proof -
    have gb: "drop_bit 30 va = drop_bit 30 ?fv" using that by simp
    have "drop_bit 39 va \<noteq> 0" using gb ok by (auto simp: low_512gb same_gb el1_ok_def)
    then show ?thesis using gb offset_in_gb [OF gb] ok t t' by (simp add: map el1_ok_def)
  qed
  show "\<exists>pa. translate_el1 l t' va = Some pa \<and> ucast pa = va" if "va \<in> {va. drop_bit 39 va = 0}"
    using that t t' by (simp add: map)
qed

interpretation el2: kernel_window "\<lambda>info. init_hyp_boot_vspace64 smp l info bss_tables64" "translate_el2 l"
  "el2_ok l" "\<lambda>info. {va. drop_bit 30 va = drop_bit 30 (virt_region_start info) \<and> virt_region_start info \<le> va}"
  "\<lambda>info. {va. drop_bit 39 va = 0}" for smp l
proof unfold_locales
  fix info
  assume ok: "el2_ok l info"
  let ?fv = "virt_region_start info"
  obtain t where t: "init_hyp_boot_vspace64 smp l info bss_tables64 = Some t"
    and map: "\<And>va. translate_el2 l t va =
      (if drop_bit 30 va = drop_bit 30 ?fv \<and> ?fv \<le> va then Some (va - ?fv + phys_region_start info)
       else if drop_bit 39 va = 0 \<and> drop_bit 39 ?fv \<noteq> 0 then Some va
       else None)"
    using hyp_vspace64_map [OF refl refl, of info l smp] ok unfolding el2_ok_def by auto
  show "\<exists>t. init_hyp_boot_vspace64 smp l info bss_tables64 = Some t" using t by blast
  fix t' va
  assume t': "init_hyp_boot_vspace64 smp l info bss_tables64 = Some t'"
  show "\<exists>pa. translate_el2 l t' va = Some pa \<and> ucast pa = va - ?fv + phys_region_start info"
    if "va \<in> {va. drop_bit 30 va = drop_bit 30 ?fv \<and> ?fv \<le> va}"
    using that t t' by (simp add: map)
  show "\<exists>pa. translate_el2 l t' va = Some pa \<and> ucast pa = va" if "va \<in> {va. drop_bit 39 va = 0}"
  proof -
    have "drop_bit 30 va \<noteq> drop_bit 30 ?fv" using that ok by (auto simp: low_512gb same_gb el2_ok_def)
    then show ?thesis using that ok t t' by (simp add: map el2_ok_def)
  qed
qed

section \<open>Properties\<close>





end
