(* ===== verification/Riscv_Boot.thy ===== *)
theory Riscv_Boot
  imports Kernel_Window
begin

text \<open>
  The page tables of src/arch-riscv/boot.c, for both widths and both numbers of levels the
  configuration allows, the value that switches them on, and the Sv39 translation the hardware
  makes from them.

  \<open>levels\<close> is CONFIG_PT_LEVELS, an \<open>'a word\<close> is an \<^verbatim>\<open>unsigned long\<close>. The left shift of an
  \<^verbatim>\<open>int\<close> that overflows is undefined; it makes the run \<open>None\<close>.
\<close>

section \<open>The code\<close>

definition PTE_LEVEL_BITS :: "'a::len itself \<Rightarrow> nat" where
  "PTE_LEVEL_BITS t = (if LENGTH('a) = 32 then 21 else 30)"

definition PT_INDEX_BITS :: "'a::len itself \<Rightarrow> nat" where
  "PT_INDEX_BITS t = (if LENGTH('a) = 32 then 10 else 9)"

definition PPN_HIGH :: "'a::len itself \<Rightarrow> nat" where
  "PPN_HIGH t = (if LENGTH('a) = 32 then 20 else 28)"

definition PTES_PER_PT :: "'a::len itself \<Rightarrow> nat" where
  "PTES_PER_PT t = 2 ^ PT_INDEX_BITS t"

definition PT_LEVEL_2_BITS :: nat where "PT_LEVEL_2_BITS = 21"
definition RISCV_PGSHIFT :: nat where "RISCV_PGSHIFT = 12"
definition PTE_PPN0_SHIFT :: nat where "PTE_PPN0_SHIFT = 10"
definition PTE_TYPE_TABLE :: "'a::len word" where "PTE_TYPE_TABLE = 0x00"
definition PTE_TYPE_SRWX :: "'a::len word" where "PTE_TYPE_SRWX = 0xCE"
definition PTE_V :: "'a::len word" where "PTE_V = 0x001"

definition PTE_CREATE :: "uint64 \<Rightarrow> 'a::len word" where
  "PTE_CREATE PPN = ucast ((ucast PPN :: uint32) OR PTE_TYPE_SRWX OR PTE_V)"

definition PTE_CREATE_PPN :: "'a::len word \<Rightarrow> 'a word" where
  "PTE_CREATE_PPN PT_BASE = push_bit PTE_PPN0_SHIFT (drop_bit RISCV_PGSHIFT PT_BASE)"

definition PTE_CREATE_NEXT :: "'a::len word \<Rightarrow> 'a word" where
  "PTE_CREATE_NEXT PT_BASE = PTE_CREATE_PPN PT_BASE OR PTE_TYPE_TABLE OR PTE_V"

definition PTE_CREATE_LEAF :: "'a::len word \<Rightarrow> 'a word" where
  "PTE_CREATE_LEAF PT_BASE = PTE_CREATE_PPN PT_BASE OR PTE_TYPE_SRWX OR PTE_V"

definition GET_PT_INDEX_RV :: "nat \<Rightarrow> 'a::len word \<Rightarrow> nat \<Rightarrow> nat" where
  "GET_PT_INDEX_RV levels addr n =
     unat (drop_bit (PT_INDEX_BITS TYPE('a) * (levels - n) + RISCV_PGSHIFT) addr) mod PTES_PER_PT TYPE('a)"

definition VIRT_PHYS_ALIGNED :: "'a::len word \<Rightarrow> 'a word \<Rightarrow> nat \<Rightarrow> bool" where
  "VIRT_PHYS_ALIGNED virt phys level_bits \<longleftrightarrow> IS_ALIGNED virt level_bits \<and> IS_ALIGNED phys level_bits"

text \<open>\<^verbatim>\<open>page << bits\<close> of an \<^verbatim>\<open>int\<close>.\<close>

definition shift_page :: "nat \<Rightarrow> nat \<Rightarrow> 'a::len word option" where
  "shift_page page bits = (if page * 2 ^ bits < 2 ^ 31 then Some (of_nat (page * 2 ^ bits)) else None)"

record 'w riscv_tables =
  l1pt :: "'w list"
  l2pt :: "'w list"

text \<open>The outer option is undefined behaviour, the inner one the call of \<^verbatim>\<open>abort\<close>.\<close>

definition map_kernel_window ::
    "nat \<Rightarrow> 'a::len word \<Rightarrow> 'a word image_info \<Rightarrow> 'a word riscv_tables \<Rightarrow> 'a word riscv_tables option option" where
  "map_kernel_window levels l2pt_addr kernel_info t = do {
     let vstart = virt_region_start kernel_info;
     let pstart = phys_region_start kernel_info;
     let n = PTES_PER_PT TYPE('a);
     l1 \<leftarrow> for_up 0 n (\<lambda>i. store_at i (PTE_CREATE (push_bit (PPN_HIGH TYPE('a)) (of_nat i)))) (l1pt t);
     let l1_index = GET_PT_INDEX_RV levels vstart 1;
     if VIRT_PHYS_ALIGNED vstart pstart (PTE_LEVEL_BITS TYPE('a)) then do {
       l1 \<leftarrow> for_up l1_index n (\<lambda>i l1. do {
         off \<leftarrow> shift_page (i - l1_index) (PTE_LEVEL_BITS TYPE('a));
         store_at i (PTE_CREATE_LEAF (pstart + off)) l1 }) l1;
       Some (Some (t\<lparr>l1pt := l1\<rparr>))
     } else if levels = 3 \<and> VIRT_PHYS_ALIGNED vstart pstart PT_LEVEL_2_BITS then do {
       let l2_index = GET_PT_INDEX_RV levels vstart 2;
       l1 \<leftarrow> store_at l1_index (PTE_CREATE_NEXT l2pt_addr) l1;
       l2 \<leftarrow> for_up l2_index n (\<lambda>i l2. do {
         off \<leftarrow> shift_page (i - l2_index) PT_LEVEL_2_BITS;
         store_at i (PTE_CREATE_LEAF (pstart + off)) l2 }) (l2pt t);
       Some (Some (t\<lparr>l1pt := l1, l2pt := l2\<rparr>))
     } else Some None
   }"

definition vm_mode :: "nat \<Rightarrow> uint64" where
  "vm_mode levels = (if levels = 2 then push_bit 31 1 else if levels = 3 then push_bit 60 8 else push_bit 60 9)"

text \<open>The value written to \<^verbatim>\<open>sptbr\<close>.\<close>

definition sptbr_value :: "nat \<Rightarrow> 'a::len word \<Rightarrow> 'a word" where
  "sptbr_value levels l1pt_addr = ucast (vm_mode levels OR ucast (drop_bit RISCV_PGSHIFT l1pt_addr))"

definition bss_riscv :: "'a::len word riscv_tables" where
  "bss_riscv = \<lparr>l1pt = replicate (PTES_PER_PT TYPE('a)) 0, l2pt = replicate (PTES_PER_PT TYPE('a)) 0\<rparr>"

section \<open>The translation the hardware makes\<close>

text \<open>Sv39 as far as these tables use it: an entry is a 1 GB or 2 MB leaf when one of its
  permission bits is set, else it points to a table, which exists at one address. A leaf
  whose low page-number bits are not zero faults, and so does an address that is not the
  sign extension of its low 39 bits.\<close>

definition pte_ppn :: "uint64 \<Rightarrow> uint64" where
  "pte_ppn e = take_bit 44 (drop_bit 10 e)"

definition leaf :: "'b::len word \<Rightarrow> bool" where
  "leaf e \<longleftrightarrow> bit e 0 \<and> (bit e 1 \<or> bit e 2 \<or> bit e 3)"

definition canonical39 :: "uint64 \<Rightarrow> bool" where
  "canonical39 va \<longleftrightarrow> drop_bit 38 va = 0 \<or> drop_bit 38 va = mask 26"

definition sv39 :: "uint64 \<Rightarrow> uint64 riscv_tables \<Rightarrow> uint64 \<Rightarrow> uint64 option" where
  "sv39 l2pt_addr t va = (if \<not> canonical39 va then None else
     (let e1 = l1pt t ! unat (take_bit 9 (drop_bit 30 va))
      in if leaf e1 then
           (if take_bit 18 (pte_ppn e1) = 0 then Some (push_bit 12 (pte_ppn e1) OR take_bit 30 va) else None)
         else if \<not> bit e1 0 \<or> push_bit 12 (pte_ppn e1) \<noteq> l2pt_addr then None
         else let e2 = l2pt t ! unat (take_bit 9 (drop_bit 21 va))
         in if leaf e2 \<and> take_bit 9 (pte_ppn e2) = 0 then Some (push_bit 12 (pte_ppn e2) OR take_bit 21 va) else None))"

text \<open>The translation in force with the value \<open>v\<close> in \<^verbatim>\<open>sptbr\<close> (later \<^verbatim>\<open>satp\<close>) on a 64-bit
  processor: the mode is in the top four bits, 0 for none and 8 for Sv39, the page number of the
  root table in the low 44. There is a root table at \<open>l1pt_at\<close> only.\<close>

definition rv64_translate ::
    "uint64 \<Rightarrow> uint64 \<Rightarrow> uint64 \<Rightarrow> uint64 riscv_tables \<Rightarrow> uint64 \<Rightarrow> uint64 option" where
  "rv64_translate v l1pt_at l2pt_at t va =
     (if drop_bit 60 v = 0 then Some va
      else if drop_bit 60 v = 8 \<and> push_bit 12 (take_bit 44 v) = l1pt_at then sv39 l2pt_at t va
      else None)"

text \<open>Sv32, first level only: a leaf covers 4 MB and its low ten page-number bits must be zero.\<close>

definition sv32 :: "uint32 riscv_tables \<Rightarrow> uint32 \<Rightarrow> uint64 option" where
  "sv32 t va =
     (let e = l1pt t ! unat (drop_bit 22 va); ppn = drop_bit 10 e
      in if leaf e \<and> take_bit 10 ppn = 0
         then Some (push_bit 12 (ucast ppn) OR ucast (take_bit 22 va)) else None)"

section \<open>Entries\<close>

lemma rv64_sizes [simp]:
  "PT_INDEX_BITS TYPE(64) = 9" "PTES_PER_PT TYPE(64) = 512" "PTE_LEVEL_BITS TYPE(64) = 30" "PPN_HIGH TYPE(64) = 28"
  by (simp_all add: PT_INDEX_BITS_def PTES_PER_PT_def PTE_LEVEL_BITS_def PPN_HIGH_def)

text \<open>A canonical address is determined by its low 39 bits.\<close>

lemma canonical39_bit:
  assumes "canonical39 va" and "38 \<le> i" "i < 64"
  shows "bit va i = bit va 38"
proof -
  have "bit (drop_bit 38 va) (i - 38) = bit (drop_bit 38 va) 0"
    using assms by (auto simp: canonical39_def bit_mask_iff)
  then show ?thesis using assms(2) by (simp add: bit_drop_bit_eq)
qed

lemma canonical39_gigabyte:
  "drop_bit 30 va = drop_bit 30 fv \<Longrightarrow> canonical39 va = canonical39 fv"
  using drop_bit_drop_bit [of 8 30 va] drop_bit_drop_bit [of 8 30 fv] by (simp add: canonical39_def)

lemma canonical39_index:
  assumes "canonical39 va" "canonical39 fv"
  shows "take_bit 9 (drop_bit 30 va) = take_bit 9 (drop_bit 30 fv) \<longleftrightarrow> drop_bit 30 va = drop_bit 30 fv"
proof
  assume index: "take_bit 9 (drop_bit 30 va) = take_bit 9 (drop_bit 30 fv)"
  have low: "bit va (30 + i) = bit fv (30 + i)" if "i < 9" for i
    using that index bit_take_bit_iff [of 9 "drop_bit 30 va" i] bit_take_bit_iff [of 9 "drop_bit 30 fv" i]
    by (simp add: bit_drop_bit_eq)
  show "drop_bit 30 va = drop_bit 30 fv"
  proof (rule bit_eqI)
    fix i
    assume "possible_bit TYPE(64 word) i"
    show "bit (drop_bit 30 va) i \<longleftrightarrow> bit (drop_bit 30 fv) i"
    proof (cases "i < 9 \<or> 34 \<le> i")
      case True
      then show ?thesis using low by (auto simp: bit_drop_bit_eq dest: bit_imp_le_length)
    next
      case False
      then show ?thesis
        using low [of 8] canonical39_bit [OF assms(1), of "30 + i"] canonical39_bit [OF assms(2), of "30 + i"]
        by (simp add: bit_drop_bit_eq)
    qed
  qed
qed simp

lemma low_canonical39: "take_bit 34 va = va \<Longrightarrow> canonical39 va"
  using drop_bit_take_bit [of 38 34 va] by (simp add: canonical39_def)

lemma index_nat: "unat (take_bit 9 x) = unat x mod 512" for x :: uint64
  by (simp add: unsigned_take_bit_eq take_bit_eq_mod [of _ "unat x"])

lemma GET_PT_INDEX_sv39:
  "GET_PT_INDEX_RV 3 addr 1 = unat (take_bit 9 (drop_bit 30 (addr :: uint64)))"
  "GET_PT_INDEX_RV 3 addr 2 = unat (take_bit 9 (drop_bit 21 addr))"
  by (simp_all add: GET_PT_INDEX_RV_def RISCV_PGSHIFT_def index_nat)

text \<open>An entry whose low ten bits are flags.\<close>

lemma flags_entry:
  fixes p f :: uint64
  assumes f: "take_bit 10 f = f" and p: "take_bit 44 p = p"
  shows "take_bit 10 (push_bit 10 p OR f) = f" and "pte_ppn (push_bit 10 p OR f) = p"
proof -
  show "take_bit 10 (push_bit 10 p OR f) = f" using f by (simp add: take_bit_push_bit)
  have low: "m < 10" if "bit f m" for m using that f bit_take_bit_iff [of 10 f m] by simp
  have "take_bit 44 (drop_bit 10 (push_bit 10 p OR f)) = take_bit 44 p"
    by (rule bit_eqI) (auto simp: bit_simps dest: low)
  then show "pte_ppn (push_bit 10 p OR f) = p" by (simp add: pte_ppn_def p)
qed

lemma leaf_flags: "take_bit 10 e = 0xCF \<Longrightarrow> leaf (e :: uint64)" "take_bit 10 d = 0xCF \<Longrightarrow> leaf (d :: uint32)"
  using bit_take_bit_iff [of 10 e 0] bit_take_bit_iff [of 10 e 1] bit_take_bit_iff [of 10 d 0] bit_take_bit_iff [of 10 d 1]
  by (simp_all add: leaf_def)

lemma leaf_entry:
  fixes x :: uint64
  assumes "take_bit 56 x = x"
  shows "leaf (PTE_CREATE_LEAF x)" and "pte_ppn (PTE_CREATE_LEAF x) = drop_bit 12 x"
proof -
  have e: "PTE_CREATE_LEAF x = push_bit 10 (drop_bit 12 x) OR 0xCF"
    by (simp add: PTE_CREATE_LEAF_def PTE_CREATE_PPN_def PTE_TYPE_SRWX_def PTE_V_def RISCV_PGSHIFT_def PTE_PPN0_SHIFT_def or.assoc)
  have p: "take_bit 44 (drop_bit 12 x) = drop_bit 12 x"
    using assms take_bit_drop_bit [of 44 12 x] by simp
  show "leaf (PTE_CREATE_LEAF x)" and "pte_ppn (PTE_CREATE_LEAF x) = drop_bit 12 x"
    unfolding e using flags_entry [OF _ p, of "0xCF"] by (auto intro: leaf_flags)
qed

lemma next_entry:
  fixes x :: uint64
  assumes "take_bit 56 x = x"
  shows "\<not> leaf (PTE_CREATE_NEXT x)" and "bit (PTE_CREATE_NEXT x) 0" and "pte_ppn (PTE_CREATE_NEXT x) = drop_bit 12 x"
proof -
  have e: "PTE_CREATE_NEXT x = push_bit 10 (drop_bit 12 x) OR 1"
    by (simp add: PTE_CREATE_NEXT_def PTE_CREATE_PPN_def PTE_TYPE_TABLE_def PTE_V_def RISCV_PGSHIFT_def PTE_PPN0_SHIFT_def)
  have p: "take_bit 44 (drop_bit 12 x) = drop_bit 12 x"
    using assms take_bit_drop_bit [of 44 12 x] by simp
  show "\<not> leaf (PTE_CREATE_NEXT x)" unfolding e leaf_def by (simp add: bit_simps)
  show "bit (PTE_CREATE_NEXT x) 0" unfolding e by (simp add: bit_simps)
  show "pte_ppn (PTE_CREATE_NEXT x) = drop_bit 12 x"
    unfolding e using flags_entry [OF _ p, of 1] by simp
qed

text \<open>The first loop's entry number \<open>i\<close> is cut to 32 bits: only the last four bits of \<open>i\<close> are
  left.\<close>

lemma identity_entry:
  assumes "i < 512"
  shows "leaf (PTE_CREATE (push_bit 28 (of_nat i)) :: uint64)"
    and "pte_ppn (PTE_CREATE (push_bit 28 (of_nat i))) = push_bit 18 (of_nat (i mod 16))"
proof -
  have "(ucast (ucast (push_bit 28 (of_nat i) :: uint64) :: uint32) :: uint64) = take_bit 32 (push_bit 28 (of_nat i))"
    by (rule bit_eqI) (auto simp: bit_simps)
  also have "\<dots> = push_bit 28 (take_bit 4 (of_nat i))" by (simp add: take_bit_push_bit)
  also have "take_bit 4 (of_nat i :: uint64) = of_nat (i mod 16)"
    using assms by (simp add: word_unat_eq_iff unsigned_take_bit_eq unat_of_nat take_bit_eq_mod [of 4 i])
  finally have e: "(PTE_CREATE (push_bit 28 (of_nat i)) :: uint64) = push_bit 10 (push_bit 18 (of_nat (i mod 16))) OR 0xCF"
    by (simp add: PTE_CREATE_def PTE_TYPE_SRWX_def PTE_V_def unsigned_or_eq or.assoc)
  have "unat (of_nat (i mod 16) :: uint64) = i mod 16" by (intro unat_of_nat_less) (simp add: order_less_trans [OF mod_less_divisor])
  then have "take_bit 26 (of_nat (i mod 16) :: uint64) = of_nat (i mod 16)"
    by (simp add: word_unat_eq_iff unsigned_take_bit_eq take_bit_nat_eq_self order_less_trans [OF mod_less_divisor])
  then have p: "take_bit 44 (push_bit 18 (of_nat (i mod 16) :: uint64)) = push_bit 18 (of_nat (i mod 16))"
    by (simp add: take_bit_push_bit)
  show "leaf (PTE_CREATE (push_bit 28 (of_nat i)) :: uint64)"
    and "pte_ppn (PTE_CREATE (push_bit 28 (of_nat i))) = push_bit 18 (of_nat (i mod 16))"
    unfolding e using flags_entry [OF _ p, of "0xCF"] by (auto intro: leaf_flags)
qed

section \<open>The tables\<close>

lemma bss_riscv_fields:
  "l1pt (bss_riscv :: uint64 riscv_tables) = replicate 512 0" "l2pt (bss_riscv :: uint64 riscv_tables) = replicate 512 0"
  by (simp_all add: bss_riscv_def)

abbreviation identity_table :: "uint64 list" where
  "identity_table \<equiv> fill 0 0 512 (\<lambda>i. PTE_CREATE (push_bit 28 (of_nat i))) (replicate 512 0)"

lemma identity_loop:
  "for_up 0 512 (\<lambda>i. store_at i (PTE_CREATE (push_bit 28 (of_nat i)))) (replicate 512 0) = Some identity_table"
  by (rule for_up_fill) simp_all

lemma map_2mb_result:
  fixes fv fp l2a :: uint64
  assumes info: "virt_region_start info = fv" "phys_region_start info = fp"
    and big: "\<not> VIRT_PHYS_ALIGNED fv fp 30" and small: "VIRT_PHYS_ALIGNED fv fp 21"
  defines "k1 \<equiv> unat (take_bit 9 (drop_bit 30 fv))" and "k2 \<equiv> unat (take_bit 9 (drop_bit 21 fv))"
  shows "map_kernel_window 3 l2a info bss_riscv = Some (Some (bss_riscv\<lparr>
    l1pt := identity_table[k1 := PTE_CREATE_NEXT l2a],
    l2pt := fill 0 k2 512 (\<lambda>i. PTE_CREATE_LEAF (fp + of_nat ((i - k2) * 2 ^ 21))) (replicate 512 0)\<rparr>))"
proof -
  have k: "k1 < 512" "k2 < 512" by (simp_all add: k1_def k2_def index_nat)
  have "for_up k2 512 (\<lambda>i l2. Option.bind (shift_page (i - k2) 21) (\<lambda>off. store_at i (PTE_CREATE_LEAF (fp + off)) l2)) (replicate 512 0) =
      Some (fill 0 k2 512 (\<lambda>i. PTE_CREATE_LEAF (fp + of_nat ((i - k2) * 2 ^ 21))) (replicate 512 0))"
  proof (rule for_up_fill)
    show "Option.bind (shift_page (i - k2) 21) (\<lambda>off. store_at i (PTE_CREATE_LEAF (fp + off)) xs) =
        store_at (0 + i) (PTE_CREATE_LEAF (fp + of_nat ((i - k2) * 2 ^ 21))) xs" if "i < 512" for i xs
    proof -
      have "(i - k2) * 2 ^ 21 < 2 ^ 31" using that by simp
      then show ?thesis by (simp only: shift_page_def if_True bind.simps) simp
    qed
  qed simp
  then show ?thesis
    unfolding map_kernel_window_def Let_def info GET_PT_INDEX_sv39 k1_def [symmetric] k2_def [symmetric] rv64_sizes
      bss_riscv_fields identity_loop PT_LEVEL_2_BITS_def
    using big small k by (simp add: store_at_def)
qed

lemma nth_identity:
  "i \<noteq> k \<Longrightarrow> i < 512 \<Longrightarrow> identity_table[k := e] ! i = PTE_CREATE (push_bit 28 (of_nat i))"
  by (simp add: nth_fill)

lemma sv39_identity:
  assumes "canonical39 va" and "l1pt t ! unat (take_bit 9 (drop_bit 30 va)) = PTE_CREATE (push_bit 28 (of_nat (unat (take_bit 9 (drop_bit 30 va)))))"
  shows "sv39 l2a t va = Some (take_bit 34 va)"
proof -
  let ?i = "unat (take_bit 9 (drop_bit 30 va))"
  have i: "?i < 512" by (simp add: index_nat)
  have "of_nat (?i mod 16) = take_bit 4 (drop_bit 30 va)"
    by (simp add: word_unat_eq_iff unat_of_nat unsigned_take_bit_eq take_bit_eq_mod [of 9 "unat _"] take_bit_eq_mod [of 4 "unat _"]
        take_bit_eq_mod [of 64 "unat _"] mod_mod_cancel)
  moreover have "push_bit 12 (push_bit 18 (take_bit 4 (drop_bit 30 va))) OR take_bit 30 va = take_bit 34 va"
    by (rule bit_eqI) (auto simp: bit_simps)
  ultimately show ?thesis
    unfolding sv39_def Let_def assms(2) using assms(1) identity_entry [OF i] by (simp add: take_bit_push_bit)
qed

lemma sv39_window:
  assumes can: "canonical39 va"
    and e1: "l1pt t ! unat (take_bit 9 (drop_bit 30 va)) = PTE_CREATE_NEXT l2a" and l2a: "aligned 12 l2a" "take_bit 56 l2a = l2a"
    and e2: "l2pt t ! unat (take_bit 9 (drop_bit 21 va)) = PTE_CREATE_LEAF x" "aligned 21 x" "take_bit 56 x = x"
  shows "sv39 l2a t va = Some (x + take_bit 21 va)"
proof -
  have "take_bit 9 (drop_bit 12 x) = 0"
    using e2(2) take_bit_drop_bit [of 9 12 x] by (simp add: aligned_def)
  moreover have "push_bit 12 (drop_bit 12 x) = x" using e2(2) aligned_mono [of 21 x 12] by (intro aligned_drop) simp
  ultimately show ?thesis
    unfolding sv39_def Let_def e1 e2(1) using can next_entry [OF l2a(2)] leaf_entry [OF e2(3)]
    by (simp add: aligned_drop [OF l2a(1)] aligned_or [OF e2(2)])
qed

section \<open>Sv32\<close>

lemma rv32_sizes:
  "PT_INDEX_BITS TYPE(32) = 10" "PTES_PER_PT TYPE(32) = 1024" "PTE_LEVEL_BITS TYPE(32) = 21" "PPN_HIGH TYPE(32) = 20"
  by (simp_all add: PT_INDEX_BITS_def PTES_PER_PT_def PTE_LEVEL_BITS_def PPN_HIGH_def)

lemma GET_PT_INDEX_sv32: "GET_PT_INDEX_RV 2 addr 1 = unat (drop_bit 22 (addr :: uint32))"
  using unat_lt2p [of addr] by (simp add: GET_PT_INDEX_RV_def RISCV_PGSHIFT_def rv32_sizes unat_drop_bit)

lemma sv32_entry:
  fixes x :: uint32
  assumes "l1pt t ! unat (drop_bit 22 va) = PTE_CREATE_LEAF x"
  shows "sv32 t va = (if take_bit 10 (drop_bit 12 x) = 0
    then Some (push_bit 12 (ucast (drop_bit 12 x)) OR ucast (take_bit 22 va)) else None)"
proof -
  let ?e = "push_bit 10 (drop_bit 12 x) OR 0xCF"
  have e: "PTE_CREATE_LEAF x = ?e"
    by (simp add: PTE_CREATE_LEAF_def PTE_CREATE_PPN_def PTE_TYPE_SRWX_def PTE_V_def RISCV_PGSHIFT_def PTE_PPN0_SHIFT_def or.assoc)
  have low: "m < 10" if "bit (0xCF :: uint32) m" for m
    using that bit_take_bit_iff [of 10 "0xCF :: uint32" m] by simp
  have "drop_bit 10 ?e = drop_bit 12 x"
    by (rule bit_eqI) (auto simp: bit_simps dest: low bit_imp_le_length)
  moreover have "take_bit 10 ?e = 0xCF" by (simp add: take_bit_push_bit)
  then have "leaf ?e" by (rule leaf_flags)
  ultimately show ?thesis unfolding sv32_def Let_def assms e by simp
qed

lemma map_sv32_result:
  fixes fv fp :: uint32
  assumes info: "virt_region_start info = fv" "phys_region_start info = fp" and al: "aligned 21 fv" "aligned 21 fp"
  defines "k \<equiv> unat (drop_bit 22 fv)"
  shows "\<exists>t. map_kernel_window 2 l2a info bss_riscv = Some (Some t) \<and>
    (\<forall>i. k \<le> i \<and> i < 1024 \<longrightarrow> l1pt t ! i = PTE_CREATE_LEAF (fp + of_nat ((i - k) * 2 ^ 21)))"
proof -
  let ?id = "fill 0 0 1024 (\<lambda>i. PTE_CREATE (push_bit 20 (of_nat i))) (replicate 1024 (0 :: uint32))"
  have identity: "for_up 0 1024 (\<lambda>i. store_at i (PTE_CREATE (push_bit 20 (of_nat i)))) (replicate 1024 0) = Some ?id"
    by (rule for_up_fill) simp_all
  have va: "VIRT_PHYS_ALIGNED fv fp 21"
    using al by (simp add: VIRT_PHYS_ALIGNED_def IS_ALIGNED_def MASK_eq_mask aligned_def take_bit_eq_mask)
  have window: "for_up k 1024 (\<lambda>i l1. Option.bind (shift_page (i - k) 21) (\<lambda>off. store_at i (PTE_CREATE_LEAF (fp + off)) l1)) ?id =
      Some (fill 0 k 1024 (\<lambda>i. PTE_CREATE_LEAF (fp + of_nat ((i - k) * 2 ^ 21))) ?id)"
  proof (rule for_up_fill)
    show "Option.bind (shift_page (i - k) 21) (\<lambda>off. store_at i (PTE_CREATE_LEAF (fp + off)) xs) =
        store_at (0 + i) (PTE_CREATE_LEAF (fp + of_nat ((i - k) * 2 ^ 21))) xs" if "i < 1024" for i xs
    proof -
      have "(i - k) * 2 ^ 21 < 2 ^ 31" using that by simp
      then show ?thesis by (simp only: shift_page_def if_True bind.simps) simp
    qed
  qed simp
  have "l1pt (bss_riscv :: uint32 riscv_tables) = replicate 1024 0" by (simp add: bss_riscv_def rv32_sizes)
  then have "map_kernel_window 2 l2a info bss_riscv = Some (Some (bss_riscv\<lparr>l1pt :=
      fill 0 k 1024 (\<lambda>i. PTE_CREATE_LEAF (fp + of_nat ((i - k) * 2 ^ 21))) ?id\<rparr>))"
    unfolding map_kernel_window_def Let_def info GET_PT_INDEX_sv32 k_def [symmetric] rv32_sizes
    using identity va window by simp
  then show ?thesis by (intro exI conjI) (assumption, simp add: nth_fill)
qed

section \<open>The maps that are built\<close>

lemma riscv_window_map:
  fixes fv fp l2a :: uint64
  assumes info: "virt_region_start info = fv" "phys_region_start info = fp"
    and big: "\<not> (aligned 30 fv \<and> aligned 30 fp)" and small: "aligned 21 fv" "aligned 21 fp"
    and can: "canonical39 fv" and fp: "unat fp + 2 ^ 30 \<le> 2 ^ 56" and l2a: "aligned 12 l2a" "take_bit 56 l2a = l2a"
  shows "\<exists>t. map_kernel_window 3 l2a info bss_riscv = Some (Some t) \<and>
    (\<forall>va. sv39 l2a t va =
      (if \<not> canonical39 va then None
       else if drop_bit 30 va = drop_bit 30 fv then (if fv \<le> va then Some (va - fv + fp) else None)
       else Some (take_bit 34 va)))"
proof -
  define k1 where "k1 = unat (take_bit 9 (drop_bit 30 fv))"
  define k2 where "k2 = unat (take_bit 9 (drop_bit 21 fv))"
  have al: "VIRT_PHYS_ALIGNED fv fp n \<longleftrightarrow> aligned n fv \<and> aligned n fp" for n
    by (simp add: VIRT_PHYS_ALIGNED_def IS_ALIGNED_def MASK_eq_mask aligned_def take_bit_eq_mask)
  have "\<not> VIRT_PHYS_ALIGNED fv fp 30" "VIRT_PHYS_ALIGNED fv fp 21" using big small by (simp_all add: al)
  note result = map_2mb_result [OF info this, of l2a, folded k1_def k2_def]
  let ?t = "the (the (map_kernel_window 3 l2a info bss_riscv))"
  have l1: "l1pt ?t = identity_table[k1 := PTE_CREATE_NEXT l2a]"
    and l2: "l2pt ?t = fill 0 k2 512 (\<lambda>i. PTE_CREATE_LEAF (fp + of_nat ((i - k2) * 2 ^ 21))) (replicate 512 0)"
    by (simp_all add: result)
  have "sv39 l2a ?t va = (if fv \<le> va then Some (va - fv + fp) else None)" if gb: "drop_bit 30 va = drop_bit 30 fv" for va
  proof -
    let ?k = "unat (take_bit 9 (drop_bit 21 va))"
    have c: "canonical39 va" using canonical39_gigabyte [OF gb] can by simp
    have e1: "l1pt ?t ! unat (take_bit 9 (drop_bit 30 va)) = PTE_CREATE_NEXT l2a"
      unfolding gb k1_def [symmetric] l1 by (simp add: k1_def index_nat)
    have k: "?k < 512" by (simp add: index_nat)
    show ?thesis
    proof (cases "k2 \<le> ?k")
      case True
      let ?x = "push_bit 21 (of_nat (?k - k2)) + fp"
      have p: "push_bit 21 (of_nat (?k - k2)) = (of_nat ((?k - k2) * 2 ^ 21) :: uint64)" by (simp add: push_bit_eq_mult)
      have e2: "l2pt ?t ! ?k = PTE_CREATE_LEAF ?x"
        using True k unfolding l2 p by (simp add: nth_fill add.commute)
      have x: "aligned 21 ?x" by (intro aligned_add small) simp
      have "(?k - k2) * 2 ^ 21 < 2 ^ 30" using k by simp
      then have "unat (fp + of_nat ((?k - k2) * 2 ^ 21)) < 2 ^ 56"
        using fp unat_plus_of_nat [of fp "(?k - k2) * 2 ^ 21"] by simp
      then have "take_bit 56 ?x = ?x"
        unfolding p by (intro take_bit_small) (simp only: add.commute)
      from sv39_window [OF c e1 l2a e2 x this] show ?thesis
        using window_offset [OF small(1) gb True [unfolded k2_def], of fp, folded k2_def]
          window_order [OF small(1) gb, folded k2_def] True by simp
    next
      case False
      then have "l2pt ?t ! ?k = 0" using k unfolding l2 by (simp add: nth_fill)
      moreover have "push_bit 12 (drop_bit 12 l2a) = l2a" by (rule aligned_drop [OF l2a(1)])
      ultimately have "sv39 l2a ?t va = None"
        unfolding sv39_def Let_def e1 using next_entry [OF l2a(2)] by (simp add: leaf_def)
      then show ?thesis using window_order [OF small(1) gb, folded k2_def] False by simp
    qed
  qed
  moreover have "sv39 l2a ?t va = Some (take_bit 34 va)" if c: "canonical39 va" and "drop_bit 30 va \<noteq> drop_bit 30 fv" for va
  proof (rule sv39_identity [OF c])
    let ?i = "unat (take_bit 9 (drop_bit 30 va))"
    have "?i \<noteq> k1" "?i < 512" using that canonical39_index [OF c can] unfolding k1_def by (simp_all add: word_unat_eq_iff index_nat)
    then show "l1pt ?t ! ?i = PTE_CREATE (push_bit 28 (of_nat ?i))"
      unfolding l1 by (rule nth_identity)
  qed
  moreover have "sv39 l2a ?t va = None" if "\<not> canonical39 va" for va using that by (simp add: sv39_def)
  ultimately have "sv39 l2a ?t va =
      (if \<not> canonical39 va then None
       else if drop_bit 30 va = drop_bit 30 fv then (if fv \<le> va then Some (va - fv + fp) else None)
       else Some (take_bit 34 va))" for va
    by simp
  then show ?thesis using result by auto
qed

text \<open>The value \<^verbatim>\<open>main\<close> writes selects this translation with the loader's root table.\<close>

lemma sptbr_selects_sv39:
  fixes l1a :: uint64
  assumes "aligned 12 l1a" "take_bit 56 l1a = l1a"
  shows "rv64_translate (sptbr_value 3 l1a) l1a l2a t = sv39 l2a t"
proof -
  have v: "sptbr_value 3 l1a = push_bit 60 8 OR drop_bit 12 l1a"
    by (simp add: sptbr_value_def vm_mode_def RISCV_PGSHIFT_def)
  have p: "take_bit 44 (drop_bit 12 l1a) = drop_bit 12 l1a"
    using assms(2) take_bit_drop_bit [of 44 12 l1a] by simp
  have "drop_bit 60 (drop_bit 12 l1a) = 0" using drop_bit_take_bit [of 60 44 "drop_bit 12 l1a"] by (simp add: p del: drop_bit_drop_bit)
  then have "drop_bit 60 (sptbr_value 3 l1a) = 8" unfolding v by (simp add: drop_bit_or drop_bit_push_bit)
  moreover have "take_bit 44 (sptbr_value 3 l1a) = drop_bit 12 l1a" unfolding v by (simp add: take_bit_push_bit p)
  ultimately show ?thesis
    using aligned_drop [OF assms(1)] by (intro ext) (simp add: rv64_translate_def)
qed

text \<open>The map provides the kernel's window and the loader's identity, the latter in the first 16 GB
  outside the kernel's gigabyte.\<close>

definition sv39_ok :: "uint64 \<Rightarrow> uint64 image_info \<Rightarrow> bool" where
  "sv39_ok l2a info \<longleftrightarrow> canonical39 (virt_region_start info) \<and> \<not> (aligned 30 (virt_region_start info) \<and> aligned 30 (phys_region_start info)) \<and>
     aligned 21 (virt_region_start info) \<and> aligned 21 (phys_region_start info) \<and>
     unat (phys_region_start info) + 2 ^ 30 \<le> 2 ^ 56 \<and> aligned 12 l2a \<and> take_bit 56 l2a = l2a"

definition build_sv39 :: "uint64 \<Rightarrow> uint64 image_info \<Rightarrow> uint64 riscv_tables option" where
  "build_sv39 l2a info = Option.bind (map_kernel_window 3 l2a info bss_riscv) (\<lambda>t. t)"

interpretation rv39: kernel_window "build_sv39 l2a" "sv39 l2a" "sv39_ok l2a"
  "\<lambda>info. {va. drop_bit 30 va = drop_bit 30 (virt_region_start info) \<and> virt_region_start info \<le> va}"
  "\<lambda>info. {va. take_bit 34 va = va \<and> drop_bit 30 va \<noteq> drop_bit 30 (virt_region_start info)}"
  for l2a
proof unfold_locales
  fix info
  assume ok: "sv39_ok l2a info"
  let ?fv = "virt_region_start info"
  obtain t where "map_kernel_window 3 l2a info bss_riscv = Some (Some t)"
    and w: "\<And>va. sv39 l2a t va =
      (if \<not> canonical39 va then None
       else if drop_bit 30 va = drop_bit 30 ?fv then (if ?fv \<le> va then Some (va - ?fv + phys_region_start info) else None)
       else Some (take_bit 34 va))"
    using riscv_window_map [OF refl refl, of info l2a] ok unfolding sv39_ok_def by auto
  then have t: "build_sv39 l2a info = Some t" by (simp add: build_sv39_def)
  then show "\<exists>t. build_sv39 l2a info = Some t" by blast
  fix t' va
  assume t': "build_sv39 l2a info = Some t'"
  show "\<exists>pa. sv39 l2a t' va = Some pa \<and> ucast pa = va - ?fv + phys_region_start info"
    if "va \<in> {va. drop_bit 30 va = drop_bit 30 ?fv \<and> ?fv \<le> va}"
    using that t t' w [of va] canonical39_gigabyte [of va ?fv] ok by (simp add: sv39_ok_def)
  show "\<exists>pa. sv39 l2a t' va = Some pa \<and> ucast pa = va"
    if "va \<in> {va. take_bit 34 va = va \<and> drop_bit 30 va \<noteq> drop_bit 30 ?fv}"
    using that t t' w [of va] low_canonical39 [of va] by simp
qed

section \<open>Properties\<close>

text \<open>C30: The whole map on Sv39, for a kernel linked for a canonical address (the sign extension of its low
  39 bits) that is aligned to 2 MB but not to 1 GB. In the kernel's gigabyte, addresses from its
  start on map to the same offset from the physical start and the addresses below it are not
  mapped. Every other canonical address maps to its remainder modulo 16 GB, as \<^verbatim>\<open>PTE_CREATE\<close> cuts
  the entry to 32 bits, so that the map is the identity for the first 16 GB only. All other addresses fault.\<close>

theorem riscv_kernel_window:
  fixes fv fp l2a :: uint64
  assumes info: "virt_region_start info = fv" "phys_region_start info = fp"
    and big: "\<not> (aligned 30 fv \<and> aligned 30 fp)" and small: "aligned 21 fv" "aligned 21 fp"
    and can: "canonical39 fv" and fp: "unat fp + 2 ^ 30 \<le> 2 ^ 56" and l2a: "aligned 12 l2a" "take_bit 56 l2a = l2a"
  shows "\<exists>t. map_kernel_window 3 l2a info bss_riscv = Some (Some t) \<and>
    (\<forall>va. sv39 l2a t va =
      (if \<not> canonical39 va then None
       else if drop_bit 30 va = drop_bit 30 fv then (if fv \<le> va then Some (va - fv + fp) else None)
       else Some (take_bit 34 va)))"
  by (rule riscv_window_map [OF assms])

theorem riscv_kernel_window_witness:
  "\<exists>t. map_kernel_window 3 0x80600000
      \<lparr>phys_region_start = 0x80200000, phys_region_end = 0x80300000, virt_region_start = 0xffffffff84000000,
        virt_region_end = 0xffffffff84100000, virt_entry = 0xffffffff84000000, phys_virt_offset = 0\<rparr> bss_riscv = Some (Some t) \<and>
    sv39 0x80600000 t 0xffffffff84212345 = Some 0x80412345 \<and>
    sv39 0x80600000 t 0x81234567 = Some 0x81234567 \<and>
    sv39 0x80600000 t 0x481234567 = Some 0x81234567 \<and>
    sv39 0x80600000 t 0x8081234567 = None"
proof -
  let ?i = "\<lparr>phys_region_start = 0x80200000, phys_region_end = 0x80300000, virt_region_start = 0xffffffff84000000,
        virt_region_end = 0xffffffff84100000, virt_entry = 0xffffffff84000000, phys_virt_offset = 0\<rparr> :: uint64 image_info"
  have i: "virt_region_start ?i = 0xffffffff84000000" "phys_region_start ?i = 0x80200000" by simp_all
  have c: "canonical39 0xffffffff84000000" "canonical39 0x481234567" "canonical39 0x81234567" "canonical39 0xffffffff84212345"
    "\<not> canonical39 0x8081234567"
    by code_simp+
  have f: "\<not> (aligned 30 (0xffffffff84000000 :: uint64) \<and> aligned 30 (0x80200000 :: uint64))"
    "aligned 21 (0xffffffff84000000 :: uint64)" "aligned 21 (0x80200000 :: uint64)" "canonical39 0xffffffff84000000"
    "unat (0x80200000 :: uint64) + 2 ^ 30 \<le> 2 ^ 56" "aligned 12 (0x80600000 :: uint64)" "take_bit 56 (0x80600000 :: uint64) = 0x80600000"
    by (simp_all add: aligned_def c)
  from riscv_kernel_window [OF i f] show ?thesis by (auto simp: c)
qed

text \<open>On Sv39 a kernel aligned to 1 GB is mapped without undefined behaviour only if its
  gigabyte is one of the last two: the third page shifts an \<^verbatim>\<open>int\<close> past its range.\<close>

theorem riscv_gigabyte_overflow:
  fixes fv fp :: uint64
  assumes "virt_region_start info = fv" "phys_region_start info = fp" and "aligned 30 fv" "aligned 30 fp"
  shows "map_kernel_window 3 l2a info bss_riscv = None \<longleftrightarrow> unat (take_bit 9 (drop_bit 30 fv)) < 510"
proof -
  let ?k = "unat (take_bit 9 (drop_bit 30 fv))"
  let ?body = "\<lambda>k i l1. Option.bind (shift_page (i - k) 30) (\<lambda>off. store_at i (PTE_CREATE_LEAF (fp + off)) l1)"
  have k: "?k < 512" by (simp add: index_nat)
  have "VIRT_PHYS_ALIGNED fv fp 30"
    using assms(3,4) by (simp add: VIRT_PHYS_ALIGNED_def IS_ALIGNED_def MASK_eq_mask aligned_def take_bit_eq_mask)
  then have "map_kernel_window 3 l2a info bss_riscv = None \<longleftrightarrow> for_up ?k 512 (?body ?k) identity_table = None"
    unfolding map_kernel_window_def Let_def assms(1,2) GET_PT_INDEX_sv39 rv64_sizes bss_riscv_fields identity_loop
    by (simp add: bind_eq_None_conv)
  also have "\<dots> \<longleftrightarrow> ?k < 510"
  proof (cases "?k < 510")
    case True
    have shift: "shift_page 0 30 = Some (0 :: uint64)" "shift_page 1 30 = Some (0x40000000 :: uint64)" "shift_page 2 30 = (None :: uint64 option)"
      by (simp_all add: shift_page_def)
    have "for_up j 512 (?body j) xs = None" if "j < 510" "length xs = 512" for j xs
      using that shift by (simp add: for_up.simps [of j] for_up.simps [of "Suc j"] for_up.simps [of "Suc (Suc j)"]
          store_at_def Suc_diff_le numeral_2_eq_2)
    then show ?thesis using True by simp
  next
    case False
    have "for_up ?k 512 (?body ?k) identity_table =
        Some (fill 0 ?k 512 (\<lambda>i. PTE_CREATE_LEAF (fp + of_nat ((i - ?k) * 2 ^ 30))) identity_table)"
    proof (rule for_up_fill)
      show "?body ?k i xs = store_at (0 + i) (PTE_CREATE_LEAF (fp + of_nat ((i - ?k) * 2 ^ 30))) xs" if "i < 512" for i xs
      proof -
        have "(i - ?k) * 2 ^ 30 < 2 ^ 31" using that False by simp
        then show ?thesis by (simp only: shift_page_def if_True bind.simps) simp
      qed
    qed simp
    then show ?thesis using False by simp
  qed
  finally show ?thesis .
qed

theorem riscv_gigabyte_overflow_witness:
  "map_kernel_window 3 (0x80600000 :: uint64)
      \<lparr>phys_region_start = 0x80000000, phys_region_end = 0x80300000, virt_region_start = 0xffffffc000000000,
        virt_region_end = 0xffffffc000300000, virt_entry = 0xffffffc000000000, phys_virt_offset = 0\<rparr> bss_riscv = None"
proof -
  let ?i = "\<lparr>phys_region_start = 0x80000000, phys_region_end = 0x80300000, virt_region_start = 0xffffffc000000000,
        virt_region_end = 0xffffffc000300000, virt_entry = 0xffffffc000000000, phys_virt_offset = 0\<rparr> :: uint64 image_info"
  have i: "virt_region_start ?i = 0xffffffc000000000" "phys_region_start ?i = 0x80000000" by simp_all
  show ?thesis
    using riscv_gigabyte_overflow [OF i, of "0x80600000"] by (simp add: aligned_def)
qed

text \<open>On Sv32 only every second 4 MB page of the kernel window is usable, and it maps to half
  its offset: the code steps by 2 MB where the hardware's first-level pages are 4 MB. A kernel
  of more than 4 MB is not mapped as intended.\<close>

theorem riscv_sv32_steps_by_half:
  fixes fv fp va :: uint32
  assumes "virt_region_start info = fv" "phys_region_start info = fp" and al: "aligned 22 fv" "aligned 22 fp"
    and va: "fv \<le> va"
  defines "j \<equiv> unat (drop_bit 22 va) - unat (drop_bit 22 fv)"
  shows "\<exists>t. map_kernel_window 2 l2a info bss_riscv = Some (Some t) \<and>
    sv32 t va = (if even j then Some (ucast (fp + of_nat (j * 2 ^ 21) + take_bit 22 va)) else None)"
proof -
  let ?x = "fp + of_nat (j * 2 ^ 21)" and ?k = "unat (drop_bit 22 fv)" and ?i = "unat (drop_bit 22 va)"
  have i: "?k \<le> ?i" using va below_aligned [OF al(1), of va] by (simp add: not_less [symmetric])
  have i1024: "?i < 1024" using unat_lt2p [of va] by (simp add: unat_drop_bit)
  have al21: "aligned 21 fv" "aligned 21 fp" using al aligned_mono by fastforce+
  from map_sv32_result [OF assms(1,2) al21, of l2a] obtain t where
    t: "map_kernel_window 2 l2a info bss_riscv = Some (Some t)" and e: "l1pt t ! ?i = PTE_CREATE_LEAF ?x"
    using i i1024 by (auto simp: j_def)
  have b: "take_bit 10 (drop_bit 12 ?x) = 0 \<longleftrightarrow> aligned 22 ?x"
  proof -
    have "take_bit 10 (drop_bit 12 ?x) = drop_bit 12 (take_bit 22 ?x)" by (simp add: take_bit_drop_bit)
    moreover have "aligned 12 ?x"
      using aligned_mono [OF aligned_add [OF al21(2) aligned_push [of 21 "of_nat j"]], of 12] by (simp add: push_bit_eq_mult)
    then have "aligned 12 (take_bit 22 ?x)" by (simp add: aligned_def)
    then have "drop_bit 12 (take_bit 22 ?x) = 0 \<longleftrightarrow> take_bit 22 ?x = 0"
      using aligned_drop by force
    ultimately show ?thesis by (simp add: aligned_def)
  qed
  have ev: "aligned 22 ?x \<longleftrightarrow> even j"
  proof -
    have "aligned 22 ?x \<longleftrightarrow> aligned 22 (of_nat (j * 2 ^ 21) :: uint32)"
      using aligned_add [OF al(2), of "of_nat (j * 2 ^ 21)"] aligned_minus [of 22 ?x fp] al(2) by auto
    also have "\<dots> \<longleftrightarrow> even j"
    proof -
      have "j < 1024" using i1024 by (simp add: j_def)
      then have "unat (of_nat (j * 2 ^ 21) :: uint32) = j * 2 ^ 21" by (intro unat_of_nat_less) simp
      moreover have "2 ^ 22 dvd j * 2 ^ 21 \<longleftrightarrow> even j"
        using nat_mult_dvd_cancel1 [of "2 ^ 21" 2 j] by (simp add: mult.commute)
      ultimately show ?thesis by (simp only: aligned_dvd)
    qed
    finally show ?thesis .
  qed
  have "push_bit 12 (ucast (drop_bit 12 ?x)) OR ucast (take_bit 22 va) = (ucast (?x + take_bit 22 va) :: uint64)"
    if "aligned 22 ?x"
  proof -
    have "push_bit 12 (ucast (drop_bit 12 ?x)) = (ucast (push_bit 12 (drop_bit 12 ?x)) :: uint64)"
      by (rule bit_eqI) (auto simp: bit_simps dest: bit_imp_le_length)
    also have "\<dots> = ucast ?x" using aligned_drop [OF aligned_mono [OF that, of 12]] by simp
    finally show ?thesis by (simp only: aligned_or [OF that, symmetric] unsigned_or_eq)
  qed
  then show ?thesis using t sv32_entry [OF e] b ev by auto
qed

theorem riscv_sv32_steps_by_half_witness:
  "let info = \<lparr>phys_region_start = 0x80400000, phys_region_end = 0x81000000, virt_region_start = 0xff000000,
        virt_region_end = 0xffc00000, virt_entry = 0xff000000, phys_virt_offset = 0\<rparr>
   in (\<exists>t. map_kernel_window 2 0 info bss_riscv = Some (Some t) \<and> sv32 t 0xff401234 = None) \<and>
      (\<exists>t. map_kernel_window 2 0 info bss_riscv = Some (Some t) \<and> sv32 t 0xff801234 = Some 0x80801234)"
proof -
  let ?i = "\<lparr>phys_region_start = 0x80400000, phys_region_end = 0x81000000, virt_region_start = 0xff000000,
        virt_region_end = 0xffc00000, virt_entry = 0xff000000, phys_virt_offset = 0\<rparr> :: uint32 image_info"
  have i: "virt_region_start ?i = 0xff000000" "phys_region_start ?i = 0x80400000" by simp_all
  have a: "aligned 22 (0xff000000 :: uint32)" "aligned 22 (0x80400000 :: uint32)" by (simp_all add: aligned_def)
  show ?thesis
    using riscv_sv32_steps_by_half [OF i a, of "0xff401234" 0] riscv_sv32_steps_by_half [OF i a, of "0xff801234" 0]
    by (simp add: Let_def)
qed

end
