(* ===== verification/Cpuid.thy ===== *)
theory Cpuid
  imports Device Tables
begin

text \<open>
  Identification of the processor, src/arch-arm/cpuid.c and src/arch-arm/{32,64}/cpuid.c. The
  registers are read through the hardware parameter; \<^verbatim>\<open>print_cpuid\<close> takes the
  \<^verbatim>\<open>read_cpuid_id\<close> of the mode it is built for and that mode's word type.
\<close>

section \<open>The code\<close>

text \<open>src/arch-arm/32/cpuid.c\<close>

definition read_cpuid_mpidr :: "hardware \<Rightarrow> uint32 code" where
  "read_cpuid_mpidr hw = read_cp hw (0, 0, 0, 5)"

definition CPSR_MODE_MASK :: uint32 where "CPSR_MODE_MASK = 0x1f"
definition CPSR_MODE_HYPERVISOR :: uint32 where "CPSR_MODE_HYPERVISOR = 0x1a"

definition is_hyp_mode32 :: "hardware \<Rightarrow> bool code" where
  "is_hyp_mode32 hw = andThen (read_sys hw ''cpsr'') (\<lambda>v.
     let val = ucast v in ret (val AND CPSR_MODE_MASK = CPSR_MODE_HYPERVISOR))"

definition read_cpuid_id32 :: "hardware \<Rightarrow> uint32 code" where
  "read_cpuid_id32 hw = read_cp hw (0, 0, 0, 0)"

text \<open>src/arch-arm/64/cpuid.c\<close>

definition CURRENTEL_EL2 :: uint32 where "CURRENTEL_EL2 = push_bit 2 2"

definition is_hyp_mode64 :: "hardware \<Rightarrow> bool code" where
  "is_hyp_mode64 hw = andThen (read_sys hw ''CurrentEL'') (\<lambda>v.
     let val = ucast v in ret (val = CURRENTEL_EL2))"

definition read_cpuid_id64 :: "hardware \<Rightarrow> uint32 code" where
  "read_cpuid_id64 hw = andThen (read_sys hw ''midr_el1'') (\<lambda>v. ret (ucast v))"

text \<open>src/arch-arm/cpuid.c\<close>

definition CPUID_IMPL :: "uint32 \<Rightarrow> uint32" where "CPUID_IMPL cpuid = drop_bit 24 cpuid AND 0xff"
definition CPUID_MAJOR :: "uint32 \<Rightarrow> uint32" where "CPUID_MAJOR cpuid = drop_bit 20 cpuid AND 0xf"
definition CPUID_ARCH :: "uint32 \<Rightarrow> uint32" where "CPUID_ARCH cpuid = drop_bit 16 cpuid AND 0xf"
definition CPUID_PART :: "uint32 \<Rightarrow> uint32" where "CPUID_PART cpuid = drop_bit 4 cpuid AND 0xfff"
definition CPUID_MINOR :: "uint32 \<Rightarrow> uint32" where "CPUID_MINOR cpuid = drop_bit 0 cpuid AND 0xf"
definition CPUID_IMPL_ARM :: uint32 where "CPUID_IMPL_ARM = of_char CHR ''A''"
definition CPUID_ARCH_CPUID :: uint32 where "CPUID_ARCH_CPUID = 0xF"

definition cpuid_get_implementer_str :: "uint32 \<Rightarrow> string" where
  "cpuid_get_implementer_str cpuid =
     (let i = CPUID_IMPL cpuid
      in if i = CPUID_IMPL_ARM then ''ARM Ltd.''
         else if i = of_char CHR ''D'' then ''Digital Equipment Corp.''
         else if i = of_char CHR ''Q'' then ''Qualcomm Inc.''
         else if i = of_char CHR ''V'' then ''Marvell Semiconductor Inc.''
         else if i = of_char CHR ''M'' then ''Motorola, Freescale Semiconductor Inc.''
         else if i = of_char CHR ''i'' then ''Intel Corp.''
         else ''<Reserved>'')"

definition cpuid_get_arch_str :: "uint32 \<Rightarrow> string" where
  "cpuid_get_arch_str cpuid =
     (let a = CPUID_ARCH cpuid
      in if a = 0x1 then ''ARMv4''
         else if a = 0x2 then ''ARMv4T''
         else if a = 0x3 then ''ARMv5 (obsolete)''
         else if a = 0x4 then ''ARMv5T''
         else if a = 0x5 then ''ARMv5TE''
         else if a = 0x6 then ''ARMv5TEJ''
         else if a = 0x7 then ''ARMv6''
         else if a = CPUID_ARCH_CPUID then ''Defined by CPUID scheme''
         else ''<Reserved>'')"

definition print_cpuid :: "'w::len itself \<Rightarrow> uint32 code \<Rightarrow> unit code" where
  "print_cpuid w read_cpuid_id = andThen read_cpuid_id (\<lambda>cpuid. seq [
     say ''CPU: %s '' [VStr (cpuid_get_implementer_str cpuid) :: 'w::len word varg],
     if CPUID_ARCH cpuid \<noteq> CPUID_ARCH_CPUID
     then say ''%s '' [VStr (cpuid_get_arch_str cpuid) :: 'w::len word varg] else ret (),
     if CPUID_PART cpuid AND 0xf00 = 0xC00
     then say ''Cortex-A%d '' [VInt (CPUID_PART cpuid AND 0xff) :: 'w::len word varg]
     else if CPUID_PART cpuid AND 0xf00 = 0xD00
     then say ''Cortex-A5%d '' [VInt (CPUID_PART cpuid AND 0xff) :: 'w::len word varg]
     else say ''Part: 0x%03x '' [VInt (CPUID_PART cpuid) :: 'w::len word varg],
     say ''r%dp%d'' [VInt (CPUID_MAJOR cpuid) :: 'w::len word varg, VInt (CPUID_MINOR cpuid)],
     say_line []])"

text \<open>-1 as the 32-bit int it is.\<close>

definition get_cortex_a_part :: "uint32 code \<Rightarrow> uint32 code" where
  "get_cortex_a_part read_cpuid_id = andThen read_cpuid_id (\<lambda>cpuid.
     if CPUID_ARCH cpuid = CPUID_ARCH_CPUID \<and> CPUID_IMPL cpuid = CPUID_IMPL_ARM
     then ret (CPUID_PART cpuid AND 0xFF) else ret (- 1))"

section \<open>The fields of an identification\<close>

text \<open>The fields are those of the number the register holds.\<close>

lemma cpuid_fields:
  "unat (CPUID_IMPL i) = unat i div 2 ^ 24" "unat (CPUID_MAJOR i) = unat i div 2 ^ 20 mod 16"
  "unat (CPUID_ARCH i) = unat i div 2 ^ 16 mod 16" "unat (CPUID_PART i) = unat i div 16 mod 2 ^ 12"
  "unat (CPUID_MINOR i) = unat i mod 16"
proof -
  have mask: "0xff = (mask 8 :: uint32)" "0xf = (mask 4 :: uint32)" "0xfff = (mask 12 :: uint32)"
    by (simp_all add: mask_eq_decr_exp)
  have field: "unat (drop_bit n i AND mask m) = unat i div 2 ^ n mod 2 ^ m" for n m
    by (simp only: unat_drop_bit_eq unsigned_take_bit_eq flip: take_bit_eq_mask)
      (simp add: take_bit_eq_mod drop_bit_eq_div)
  have "unat i < 2 ^ 32" using unat_lt2p [of i] by simp
  then have "unat i div 2 ^ 24 < 2 ^ 8" by simp
  then show "unat (CPUID_IMPL i) = unat i div 2 ^ 24"
    unfolding CPUID_IMPL_def mask field by simp
  show "unat (CPUID_MAJOR i) = unat i div 2 ^ 20 mod 16" "unat (CPUID_ARCH i) = unat i div 2 ^ 16 mod 16"
    "unat (CPUID_PART i) = unat i div 16 mod 2 ^ 12" "unat (CPUID_MINOR i) = unat i mod 16"
    unfolding CPUID_MAJOR_def CPUID_ARCH_def CPUID_PART_def CPUID_MINOR_def mask field by simp_all
qed

text \<open>What the line says of the core: its name by the two schemes of part numbers, or the number.\<close>

definition core_name :: "uint32 \<Rightarrow> string" where
  "core_name cpuid = (let part = unat cpuid div 16 mod 2 ^ 12 in
     if part div 256 = 0xC then ''Cortex-A'' @ num_string 10 (part mod 256)
     else if part div 256 = 0xD then ''Cortex-A5'' @ num_string 10 (part mod 256)
     else ''Part: 0x'' @ num_string 16 part)"

lemma part_class:
  "CPUID_PART i AND 0xf00 = k \<longleftrightarrow> unat (CPUID_PART i) div 256 * 256 = unat k"
  "unat (CPUID_PART i AND 0xff) = unat (CPUID_PART i) mod 256"
proof -
  let ?p = "CPUID_PART i"
  have p: "take_bit 12 ?p = ?p"
    by (intro take_bit_small) (simp add: cpuid_fields(4))
  have m: "0xf00 = (push_bit 8 (mask 4) :: uint32)" "0xff = (mask 8 :: uint32)"
    by (simp_all add: mask_eq_decr_exp)
  have "?p AND 0xf00 = push_bit 8 (drop_bit 8 (take_bit 12 ?p))"
    unfolding m by (rule bit_word_eqI) (auto simp: bit_simps)
  then have "?p AND 0xf00 = push_bit 8 (drop_bit 8 ?p)" unfolding p .
  moreover have "unat (push_bit 8 (drop_bit 8 ?p)) = unat ?p div 256 * 256"
  proof -
    have "unat ?p < 2 ^ 12" by (simp add: cpuid_fields(4))
    then show ?thesis by (simp add: push_bit_eq_mult unat_word_ariths(2) unat_drop_bit)
  qed
  ultimately show "?p AND 0xf00 = k \<longleftrightarrow> unat ?p div 256 * 256 = unat k"
    by (simp add: word_unat_eq_iff)
  show "unat (?p AND 0xff) = unat ?p mod 256"
    unfolding m by (simp only: unsigned_take_bit_eq flip: take_bit_eq_mask) (simp add: take_bit_eq_mod)
qed


lemma formatted_string: "formatted ''CPU: %s '' [VStr t :: 'w::len word varg] = Some (''CPU: '' @ t @ '' '')"
  "formatted ''%s '' [VStr t :: 'w::len word varg] = Some (t @ '' '')"
  by (simp_all add: formatted_eval)

text \<open>A field of an identification is small, so its widening to a machine word keeps it.\<close>

lemma small_int:
  assumes "kernel_word TYPE('w::len)" and "unat d < 2 ^ 31"
  shows "unat (scast (d :: uint32) :: 'w word) = unat d"
proof -
  have "int (unat d) < int (2 ^ 31)" using assms(2) by (simp only: of_nat_less_iff)
  then have d: "uint d < 2 ^ 31" by simp
  then have "sint d = uint d"
    using order_trans [OF _ uint_ge_0 [of d], of "- (2 ^ 31)"] signed_take_bit_int_eq_self [of 31 "uint d"]
    by (simp add: sint_uint)
  then have "uint (scast d :: 'w word) = uint d mod 2 ^ LENGTH('w)"
    by (simp only: scast_eq uint_word_of_int)
  also have "\<dots> = uint d"
    using assms(1) d by (intro mod_pos_pos_trivial) (auto simp: kernel_word_def)
  finally show ?thesis by (simp only: unat_eq_nat_uint)
qed

lemma formatted_core:
  assumes "kernel_word TYPE('w::len)" and "unat d < 2 ^ 31" and "unat e < 2 ^ 31"
  shows "formatted ''Cortex-A%d '' [VInt d :: 'w word varg] = Some (''Cortex-A'' @ num_string 10 (unat d) @ '' '')"
    "formatted ''Cortex-A5%d '' [VInt d :: 'w word varg] = Some (''Cortex-A5'' @ num_string 10 (unat d) @ '' '')"
    "formatted ''Part: 0x%03x '' [VInt d :: 'w word varg] = Some (''Part: 0x'' @ num_string 16 (unat d) @ '' '')"
    "formatted ''r%dp%d'' [VInt d :: 'w word varg, VInt e] =
       Some (''r'' @ num_string 10 (unat d) @ ''p'' @ num_string 10 (unat e))"
  by (simp_all add: formatted_def read_format.simps conv_of_def
      small_int [OF assms(1,2)] small_int [OF assms(1,3)])

text \<open>Each piece of the line, as one call of \<^verbatim>\<open>printf\<close>.\<close>

lemma say_core:
  fixes w :: "'w::len itself"
  assumes kw: "kernel_word TYPE('w)"
  shows "(if CPUID_PART cpuid AND 0xf00 = 0xC00
      then say ''Cortex-A%d '' [VInt (CPUID_PART cpuid AND 0xff) :: 'w word varg]
      else if CPUID_PART cpuid AND 0xf00 = 0xD00
      then say ''Cortex-A5%d '' [VInt (CPUID_PART cpuid AND 0xff) :: 'w word varg]
      else say ''Part: 0x%03x '' [VInt (CPUID_PART cpuid) :: 'w word varg]) h =
    Returns () (h @ [Print (core_name cpuid @ '' '')])"
proof -
  have small: "unat (CPUID_PART cpuid) < 2 ^ 31" "unat (CPUID_PART cpuid AND 0xff) < 2 ^ 31"
    unfolding part_class(2) cpuid_fields(4) by (simp_all add: order.strict_trans1 [OF mod_le_divisor])
  have kinds: "CPUID_PART cpuid AND 0xf00 = 0xC00 \<longleftrightarrow> unat cpuid div 16 mod 2 ^ 12 div 256 = 0xC"
    "CPUID_PART cpuid AND 0xf00 = 0xD00 \<longleftrightarrow> unat cpuid div 16 mod 2 ^ 12 div 256 = 0xD"
    unfolding part_class(1) cpuid_fields(4) by simp_all
  note texts = formatted_core(1-3) [OF kw small(2) small(2)] formatted_core(3) [OF kw small(1) small(1)]
  show ?thesis
    unfolding kinds by (simp add: say_run [OF kw] texts part_class(2) cpuid_fields(4) core_name_def Let_def)
qed

text \<open>The whole line, one text per call of \<^verbatim>\<open>printf\<close>.\<close>

definition cpuid_texts :: "uint32 \<Rightarrow> string list" where
  "cpuid_texts cpuid = (''CPU: '' @ cpuid_get_implementer_str cpuid @ '' '') #
    (if unat cpuid div 2 ^ 16 mod 16 = 15 then [] else [cpuid_get_arch_str cpuid @ '' '']) @
    [core_name cpuid @ '' '',
     ''r'' @ num_string 10 (unat cpuid div 2 ^ 20 mod 16) @ ''p'' @ num_string 10 (unat cpuid mod 16),
     [CHR 0x0A]]"

lemma print_cpuid_run:
  assumes kw: "kernel_word TYPE('w::len)" and read: "read_id h = Returns cpuid h1"
  shows "print_cpuid TYPE('w) read_id h = Returns () (h1 @ map Print (cpuid_texts cpuid))"
proof -
  have arch: "CPUID_ARCH cpuid = CPUID_ARCH_CPUID \<longleftrightarrow> unat cpuid div 2 ^ 16 mod 16 = 15"
    unfolding word_unat_eq_iff cpuid_fields(3) by (simp add: CPUID_ARCH_CPUID_def)
  have "unat (CPUID_MAJOR cpuid) < 2 ^ 31" "unat (CPUID_MINOR cpuid) < 2 ^ 31"
    unfolding cpuid_fields by (simp_all add: order.strict_trans1 [OF mod_le_divisor])
  from formatted_core(4) [OF kw this]
  have rev: "formatted ''r%dp%d'' [VInt (CPUID_MAJOR cpuid) :: 'w word varg, VInt (CPUID_MINOR cpuid)] =
      Some (''r'' @ num_string 10 (unat cpuid div 2 ^ 20 mod 16) @ ''p'' @ num_string 10 (unat cpuid mod 16))"
    unfolding cpuid_fields .
  show ?thesis
    unfolding print_cpuid_def cpuid_texts_def
    by (simp add: run read arch say_run [OF kw] formatted_string rev say_core [OF kw] line_def)
qed

section \<open>Properties\<close>

text \<open>On a processor that answers with any identification, \<^verbatim>\<open>print_cpuid\<close> prints one
  line: the implementer, the architecture where the identification gives one, the core, and
  the variant and revision in decimal. The core is named by the low byte of its part number after
  "Cortex-A" or "Cortex-A5", so a Cortex-A72 (part 0xD08) is called Cortex-A58; other parts are
  printed in hexadecimal without the three digits the format asks for.\<close>

theorem print_cpuid_line:
  assumes kw: "kernel_word TYPE('w::len)" and read: "read_id h = Returns cpuid h1"
  shows "(\<exists>ts. print_cpuid TYPE('w) read_id h = Returns () (h1 @ map Print ts) \<and>
      concat ts = ''CPU: '' @ cpuid_get_implementer_str cpuid @ '' '' @
        (if unat cpuid div 2 ^ 16 mod 16 = 15 then [] else cpuid_get_arch_str cpuid @ '' '') @
        core_name cpuid @ '' r'' @ num_string 10 (unat cpuid div 2 ^ 20 mod 16) @
        ''p'' @ num_string 10 (unat cpuid mod 16) @ [CHR 0x0A]) \<and>
    (unat cpuid div 16 mod 2 ^ 12 = 0xD08 \<longrightarrow> core_name cpuid = ''Cortex-A58'') \<and>
    (unat cpuid div 16 mod 2 ^ 12 = 0x00B \<longrightarrow> core_name cpuid = ''Part: 0xb'')"
proof (intro conjI)
  show "\<exists>ts. print_cpuid TYPE('w) read_id h = Returns () (h1 @ map Print ts) \<and>
      concat ts = ''CPU: '' @ cpuid_get_implementer_str cpuid @ '' '' @
        (if unat cpuid div 2 ^ 16 mod 16 = 15 then [] else cpuid_get_arch_str cpuid @ '' '') @
        core_name cpuid @ '' r'' @ num_string 10 (unat cpuid div 2 ^ 20 mod 16) @
        ''p'' @ num_string 10 (unat cpuid mod 16) @ [CHR 0x0A]"
    by (intro exI [of _ "cpuid_texts cpuid"]) (simp add: print_cpuid_run [where read_id = read_id and h = h, OF kw read], simp add: cpuid_texts_def)
qed (simp_all add: core_name_def num_string_def digits_of_step hex_def)

text \<open>A Cortex-A72 r0p3 in EL2.\<close>

definition sample_a72 :: hardware where
  "sample_a72 = \<lparr>reg_value = (\<lambda>h a. 0), cp_value = (\<lambda>h r. 0),
     sys_value = (\<lambda>h r. if r = ''midr_el1'' then 0x410FD083 else 8), call_value = (\<lambda>h f args. 0)\<rparr>"

theorem print_cpuid_line_witness:
  "\<exists>ts. print_cpuid TYPE(64) (read_cpuid_id64 sample_a72) [] =
      Returns () ([Mrs ''midr_el1'' 0x410FD083] @ map Print ts) \<and>
    concat ts = ''CPU: ARM Ltd. Cortex-A58 r0p3'' @ [CHR 0x0A]"
proof -
  have kw: "kernel_word TYPE(64)" by (simp add: kernel_word_def)
  have read: "read_cpuid_id64 sample_a72 [] = Returns 0x410FD083 [Mrs ''midr_el1'' 0x410FD083]"
    by (simp add: read_cpuid_id64_def run sample_a72_def)
  have "cpuid_get_implementer_str 0x410FD083 = ''ARM Ltd.''"
    by (simp add: cpuid_get_implementer_str_def CPUID_IMPL_def CPUID_IMPL_ARM_def)
  then show ?thesis
    using print_cpuid_line [OF kw, of "read_cpuid_id64 sample_a72" "[]" "0x410FD083", OF read]
    by (simp add: core_name_def num_string_def digits_of_step hex_def)
qed

text \<open>\<^verbatim>\<open>get_cortex_a_part\<close> drops the class of the part number, so that it does not tell a
  Cortex-A7 (0xC07) from a Cortex-A57 (0xD07).\<close>

lemma get_cortex_a_part_low_byte:
  assumes "read_id h = Returns cpuid h1"
  shows "get_cortex_a_part read_id h = Returns (if unat cpuid div 2 ^ 16 mod 16 = 15 \<and> unat cpuid div 2 ^ 24 = 0x41
    then of_nat (unat cpuid div 16 mod 256) else - 1) h1"
proof -
  have "CPUID_ARCH cpuid = CPUID_ARCH_CPUID \<longleftrightarrow> unat cpuid div 2 ^ 16 mod 16 = 15"
    "CPUID_IMPL cpuid = CPUID_IMPL_ARM \<longleftrightarrow> unat cpuid div 2 ^ 24 = 0x41"
    unfolding word_unat_eq_iff cpuid_fields by (simp_all add: CPUID_ARCH_CPUID_def CPUID_IMPL_ARM_def)
  moreover have "unat cpuid div 16 mod 2 ^ 12 mod 256 = unat cpuid div 16 mod 256"
    by (simp add: mod_mod_cancel)
  then have "CPUID_PART cpuid AND 0xFF = of_nat (unat cpuid div 16 mod 256)"
    using part_class(2) [of cpuid] unfolding cpuid_fields(4) by (metis of_nat_unat ucast_id)
  ultimately show ?thesis using assms by (simp add: get_cortex_a_part_def run)
qed

end
