(* ===== verification/Smp.thy ===== *)
theory Smp
  imports Cpuid
begin

text \<open>
  Starting the other cores: src/arch-arm/scu.c, armv8-a/64/psci.c, armv8-a/64/smp.c,
  smp_boot.c, 32/idle.c and the \<^verbatim>\<open>init_cpus\<close> of the platforms that have one. A volatile
  variable shared between cores (\<^verbatim>\<open>core_up\<close>, \<^verbatim>\<open>non_boot_lock\<close>) is memory the hardware parameter
  answers for, as another core writes it. Link-time addresses are the fields of \<^verbatim>\<open>smp_links\<close>.
\<close>

record smp_links =
  core_stacks :: uint64
  core_up :: uint64
  core_entry_head :: uint64
  non_boot_lock :: uint64
  imx_non_boot :: uint32
  non_boot_core :: uint32

definition STACK_SIZE :: nat where "STACK_SIZE = 4096"
definition PSCI_SUCCESS :: uint32 where "PSCI_SUCCESS = 0"

text \<open>\<^verbatim>\<open>printf\<close> followed by \<^verbatim>\<open>abort\<close>.\<close>

definition die :: "string \<Rightarrow> 'w::len word varg list \<Rightarrow> 'r code" where
  "die fmt args = andThen (say (line fmt) args) (\<lambda>_. abort_dev)"

section \<open>Snoop control unit: src/arch-arm/scu.c\<close>

definition SCU_CTRL :: uint32 where "SCU_CTRL = 0"
definition SCU_CONFIG :: uint32 where "SCU_CONFIG = 1"

definition scu_enable :: "bool \<Rightarrow> hardware \<Rightarrow> uint32 \<Rightarrow> unit code" where
  "scu_enable arm_errata_764369 hw scu_base = andThen
     (if arm_errata_764369 then andThen (read_cpuid_id32 hw) (\<lambda>cpuid.
        if cpuid AND 0xff0ffff0 = 0x410fc090
        then andThen (read32 hw (ucast (scu_base + 0x30))) (\<lambda>scu_ctrl.
          if scu_ctrl AND 1 = 0 then write32 (ucast (scu_base + 0x30)) (scu_ctrl OR 0x1) else ret ())
        else ret ())
      else ret ())
     (\<lambda>_. andThen (read32 hw (ucast (scu_base + 4 * SCU_CTRL))) (\<lambda>scu_ctrl.
        if scu_ctrl AND 1 \<noteq> 0 then ret ()
        else seq [
          write32 (ucast (scu_base + 4 * SCU_CTRL)) (scu_ctrl OR 1),
          invoke hw ''flush_dcache'' []]))"

definition scu_get_core_count :: "hardware \<Rightarrow> uint32 \<Rightarrow> uint32 code" where
  "scu_get_core_count hw scu_base = andThen (read32 hw (ucast (scu_base + 4 * SCU_CONFIG)))
     (\<lambda>ncores. ret ((ncores AND 0x03) + 1))"

section \<open>Power state coordination interface: src/arch-arm/armv/armv8-a/64/psci.c\<close>

definition psci_func :: "hardware \<Rightarrow> uint32 \<Rightarrow> uint64 \<Rightarrow> uint64 \<Rightarrow> uint64 \<Rightarrow> uint32 code" where
  "psci_func hw fid p1 p2 p3 = andThen (call_fw hw ''psci_func'' [ucast fid, p1, p2, p3]) (\<lambda>r. ret (ucast r))"

definition psci_version :: "hardware \<Rightarrow> uint32 code" where
  "psci_version hw = psci_func hw 0x84000000 0 0 0"

definition psci_cpu_suspend :: "hardware \<Rightarrow> uint32 \<Rightarrow> uint64 \<Rightarrow> uint64 \<Rightarrow> uint32 code" where
  "psci_cpu_suspend hw power_state entry_point context_id =
     psci_func hw 0xc4000001 (scast power_state) entry_point context_id"

definition psci_cpu_off :: "hardware \<Rightarrow> uint32 code" where
  "psci_cpu_off hw = psci_func hw 0x84000002 0 0 0"

definition SMC64_FID_CPU_ON :: uint32 where "SMC64_FID_CPU_ON = 0xc4000003"

definition psci_cpu_on :: "hardware \<Rightarrow> uint64 \<Rightarrow> uint64 \<Rightarrow> uint64 \<Rightarrow> uint32 code" where
  "psci_cpu_on hw target_cpu entry_point context_id =
     psci_func hw SMC64_FID_CPU_ON target_cpu entry_point context_id"

definition psci_system_reset :: "hardware \<Rightarrow> uint32 code" where
  "psci_system_reset hw = psci_func hw 0x84000009 0 0 0"

section \<open>The other cores: smp_boot.c, smp.c, idle.c\<close>

definition cpu_idle :: "unit code" where
  "cpu_idle = seq [instr ''dsb'', instr ''wfi'']"

text \<open>\<^verbatim>\<open>aarch64\<close> and \<^verbatim>\<open>hyp_support\<close> are the build configuration. The wait on the
  lock idles after each read on 32-bit cores.\<close>

definition lock_read :: "bool \<Rightarrow> hardware \<Rightarrow> uint64 \<Rightarrow> history \<Rightarrow> uint32 \<times> history" where
  "lock_read aarch64 hw a h =
     (let (v, h) = rd32 hw a h in (v, if v = 0 \<and> \<not> aarch64 then asm ''wfi'' (asm ''dsb'' h) else h))"

definition wait_lock :: "bool \<Rightarrow> hardware \<Rightarrow> uint64 \<Rightarrow> unit code" where
  "wait_lock aarch64 hw a =
     (\<lambda>h. case spin (lock_read aarch64 hw a) (\<lambda>v. v \<noteq> 0) h of None \<Rightarrow> Hangs | Some h' \<Rightarrow> Returns () h')"

definition is_hyp_mode :: "bool \<Rightarrow> hardware \<Rightarrow> bool code" where
  "is_hyp_mode aarch64 hw = (if aarch64 then is_hyp_mode64 hw else is_hyp_mode32 hw)"

text \<open>\<open>kernel_info\<close> and \<open>user_info\<close> are the globals the boot core has filled; the kernel's entry code is not C.\<close>

definition non_boot_main :: "bool \<Rightarrow> bool \<Rightarrow> hardware \<Rightarrow> smp_links \<Rightarrow>
    'w::len word image_info \<Rightarrow> 'w word image_info \<Rightarrow> unit code" where
  "non_boot_main aarch64 hyp_support hw l kernel_info user_info = seq [
     if aarch64 then ret () else invoke hw ''arm_disable_dcaches'' [],
     wait_lock aarch64 hw (non_boot_lock l),
     if hyp_support then ret () else andThen (is_hyp_mode aarch64 hw) (\<lambda>hyp.
       if hyp then invoke hw ''leave_hyp'' [] else ret ()),
     andThen (is_hyp_mode aarch64 hw) (\<lambda>hyp.
       if hyp then invoke hw ''arm_enable_hyp_mmu'' [] else invoke hw ''arm_enable_mmu'' []),
     invoke hw ''kernel'' [ucast (virt_entry kernel_info), ucast (phys_region_start user_info),
       ucast (phys_region_end user_info), ucast (phys_virt_offset user_info), ucast (virt_entry user_info)],
     say_line ''AP Kernel returned back to the elf-loader.'',
     abort_dev]"

definition smp_boot :: "bool \<Rightarrow> hardware \<Rightarrow> smp_links \<Rightarrow> unit code \<Rightarrow> unit code" where
  "smp_boot aarch64 hw l init = seq [
     if aarch64 then ret () else invoke hw ''arm_disable_dcaches'' [],
     init,
     write32 (non_boot_lock l) 1]"

text \<open>The number of a core from the stack it was given, as the 32-bit \<^verbatim>\<open>int\<close> it is kept in.\<close>

definition core_id_of :: "smp_links \<Rightarrow> uint64 \<Rightarrow> uint32" where
  "core_id_of l sp = ucast ((sp - core_stacks l) div of_nat STACK_SIZE)"

definition core_up_addr :: "smp_links \<Rightarrow> uint32 \<Rightarrow> uint64" where
  "core_up_addr l i = core_up l + 4 * scast i"

definition core_entry :: "bool \<Rightarrow> hardware \<Rightarrow> smp_links \<Rightarrow>
    64 word image_info \<Rightarrow> 64 word image_info \<Rightarrow> uint64 \<Rightarrow> unit code" where
  "core_entry hyp_support hw l kernel_info user_info sp = (let i = core_id_of l sp in seq [
     write_sys ''tpidr_el1'' (scast i),
     write32 (core_up_addr l i) i,
     instr ''dmb sy'',
     non_boot_main True hyp_support hw l kernel_info user_info])"

definition is_core_up :: "hardware \<Rightarrow> smp_links \<Rightarrow> uint32 \<Rightarrow> bool code" where
  "is_core_up hw l i = andThen (read32 hw (core_up_addr l i)) (\<lambda>v. ret (v = i))"

text \<open>\<^verbatim>\<open>while (!is_core_up(i));\<close>\<close>

definition wait_core_up :: "hardware \<Rightarrow> smp_links \<Rightarrow> uint32 \<Rightarrow> unit code" where
  "wait_core_up hw l i = wait_for hw (core_up_addr l i) (\<lambda>v. v = i)"

definition stack_addr :: "smp_links \<Rightarrow> nat \<Rightarrow> uint64" where
  "stack_addr l i = core_stacks l + of_nat (i * STACK_SIZE)"

section \<open>The platforms\<close>

text \<open>src/plat/hikey/smp.c\<close>

definition hikey_start_core :: "hardware \<Rightarrow> smp_links \<Rightarrow> nat \<Rightarrow> unit code" where
  "hikey_start_core hw l i =
     (let core_id = i mod 4; cluster_id = i div 4; logic_id = i;
          cpuid = of_nat core_id OR push_bit 8 (of_nat cluster_id)
      in andThen (psci_cpu_on hw cpuid (core_entry_head l) (stack_addr l logic_id)) (\<lambda>r.
           if r \<noteq> PSCI_SUCCESS
           then die ''Failed to bring up core %d in cluster %d with error %d''
                  [VInt (of_nat core_id) :: uint64 varg, VInt (of_nat cluster_id), VInt r]
           else seq [
             wait_core_up hw l (of_nat logic_id),
             say (line ''Core %d in Cluster %d is up with logic ID %d'')
               [VInt (of_nat core_id) :: uint64 varg, VInt (of_nat cluster_id), VInt (of_nat logic_id)]]))"

definition hikey_init_cpus :: "nat \<Rightarrow> hardware \<Rightarrow> smp_links \<Rightarrow> unit code" where
  "hikey_init_cpus nodes hw l = seq [
     if nodes > 8
     then die ''CONFIG_MAX_NUM_NODES %d is greater than max number cores %d, will abort''
            [VInt (of_nat nodes) :: uint64 varg, VInt 8]
     else ret (),
     for_each 1 nodes (hikey_start_core hw l),
     write_sys ''tpidr_el1'' 0]"

text \<open>src/plat/tx1/smp.c\<close>

definition tx1_start_core :: "hardware \<Rightarrow> smp_links \<Rightarrow> nat \<Rightarrow> unit code" where
  "tx1_start_core hw l i = seq [
     store64 (core_stacks l) (stack_addr l i),
     instr ''dsb sy'',
     andThen (psci_cpu_on hw (of_nat i) (core_entry_head l) 0) (\<lambda>r.
       if r \<noteq> PSCI_SUCCESS
       then die ''Failed to bring up core %d with error %d'' [VInt (of_nat i) :: uint64 varg, VInt r]
       else seq [
         wait_core_up hw l (of_nat i),
         say (line ''Core %d is up with logic ID %d'') [VInt (of_nat i) :: uint64 varg, VInt (of_nat i)]])]"

definition tx1_init_cpus :: "nat \<Rightarrow> hardware \<Rightarrow> smp_links \<Rightarrow> unit code" where
  "tx1_init_cpus nodes hw l = seq [
     if nodes > 4
     then die ''CONFIG_MAX_NUM_NODES %d is greater than max number cores %d, will abort''
            [VInt (of_nat nodes) :: uint64 varg, VInt 4]
     else ret (),
     for_each 1 nodes (tx1_start_core hw l),
     write_sys ''tpidr_el1'' 0]"

text \<open>src/plat/tk1/smp.c and src/plat/tx2/smp.c: nothing yet.\<close>

definition tk1_init_cpus :: "unit code" where "tk1_init_cpus = ret ()"
definition tx2_init_cpus :: "unit code" where "tx2_init_cpus = ret ()"

text \<open>The number of cores to start; the three ARMv7 platforms agree on this part.\<close>

definition checked_count :: "uint32 \<Rightarrow> uint32 \<Rightarrow> uint32 code" where
  "checked_count num nodes =
     (if num > nodes then ret nodes
      else if num < nodes
      then die ''Error: Unsupported number of CPUs! This platform has %u CPUs, while static configuration provided is %u CPUs''
             [VInt num :: uint32 varg, VInt nodes]
      else ret num)"

definition say_bringing_up :: "uint32 \<Rightarrow> unit code" where
  "say_bringing_up num = say (line ''Bringing up %d other cpus'') [VInt (num - 1) :: uint32 varg]"

text \<open>src/plat/imx6/smp.c\<close>

definition get_scu_base :: "hardware \<Rightarrow> uint32 code" where
  "get_scu_base hw = read_cp hw (4, 15, 0, 0)"

definition imx6_src_init :: "hardware \<Rightarrow> unit code" where
  "imx6_src_init hw = update32 hw (0x020D8000 + 0x000) (\<lambda>val. val AND NOT (push_bit 0 1))"

definition imx6_src_enable_cpu :: "hardware \<Rightarrow> nat \<Rightarrow> unit code" where
  "imx6_src_enable_cpu hw cpu = update32 hw (0x020D8000 + 0x000) (\<lambda>val. val OR push_bit (22 + cpu - 1) 1)"

definition imx6_src_set_cpu_jump :: "nat \<Rightarrow> uint32 \<Rightarrow> unit code" where
  "imx6_src_set_cpu_jump cpu jump_addr = seq [
     write32 (0x020D8000 + (0x020 + of_nat cpu * 8)) jump_addr,
     instr ''dsb'']"

definition imx6_init_cpus :: "bool \<Rightarrow> uint32 \<Rightarrow> hardware \<Rightarrow> smp_links \<Rightarrow> unit code" where
  "imx6_init_cpus arm_errata_764369 nodes hw l = andThen (get_scu_base hw) (\<lambda>scu. seq [
     scu_enable arm_errata_764369 hw scu,
     imx6_src_init hw,
     andThen (scu_get_core_count hw scu) (\<lambda>num.
     andThen (checked_count num nodes) (\<lambda>num. seq [
       say_bringing_up num,
       for_each 1 (unat num) (\<lambda>i. seq [
         imx6_src_set_cpu_jump i (imx_non_boot l),
         imx6_src_enable_cpu hw i])]))])"

text \<open>src/plat/imx7/smp.c\<close>

definition imx7_src_init :: "hardware \<Rightarrow> unit code" where
  "imx7_src_init hw = update32 hw (0x30390000 + 0x000) (\<lambda>val. val AND NOT (push_bit 0 1))"

definition gpc_core1_up :: "hardware \<Rightarrow> unit code" where
  "gpc_core1_up hw = andThen (read32 hw (0x303a0000 + 0xf0)) (\<lambda>val. seq [
     write32 (0x303a0000 + 0x840) 1,
     write32 (0x303a0000 + 0xf0) (val OR 0x2),
     wait_for hw (0x303a0000 + 0xf0) (\<lambda>v. \<not> v AND 0x2 \<noteq> 0),
     write32 (0x303a0000 + 0x840) 0])"

definition imx7_src_enable_cpu :: "hardware \<Rightarrow> nat \<Rightarrow> unit code" where
  "imx7_src_enable_cpu hw cpu = seq [
     gpc_core1_up hw,
     update32 hw (0x30390000 + 0x008) (\<lambda>val. val OR push_bit (1 + cpu - 1) 1)]"

definition imx7_src_set_cpu_jump :: "nat \<Rightarrow> uint32 \<Rightarrow> unit code" where
  "imx7_src_set_cpu_jump cpu jump_addr = seq [
     write32 (0x30390000 + (0x074 + of_nat cpu * 8)) jump_addr,
     instr ''dsb'']"

definition imx7_init_cpus :: "uint32 \<Rightarrow> hardware \<Rightarrow> smp_links \<Rightarrow> unit code" where
  "imx7_init_cpus nodes hw l = andThen (imx7_src_init hw) (\<lambda>_.
     andThen (read_cp hw (1, 9, 0, 2)) (\<lambda>l2ctlr.
     andThen (checked_count ((drop_bit 24 l2ctlr AND 0x3) + 1) nodes) (\<lambda>num. seq [
       say_bringing_up num,
       for_each 1 (unat num) (\<lambda>i. seq [
         imx7_src_set_cpu_jump i (imx_non_boot l),
         imx7_src_enable_cpu hw i])])))"

text \<open>src/plat/zynq7000/smp.c\<close>

definition A9_CPU_RST_CTRL :: uint64 where "A9_CPU_RST_CTRL = 0xF8000244"
definition CPU_JUMP_PTR :: uint64 where "CPU_JUMP_PTR = 0xFFFFFFF0"

definition zynq_stop_core1 :: "hardware \<Rightarrow> unit code" where
  "zynq_stop_core1 hw = seq [
     update32 hw A9_CPU_RST_CTRL (\<lambda>v. v OR BIT 1), instr ''dsb'',
     update32 hw A9_CPU_RST_CTRL (\<lambda>v. v OR BIT 5), instr ''dsb'']"

definition zynq_start_core1 :: "hardware \<Rightarrow> unit code" where
  "zynq_start_core1 hw = seq [
     update32 hw A9_CPU_RST_CTRL (\<lambda>v. v AND NOT (BIT 1)), instr ''dsb'',
     update32 hw A9_CPU_RST_CTRL (\<lambda>v. v AND NOT (BIT 5)), instr ''dsb'']"

definition boot_cpus :: "hardware \<Rightarrow> uint32 \<Rightarrow> unit code" where
  "boot_cpus hw entry = seq [
     zynq_stop_core1 hw,
     write32 CPU_JUMP_PTR entry,
     zynq_start_core1 hw,
     instr ''dsb'',
     instr ''sev'']"

definition zynq7000_init_cpus :: "uint32 \<Rightarrow> hardware \<Rightarrow> smp_links \<Rightarrow> unit code" where
  "zynq7000_init_cpus nodes hw l = andThen (get_scu_base hw) (\<lambda>scu.
     andThen (scu_get_core_count hw scu) (\<lambda>num.
     andThen (checked_count num nodes) (\<lambda>num. seq [
       say_bringing_up num,
       if num \<noteq> 1 then boot_cpus hw (non_boot_core l) else ret ()])))"

end
