(* ===== verification/Smp_Protocol.thy ===== *)
theory Smp_Protocol
  imports Smp
begin

text \<open>
  The hand-over between the boot core and the others on AArch64, as an interleaving of their
  steps: the loop of \<^verbatim>\<open>init_cpus\<close> (src/plat/{hikey,tx1}/smp.c), \<^verbatim>\<open>core_entry_head\<close>
  (smp_head.S of the platform), \<^verbatim>\<open>core_entry\<close> and the wait in \<^verbatim>\<open>non_boot_main\<close>. hikey
  hands the stack address over in register x0; tx1 puts it in the first word of
  \<^verbatim>\<open>core_stacks\<close>, one slot shared by all cores. That a successful CPU_ON starts exactly the core it
  names, with its third argument in x0, is the documented behaviour of the firmware.
\<close>

section \<open>The steps\<close>

datatype handover = By_register | By_memory

datatype core_pc =
    Off
  | Head uint64           \<comment> \<open>at \<^verbatim>\<open>core_entry_head\<close>, with x0\<close>
  | Entry uint64          \<comment> \<open>at \<^verbatim>\<open>core_entry\<close>, with its stack pointer\<close>
  | Waits_lock uint32     \<comment> \<open>in \<^verbatim>\<open>non_boot_main\<close>, with its number\<close>
  | In_kernel uint32

datatype boot_pc =
    Starting nat
  | Calling nat           \<comment> \<open>about to call CPU_ON\<close>
  | Waiting nat           \<comment> \<open>polling \<^verbatim>\<open>is_core_up\<close>\<close>
  | Released              \<comment> \<open>\<^verbatim>\<open>non_boot_lock\<close> is set\<close>
  | Gave_up               \<comment> \<open>in \<^verbatim>\<open>abort\<close>\<close>

record system =
  boot :: boot_pc
  cores :: "nat \<Rightarrow> core_pc"
  slot :: uint64
  up :: "nat \<Rightarrow> uint32"
  lock :: uint32

definition power_on :: system where
  "power_on = \<lparr>boot = Starting 1, cores = (\<lambda>_. Off), slot = 0, up = (\<lambda>_. 0), lock = 0\<rparr>"

inductive smp_step :: "handover \<Rightarrow> smp_links \<Rightarrow> nat \<Rightarrow> system \<Rightarrow> system \<Rightarrow> bool" for p l n where
  prepare: "boot s = Starting i \<Longrightarrow> i < n \<Longrightarrow>
    smp_step p l n s (s\<lparr>slot := (case p of By_memory \<Rightarrow> stack_addr l i | By_register \<Rightarrow> slot s),
                        boot := Calling i\<rparr>)"
| call_on: "boot s = Calling i \<Longrightarrow> cores s i = Off \<Longrightarrow>
    smp_step p l n s (s\<lparr>cores := (cores s)(i := Head (case p of By_register \<Rightarrow> stack_addr l i | By_memory \<Rightarrow> 0)),
                        boot := Waiting i\<rparr>)"
| refused: "boot s = Calling i \<Longrightarrow> smp_step p l n s (s\<lparr>boot := Gave_up\<rparr>)"
| load_sp: "cores s c = Head x0 \<Longrightarrow>
    smp_step p l n s (s\<lparr>cores := (cores s)(c := Entry (case p of By_register \<Rightarrow> x0 | By_memory \<Rightarrow> slot s))\<rparr>)"
| publish: "cores s c = Entry sp \<Longrightarrow> k = core_id_of l sp \<Longrightarrow>
    smp_step p l n s (s\<lparr>up := (up s)(unat k := k), cores := (cores s)(c := Waits_lock k)\<rparr>)"
| seen: "boot s = Waiting i \<Longrightarrow> up s i = of_nat i \<Longrightarrow> smp_step p l n s (s\<lparr>boot := Starting (Suc i)\<rparr>)"
| release: "boot s = Starting i \<Longrightarrow> \<not> i < n \<Longrightarrow> smp_step p l n s (s\<lparr>boot := Released, lock := 1\<rparr>)"
| enter: "cores s c = Waits_lock k \<Longrightarrow> lock s \<noteq> 0 \<Longrightarrow>
    smp_step p l n s (s\<lparr>cores := (cores s)(c := In_kernel k)\<rparr>)"

inductive reachable :: "handover \<Rightarrow> smp_links \<Rightarrow> nat \<Rightarrow> system \<Rightarrow> bool" for p l n where
  start: "reachable p l n power_on"
| step: "reachable p l n s \<Longrightarrow> smp_step p l n s t \<Longrightarrow> reachable p l n t"

section \<open>The numbers of the cores\<close>

text \<open>A core finds its number from the address it was given as stack.\<close>

lemma core_number: "c < 2 ^ 31 \<Longrightarrow> unat (of_nat c :: uint32) = c"
  by (intro unat_of_nat_less) simp

lemma core_id_of_stack:
  assumes "i < 2 ^ 31"
  shows "core_id_of l (stack_addr l i) = of_nat i"
proof -
  have "unat (of_nat (i * 4096) :: uint64) = i * 4096"
    by (intro unat_of_nat_less) (use assms in simp)
  then have "(of_nat (i * 4096) :: uint64) div of_nat 4096 = of_nat i"
    unfolding word_arith_nat_div by (simp only:) simp
  then have "core_id_of l (stack_addr l i) = ucast (of_nat i :: uint64)"
    unfolding core_id_of_def stack_addr_def STACK_SIZE_def by (simp only: add_diff_cancel_left')
  also have "\<dots> = of_nat i"
    using assms by (simp add: unsigned_of_nat take_bit_nat_eq_self)
  finally show ?thesis .
qed

section \<open>The invariant\<close>

text \<open>How far the boot core has come: the cores it has seen up, and those it has started.\<close>

fun seen_below :: "nat \<Rightarrow> boot_pc \<Rightarrow> nat" where
  "seen_below n (Starting i) = i"
| "seen_below n (Calling i) = i"
| "seen_below n (Waiting i) = i"
| "seen_below n Released = n"
| "seen_below n Gave_up = 0"

fun started_below :: "nat \<Rightarrow> boot_pc \<Rightarrow> nat" where
  "started_below n (Starting i) = i"
| "started_below n (Calling i) = i"
| "started_below n (Waiting i) = Suc i"
| "started_below n Released = n"
| "started_below n Gave_up = n"

fun boot_ok :: "nat \<Rightarrow> boot_pc \<Rightarrow> bool" where
  "boot_ok n (Starting i) \<longleftrightarrow> 1 \<le> i \<and> i \<le> n"
| "boot_ok n (Calling i) \<longleftrightarrow> 1 \<le> i \<and> i < n"
| "boot_ok n (Waiting i) \<longleftrightarrow> 1 \<le> i \<and> i < n"
| "boot_ok n _ \<longleftrightarrow> True"

definition is_up :: "nat \<Rightarrow> core_pc \<Rightarrow> bool" where
  "is_up c pc \<longleftrightarrow> pc = Waits_lock (of_nat c) \<or> pc = In_kernel (of_nat c)"

definition core_ok :: "handover \<Rightarrow> smp_links \<Rightarrow> system \<Rightarrow> nat \<Rightarrow> core_pc \<Rightarrow> bool" where
  "core_ok p l s c pc = (case pc of
     Off \<Rightarrow> True
   | Head x0 \<Rightarrow> boot s = Waiting c \<and> (if p = By_register then x0 else slot s) = stack_addr l c
   | Entry sp \<Rightarrow> boot s = Waiting c \<and> sp = stack_addr l c
   | Waits_lock k \<Rightarrow> k = of_nat c \<and> up s c = k
   | In_kernel k \<Rightarrow> k = of_nat c \<and> up s c = k \<and> lock s \<noteq> 0)"

definition core_inv :: "handover \<Rightarrow> smp_links \<Rightarrow> nat \<Rightarrow> system \<Rightarrow> nat \<Rightarrow> bool" where
  "core_inv p l n s c \<longleftrightarrow> core_ok p l s c (cores s c) \<and>
     (1 \<le> c \<and> c < seen_below n (boot s) \<longrightarrow> is_up c (cores s c)) \<and>
     (1 \<le> c \<and> c < n \<and> up s c = of_nat c \<longrightarrow> is_up c (cores s c)) \<and>
     (cores s c \<noteq> Off \<longrightarrow> 1 \<le> c \<and> c < started_below n (boot s) \<and> c < n) \<and>
     (1 \<le> c \<and> c < started_below n (boot s) \<and> boot s \<noteq> Gave_up \<longrightarrow> cores s c \<noteq> Off)"

definition smp_inv :: "handover \<Rightarrow> smp_links \<Rightarrow> nat \<Rightarrow> system \<Rightarrow> bool" where
  "smp_inv p l n s \<longleftrightarrow> boot_ok n (boot s) \<and> (lock s \<noteq> 0 \<longleftrightarrow> boot s = Released) \<and>
     (\<forall>i. boot s = Calling i \<and> p = By_memory \<longrightarrow> slot s = stack_addr l i) \<and> (\<forall>c. core_inv p l n s c)"

lemma smp_invI:
  "boot_ok n (boot s) \<Longrightarrow> (lock s \<noteq> 0 \<longleftrightarrow> boot s = Released) \<Longrightarrow>
    (\<And>i. boot s = Calling i \<Longrightarrow> p = By_memory \<Longrightarrow> slot s = stack_addr l i) \<Longrightarrow>
    (\<And>c. core_inv p l n s c) \<Longrightarrow> smp_inv p l n s"
  by (simp add: smp_inv_def)

lemma smp_invD:
  assumes "smp_inv p l n s"
  shows "boot_ok n (boot s)" "lock s \<noteq> 0 \<longleftrightarrow> boot s = Released"
    "boot s = Calling i \<Longrightarrow> p = By_memory \<Longrightarrow> slot s = stack_addr l i" "core_inv p l n s c"
  using assms by (simp_all add: smp_inv_def)

lemmas core_facts = core_inv_def core_ok_def is_up_def

lemma power_on_inv:
  assumes "1 \<le> n" "n \<le> 2 ^ 31"
  shows "smp_inv p l n power_on"
proof -
  have "(of_nat c :: uint32) \<noteq> 0" if "1 \<le> c" "c < n" for c
    using core_number [of c] that assms by auto
  then show ?thesis using assms by (auto simp: smp_inv_def power_on_def core_facts)
qed

lemma smp_step_inv:
  assumes "smp_step p l n s t" and "smp_inv p l n s" and n: "n \<le> 2 ^ 31"
  shows "smp_inv p l n t"
  using assms(1)
proof cases
  case (prepare i)
  note facts = smp_invD [OF assms(2), unfolded prepare(2) boot_ok.simps]
  show ?thesis
  proof (rule smp_invI)
    fix c show "core_inv p l n t c"
      using facts(1) facts(4) [of c] prepare(1,2) by (cases "cores s c"; cases p) (simp_all add: core_facts)
  qed (use facts prepare in auto)
next
  case (call_on i)
  note facts = smp_invD [OF assms(2), unfolded call_on(2) boot_ok.simps]
  show ?thesis
  proof (rule smp_invI)
    fix c show "core_inv p l n t c"
    proof (cases "c = i")
      case True
      then show ?thesis
        using facts(1,3) facts(4) [of i] call_on by (cases p) (simp_all add: core_facts)
    next
      case False
      then have "cores t c = cores s c" "c < Suc i \<longleftrightarrow> c < i" using call_on by auto
      then show ?thesis
        using facts(4) [of c] call_on(1,2) False by (cases "cores s c"; cases p) (simp_all add: core_facts)
    qed
  qed (use facts call_on in auto)
next
  case refused
  show ?thesis
  proof (rule smp_invI)
    fix c show "core_inv p l n t c"
      using smp_invD(1) [OF assms(2)] smp_invD(4) [OF assms(2), of c] refused
      by (cases "cores s c"; cases p) (simp_all add: core_facts)
  qed (use smp_invD [OF assms(2)] refused in auto)
next
  case (load_sp a x0)
  show ?thesis
  proof (rule smp_invI)
    fix c show "core_inv p l n t c"
    proof (cases "c = a")
      case True
      then show ?thesis
        using smp_invD(4) [OF assms(2), of a] load_sp by (cases p) (simp_all add: core_facts)
    next
      case False
      then show ?thesis
        using smp_invD(4) [OF assms(2), of c] load_sp(1) by (cases "cores s c"; cases p) (simp_all add: core_facts)
    qed
  qed (use smp_invD [OF assms(2)] load_sp in auto)
next
  case (publish a sp k)
  note a = smp_invD(4) [OF assms(2), of a]
  have "a < n" using a publish(2) by (simp add: core_facts)
  then have k: "k = of_nat a" "unat k = a"
    using a publish(2,3) n core_id_of_stack [of a l] core_number [of a] by (auto simp: core_facts)
  show ?thesis
  proof (rule smp_invI)
    fix c show "core_inv p l n t c"
    proof (cases "c = a")
      case True
      then show ?thesis using a publish(1,2) k by (simp add: core_facts)
    next
      case False
      then show ?thesis
        using smp_invD(4) [OF assms(2), of c] publish(1) k(2)
        by (cases "cores s c"; cases p) (simp_all add: core_facts)
    qed
  qed (use smp_invD [OF assms(2)] publish in auto)
next
  case (seen i)
  note facts = smp_invD [OF assms(2), unfolded seen(2) boot_ok.simps]
  have up: "is_up i (cores s i)"
    using facts(1) facts(4) [of i] seen by (auto simp: core_inv_def)
  show ?thesis
  proof (rule smp_invI)
    fix c show "core_inv p l n t c"
    proof (cases "c = i")
      case True
      then show ?thesis
        using facts(1) facts(4) [of i] up seen(1,2) by (cases "cores s i") (simp_all add: core_facts)
    next
      case False
      then have "c < Suc i \<longleftrightarrow> c < i" by auto
      then show ?thesis
        using facts(4) [of c] seen(1,2) False by (cases "cores s c"; cases p) (simp_all add: core_facts)
    qed
  qed (use facts seen in auto)
next
  case (release i)
  note facts = smp_invD [OF assms(2), unfolded release(2) boot_ok.simps]
  have "i = n" using facts(1) release(3) by simp
  show ?thesis
  proof (rule smp_invI)
    fix c show "core_inv p l n t c"
      using facts(4) [of c] release(1,2) \<open>i = n\<close> by (cases "cores s c"; cases p) (simp_all add: core_facts)
  qed (use facts release in auto)
next
  case (enter a k)
  show ?thesis
  proof (rule smp_invI)
    fix c show "core_inv p l n t c"
    proof (cases "c = a")
      case True
      then show ?thesis using smp_invD(4) [OF assms(2), of a] enter by (simp add: core_facts)
    next
      case False
      then show ?thesis
        using smp_invD(4) [OF assms(2), of c] enter(1) by (cases "cores s c"; cases p) (simp_all add: core_facts)
    qed
  qed (use smp_invD [OF assms(2)] enter in auto)
qed

lemma reachable_inv:
  assumes "reachable p l n s" and "1 \<le> n" "n \<le> 2 ^ 31"
  shows "smp_inv p l n s"
  using assms(1) by induction (auto intro: power_on_inv smp_step_inv assms(2,3))

section \<open>Progress\<close>

text \<open>What is left to do: the steps of the boot core and those of every other one.\<close>

fun boot_work :: "nat \<Rightarrow> boot_pc \<Rightarrow> nat" where
  "boot_work n (Starting i) = 3 * (n - i) + 1"
| "boot_work n (Calling i) = 3 * (n - i)"
| "boot_work n (Waiting i) = 3 * (n - i) - 1"
| "boot_work n _ = 0"

fun core_work :: "core_pc \<Rightarrow> nat" where
  "core_work Off = 4"
| "core_work (Head x0) = 3"
| "core_work (Entry sp) = 2"
| "core_work (Waits_lock k) = 1"
| "core_work (In_kernel k) = 0"

definition work :: "nat \<Rightarrow> system \<Rightarrow> nat" where
  "work n s = boot_work n (boot s) + (\<Sum>c = 1..<n. core_work (cores s c))"

definition completed :: "nat \<Rightarrow> system \<Rightarrow> bool" where
  "completed n s \<longleftrightarrow> boot s = Released \<and> (\<forall>c. 1 \<le> c \<and> c < n \<longrightarrow> cores s c = In_kernel (of_nat c))"

lemma core_step_work:
  assumes "1 \<le> c" "c < n" and "core_work pc < core_work (cores s c)"
    and "cores t = (cores s)(c := pc)" and "boot_work n (boot t) \<le> boot_work n (boot s)"
  shows "work n t < work n s"
proof -
  have "(\<Sum>c = 1..<n. core_work (cores t c)) < (\<Sum>c = 1..<n. core_work (cores s c))"
    by (rule sum_strict_mono_ex1) (use assms in auto)
  then show ?thesis using assms(5) by (simp add: work_def)
qed

lemma boot_step_work:
  "cores t = cores s \<Longrightarrow> boot_work n (boot t) < boot_work n (boot s) \<Longrightarrow> work n t < work n s"
  by (simp add: work_def)

lemma progressI:
  "smp_step p l n s t \<Longrightarrow> boot t \<noteq> Gave_up \<Longrightarrow> work n t < work n s \<Longrightarrow>
    \<exists>t. smp_step p l n s t \<and> boot t \<noteq> Gave_up \<and> work n t < work n s"
  by blast

lemma smp_progress:
  assumes inv: "smp_inv p l n s" and going: "boot s \<noteq> Gave_up" "\<not> completed n s"
  shows "\<exists>t. smp_step p l n s t \<and> boot t \<noteq> Gave_up \<and> work n t < work n s"
proof (cases "boot s")
  case (Starting i)
  show ?thesis
  proof (cases "i < n")
    case True
    show ?thesis
      by (rule progressI [OF prepare [OF Starting True]]) (use Starting True in \<open>auto intro!: boot_step_work\<close>)
  next
    case False
    show ?thesis
      by (rule progressI [OF release [OF Starting False]]) (use Starting in \<open>auto intro!: boot_step_work\<close>)
  qed
next
  case (Calling i)
  have i: "1 \<le> i" "i < n" "cores s i = Off"
    using smp_invD(1) [OF inv] smp_invD(4) [OF inv, of i] Calling by (auto simp: core_inv_def)
  show ?thesis
    by (rule progressI [OF call_on [OF Calling i(3)]]) (use i Calling in \<open>auto intro!: core_step_work [of i]\<close>)
next
  case (Waiting i)
  have i: "1 \<le> i" "i < n" "cores s i \<noteq> Off" "core_ok p l s i (cores s i)"
    using smp_invD(1) [OF inv] smp_invD(4) [OF inv, of i] Waiting by (auto simp: core_inv_def)
  have up: "?thesis" if "up s i = of_nat i"
    by (rule progressI [OF seen [OF Waiting that]]) (use i Waiting in \<open>auto intro!: boot_step_work\<close>)
  show ?thesis
  proof (cases "cores s i")
    case (Head x0)
    show ?thesis
      by (rule progressI [OF load_sp [OF Head]]) (use i Waiting Head in \<open>auto intro!: core_step_work [of i]\<close>)
  next
    case (Entry sp)
    show ?thesis
      by (rule progressI [OF publish [OF Entry refl]])
        (use i Waiting Entry in \<open>auto intro!: core_step_work [of i]\<close>)
  qed (use i in \<open>auto simp: core_ok_def intro!: up\<close>)
next
  case Released
  then obtain c where c: "1 \<le> c" "c < n" "cores s c \<noteq> In_kernel (of_nat c)"
    using going(2) by (auto simp: completed_def)
  then have w: "cores s c = Waits_lock (of_nat c)"
    using smp_invD(4) [OF inv, of c] Released by (auto simp: core_inv_def is_up_def)
  have "lock s \<noteq> 0" using smp_invD(2) [OF inv] Released by simp
  then show ?thesis
    by (intro progressI [OF enter [OF w]]) (use c w Released in \<open>auto intro!: core_step_work [of c]\<close>)
qed (use going in simp)

lemma smp_completes:
  assumes "smp_inv p l n s" and "boot s \<noteq> Gave_up" and "n \<le> 2 ^ 31"
  shows "\<exists>t. (smp_step p l n)\<^sup>*\<^sup>* s t \<and> completed n t"
  using assms(1,2)
proof (induction "work n s" arbitrary: s rule: less_induct)
  case less
  show ?case
  proof (cases "completed n s")
    case False
    obtain t where t: "smp_step p l n s t" "boot t \<noteq> Gave_up" "work n t < work n s"
      using smp_progress [OF less.prems False] by blast
    obtain u where "(smp_step p l n)\<^sup>*\<^sup>* t u" "completed n u"
      using less.hyps [OF t(3) smp_step_inv [OF t(1) less.prems(1) assms(3)] t(2)] by blast
    then show ?thesis using t(1) by (meson converse_rtranclp_into_rtranclp)
  qed auto
qed

lemma reachable_steps: "(smp_step p l n)\<^sup>*\<^sup>* s t \<Longrightarrow> reachable p l n s \<Longrightarrow> reachable p l n t"
  by (induction rule: rtranclp_induct) (auto intro: reachable.step)

section \<open>The rules and the code\<close>

text \<open>What a core does from \<^verbatim>\<open>core_entry\<close> on, up to the wait for the lock, is the step
  \<open>publish\<close>: given the stack of core \<open>i\<close> it puts \<open>i\<close> into the word \<^verbatim>\<open>is_core_up(i)\<close> reads.\<close>

lemma core_entry_publishes:
  assumes "i < 2 ^ 31"
  shows "core_entry hyp_support hw l kernel_info user_info (stack_addr l i) h =
    non_boot_main True hyp_support hw l kernel_info user_info
      (h @ [Msr ''tpidr_el1'' (of_nat i), Write (core_up_addr l (of_nat i)) (of_nat i), Asm ''dmb sy''])"
proof -
  have "unat (of_nat i :: uint32) = i" using assms by (rule core_number)
  then have "unat (scast (of_nat i :: uint32) :: uint64) = i"
    using assms small_int [of "of_nat i :: uint32", where 'w = 64] by (simp add: kernel_word_def)
  then have "(scast (of_nat i :: uint32) :: uint64) = of_nat i"
    using assms by (simp add: word_unat_eq_iff unat_of_nat_less)
  then show ?thesis
    using assms by (simp add: core_entry_def core_id_of_stack run Let_def split: outcome.split)
qed

section \<open>Properties\<close>

text \<open>C31: In every interleaving, on both platforms: a core is in the kernel only after the boot
  core has finished \<^verbatim>\<open>init_cpus\<close> and set the lock, and it carries its own number; once the lock is
  set every core below the configured number is in the wait or in the kernel under its own
  number; and no two cores are between power-on and \<^verbatim>\<open>core_up\<close> at the same time, so that the slot
  tx1 passes the stack in is never overwritten before it is read.\<close>

theorem smp_hand_over:
  assumes "reachable p l n s" and "1 \<le> n" "n \<le> 2 ^ 31"
  shows "(\<forall>c k. cores s c = In_kernel k \<longrightarrow> k = of_nat c \<and> boot s = Released) \<and>
    (boot s = Released \<longrightarrow> (\<forall>c. 1 \<le> c \<and> c < n \<longrightarrow>
      cores s c = Waits_lock (of_nat c) \<or> cores s c = In_kernel (of_nat c))) \<and>
    (\<forall>c sp. cores s c = Entry sp \<longrightarrow> sp = stack_addr l c) \<and>
    (\<forall>c d x y. cores s c \<in> {Head x, Entry x} \<and> cores s d \<in> {Head y, Entry y} \<longrightarrow> c = d)"
proof -
  note inv = reachable_inv [OF assms]
  have kernel: "k = of_nat c \<and> boot s = Released" if "cores s c = In_kernel k" for c k
    using smp_invD(2) [OF inv] smp_invD(4) [OF inv, of c] that by (simp add: core_facts)
  have released: "cores s c = Waits_lock (of_nat c) \<or> cores s c = In_kernel (of_nat c)"
    if "boot s = Released" "1 \<le> c" "c < n" for c
    using smp_invD(4) [OF inv, of c] that by (simp add: core_inv_def is_up_def)
  have entry: "sp = stack_addr l c" if "cores s c = Entry sp" for c sp
    using smp_invD(4) [OF inv, of c] that by (simp add: core_facts)
  have waiting: "boot s = Waiting c" if "cores s c \<in> {Head x, Entry x}" for c x
    using smp_invD(4) [OF inv, of c] that by (auto simp: core_facts)
  have "c = d" if "cores s c \<in> {Head x, Entry x}" "cores s d \<in> {Head y, Entry y}" for c d x y
    using waiting [OF that(1)] waiting [OF that(2)] by simp
  with kernel released entry show ?thesis by (intro conjI allI impI) (blast+)
qed

definition sample_smp :: smp_links where
  "sample_smp = \<lparr>core_stacks = 0x10000, core_up = 0x20000, core_entry_head = 0x30000,
     non_boot_lock = 0x20100, imx_non_boot = 0x30100, non_boot_core = 0x30200\<rparr>"

theorem smp_hand_over_witness:
  "\<exists>s. reachable By_memory sample_smp 4 s \<and> cores s 3 = In_kernel 3 \<and> boot s = Released \<and>
    (cores s 2 = Waits_lock 2 \<or> cores s 2 = In_kernel 2)"
proof -
  have inv: "smp_inv By_memory sample_smp 4 power_on" by (rule power_on_inv) simp_all
  have "boot power_on \<noteq> Gave_up" by (simp add: power_on_def)
  then obtain t where t: "(smp_step By_memory sample_smp 4)\<^sup>*\<^sup>* power_on t" "completed 4 t"
    using smp_completes [OF inv] by auto
  have r: "reachable By_memory sample_smp 4 t" using reachable_steps [OF t(1) reachable.start] .
  have "cores t 3 = In_kernel (of_nat 3)" using t(2) by (simp add: completed_def)
  then have "cores t 3 = In_kernel 3" by simp
  moreover have all: "1 \<le> (3 :: nat)" "3 < (4 :: nat)" "boot t = Released"
      "\<forall>c. 1 \<le> c \<and> c < 4 \<longrightarrow> cores t c = Waits_lock (of_nat c) \<or> cores t c = In_kernel (of_nat c)"
    using smp_hand_over [OF r] \<open>cores t 3 = In_kernel 3\<close> by auto
  moreover have "cores t 2 = Waits_lock 2 \<or> cores t 2 = In_kernel 2"
    using all(4) [rule_format, of 2] by simp
  ultimately show ?thesis using r by (intro exI [of _ t]) simp
qed

text \<open>C32: The hand-over does not get stuck: from every reachable state in which the firmware has
  not refused to start a core, some interleaving ends with the lock set and every other core in the
  kernel under its own number.\<close>

theorem smp_never_stuck:
  assumes "reachable p l n s" and "1 \<le> n" "n \<le> 2 ^ 31" and "boot s \<noteq> Gave_up"
  shows "\<exists>t. (smp_step p l n)\<^sup>*\<^sup>* s t \<and> boot t = Released \<and>
    (\<forall>c. 1 \<le> c \<and> c < n \<longrightarrow> cores t c = In_kernel (of_nat c))"
  using smp_completes [OF reachable_inv [OF assms(1-3)] assms(4,3)] unfolding completed_def .

theorem smp_never_stuck_witness:
  "\<exists>t. (smp_step By_register sample_smp 8)\<^sup>*\<^sup>* power_on t \<and> boot t = Released \<and>
    (\<forall>c. 1 \<le> c \<and> c < 8 \<longrightarrow> cores t c = In_kernel (of_nat c))"
  using smp_never_stuck [OF reachable.start [of By_register sample_smp 8]] by (simp add: power_on_def)

end
