(* ===== verification/Smp_Init.thy ===== *)
theory Smp_Init
  imports Smp_Protocol
begin

text \<open>
  What \<^verbatim>\<open>init_cpus\<close> does to the hardware: on hikey and tx1 one core after the other, each
  seen up before the next is started; on i.MX6 the state the reset controller is left in.
\<close>

section \<open>Loops of device programs\<close>

lemma for_each_pieces:
  assumes body: "\<And>i h h'. k \<le> i \<Longrightarrow> i < n \<Longrightarrow> body i h = Returns () h' \<Longrightarrow> \<exists>g. P i g \<and> h' = h @ g"
    and run: "for_each k n body h = Returns () h'"
  shows "\<exists>gs. h' = h @ concat (map gs [k..<n]) \<and> (\<forall>i. k \<le> i \<and> i < n \<longrightarrow> P i (gs i))"
proof (cases "k \<le> n")
  case True
  then show ?thesis using assms
  proof (induction n arbitrary: h' rule: dec_induct)
    case base
    then show ?case by (intro exI [of _ "\<lambda>_. []"]) (auto simp: run)
  next
    case (step m)
    obtain h1 where h1: "for_each k m body h = Returns () h1" "body m h1 = Returns () h'"
      using step.prems(2) step.hyps(1) by (auto simp: for_each_Suc andThen_Returns)
    obtain gs where gs: "h1 = h @ concat (map gs [k..<m])" "\<forall>i. k \<le> i \<and> i < m \<longrightarrow> P i (gs i)"
      using step.IH [OF _ h1(1)] step.prems(1) by (metis less_SucI)
    obtain g where g: "P m g" "h' = h1 @ g" using step.prems(1) [OF step.hyps(1) _ h1(2)] by auto
    have "map (gs(m := g)) [k..<m] = map gs [k..<m]" by simp
    moreover have "[k..<Suc m] = [k..<m] @ [m]" using step.hyps(1) by simp
    ultimately have "h' = h @ concat (map (gs(m := g)) [k..<Suc m])"
      unfolding gs(1) g(2) by (simp only: map_append concat_append) simp
    moreover have "\<forall>i. k \<le> i \<and> i < Suc m \<longrightarrow> P i ((gs(m := g)) i)"
      using gs(2) g(1) by (simp add: less_Suc_eq)
    ultimately show ?case by blast
  qed
qed (use run in \<open>auto simp: ret_run intro!: exI [of _ "\<lambda>_. []"]\<close>)

lemma for_each_invariant:
  assumes "I k h" and "k \<le> n"
    and "\<And>i h. k \<le> i \<Longrightarrow> i < n \<Longrightarrow> I i h \<Longrightarrow> \<exists>h'. body i h = Returns () h' \<and> I (Suc i) h'"
  shows "\<exists>h'. for_each k n body h = Returns () h' \<and> I n h'"
  using assms(2,1,3)
proof (induction n rule: dec_induct)
  case base
  then show ?case by (simp add: run)
next
  case (step m)
  obtain h1 where h1: "for_each k m body h = Returns () h1" "I m h1"
    using step.IH step.prems by (metis less_SucI)
  obtain h2 where "body m h1 = Returns () h2" "I (Suc m) h2"
    using step.prems(2) [OF step.hyps(1) _ h1(2)] by auto
  then show ?case using h1 step.hyps(1) by (auto simp: for_each_Suc run)
qed

section \<open>hikey and tx1\<close>

text \<open>The accesses that bring one core up: an accepted CPU_ON, polls of its word of
  \<^verbatim>\<open>core_up\<close> until it holds the core's number, and a message.\<close>

definition brought_up :: "smp_links \<Rightarrow> uint64 \<Rightarrow> uint64 \<Rightarrow> nat \<Rightarrow> history \<Rightarrow> bool" where
  "brought_up l target context_id i g \<longleftrightarrow> (\<exists>r vs t. ucast r = PSCI_SUCCESS \<and> of_nat i \<notin> set vs \<and>
     g = [Call ''psci_func'' [ucast SMC64_FID_CPU_ON, target, core_entry_head l, context_id] r] @
       map (Read (core_up_addr l (of_nat i))) vs @ [Read (core_up_addr l (of_nat i)) (of_nat i), Print t])"

lemma die_never_returns [simp]: "die fmt args h \<noteq> Returns r h'"
  by (auto simp: die_def andThen_Returns abort_dev_run)

lemma say_adds: "say fmt args h = Returns () h' \<Longrightarrow> \<exists>t. h' = h @ [Print t]"
  by (auto simp: say_def split: option.splits)

lemma psci_cpu_on_adds:
  "psci_cpu_on hw t e c h = Returns r h' \<longleftrightarrow>
    h' = h @ [Call ''psci_func'' [ucast SMC64_FID_CPU_ON, t, e, c] (call_value hw h ''psci_func'' [ucast SMC64_FID_CPU_ON, t, e, c])] \<and>
    r = ucast (call_value hw h ''psci_func'' [ucast SMC64_FID_CPU_ON, t, e, c])"
  by (auto simp: psci_cpu_on_def psci_func_def run)

lemma wait_core_up_adds:
  assumes "wait_core_up hw l i h = Returns () h'"
  shows "\<exists>vs. i \<notin> set vs \<and> h' = h @ map (Read (core_up_addr l i)) vs @ [Read (core_up_addr l i) i]"
proof -
  have "spin (rd32 hw (core_up_addr l i)) (\<lambda>v. v = i) h = Some h'"
    using assms by (auto simp: wait_core_up_def wait_for_def split: option.splits)
  from spin_history [OF this] show ?thesis by metis
qed

text \<open>The common end of both loop bodies.\<close>

lemma start_core_tail:
  assumes "andThen (psci_cpu_on hw target (core_entry_head l) context_id) (\<lambda>r.
      if r \<noteq> PSCI_SUCCESS then die fmt (args r)
      else seq [wait_core_up hw l (of_nat i), say fmt' args']) h = Returns () h'"
  shows "\<exists>g. brought_up l target context_id i g \<and> h' = h @ g"
proof -
  let ?r = "call_value hw h ''psci_func'' [ucast SMC64_FID_CPU_ON, target, core_entry_head l, context_id]"
  let ?h = "h @ [Call ''psci_func'' [ucast SMC64_FID_CPU_ON, target, core_entry_head l, context_id] ?r]"
  have ok: "ucast ?r = PSCI_SUCCESS"
    and up: "andThen (wait_core_up hw l (of_nat i)) (\<lambda>_. andThen (say fmt' args') (\<lambda>_. ret ())) ?h = Returns () h'"
    using assms by (auto simp: andThen_Returns psci_cpu_on_adds split: if_splits)
  then obtain h1 where h1: "wait_core_up hw l (of_nat i) ?h = Returns () h1" "say fmt' args' h1 = Returns () h'"
    by (auto simp: andThen_Returns)
  from wait_core_up_adds [OF h1(1)] say_adds [OF h1(2)] ok show ?thesis
    unfolding brought_up_def by fastforce
qed

definition mpidr_of :: "nat \<Rightarrow> uint64" where
  "mpidr_of i = of_nat (i mod 4) OR push_bit 8 (of_nat (i div 4))"

lemma hikey_start_core_adds:
  "hikey_start_core hw l i h = Returns () h' \<Longrightarrow>
    \<exists>g. brought_up l (mpidr_of i) (stack_addr l i) i g \<and> h' = h @ g"
  unfolding hikey_start_core_def Let_def mpidr_of_def by (rule start_core_tail)

lemma tx1_start_core_adds:
  assumes "tx1_start_core hw l i h = Returns () h'"
  shows "\<exists>g. (\<exists>g'. g = [Store (core_stacks l) (stack_addr l i), Asm ''dsb sy''] @ g' \<and>
      brought_up l (of_nat i) 0 i g') \<and> h' = h @ g"
proof -
  have "andThen (psci_cpu_on hw (of_nat i) (core_entry_head l) 0) (\<lambda>r.
       if r \<noteq> PSCI_SUCCESS
       then die ''Failed to bring up core %d with error %d'' [VInt (of_nat i) :: uint64 varg, VInt r]
       else seq [
         wait_core_up hw l (of_nat i),
         say (line ''Core %d is up with logic ID %d'') [VInt (of_nat i) :: uint64 varg, VInt (of_nat i)]])
      (h @ [Store (core_stacks l) (stack_addr l i), Asm ''dsb sy'']) = Returns () h'"
    using assms unfolding tx1_start_core_def seq.simps andThen_ret by (simp add: run)
  from start_core_tail [OF this] show ?thesis by auto
qed

lemma wait_core_up_now:
  "reg_value hw h (core_up_addr l i) = i \<Longrightarrow> wait_core_up hw l i h = Returns () (h @ [Read (core_up_addr l i) i])"
  by (simp add: wait_core_up_def wait_for_def spin_step)

section \<open>Properties of hikey and tx1\<close>

text \<open>C33: When \<^verbatim>\<open>init_cpus\<close> of hikey or tx1 returns, it has not been asked for more cores
  than there are, and it has made the following accesses only: for each core in turn, one accepted
  CPU_ON with the core's MPIDR, the common entry point and the core's own stack (in the argument on
  hikey, stored and synchronised before the call on tx1), polls until the core has published its own
  number, and a message; then the number 0 for the boot core. Asked for more, it aborts without
  starting any.\<close>

theorem cores_started_in_order:
  "(hikey_init_cpus nodes hw l h = Returns () h' \<longrightarrow> nodes \<le> 8 \<and>
     (\<exists>gs. h' = h @ concat (map gs [1..<nodes]) @ [Msr ''tpidr_el1'' 0] \<and>
       (\<forall>i. 1 \<le> i \<and> i < nodes \<longrightarrow> brought_up l (mpidr_of i) (stack_addr l i) i (gs i)))) \<and>
   (tx1_init_cpus nodes hw l h = Returns () h' \<longrightarrow> nodes \<le> 4 \<and>
     (\<exists>gs. h' = h @ concat (map gs [1..<nodes]) @ [Msr ''tpidr_el1'' 0] \<and>
       (\<forall>i. 1 \<le> i \<and> i < nodes \<longrightarrow> (\<exists>g. gs i = [Store (core_stacks l) (stack_addr l i), Asm ''dsb sy''] @ g \<and>
         brought_up l (of_nat i) 0 i g)))) \<and>
   (nodes > 8 \<longrightarrow> (\<exists>t. hikey_init_cpus nodes hw l h = Aborts (h @ [Print t, Print (line ''abort() called.'')]))) \<and>
   (nodes > 4 \<longrightarrow> (\<exists>t. tx1_init_cpus nodes hw l h = Aborts (h @ [Print t, Print (line ''abort() called.'')])))"
proof (intro conjI impI)
  assume r: "hikey_init_cpus nodes hw l h = Returns () h'"
  then have le: "nodes \<le> 8" by (auto simp: hikey_init_cpus_def andThen_Returns split: if_splits)
  then obtain h1 where h1: "for_each 1 nodes (hikey_start_core hw l) h = Returns () h1" "h' = h1 @ [Msr ''tpidr_el1'' 0]"
    using r by (auto simp: hikey_init_cpus_def andThen_Returns write_sys_run)
  from for_each_pieces [OF hikey_start_core_adds h1(1)] h1(2) le
  show "nodes \<le> 8" "\<exists>gs. h' = h @ concat (map gs [1..<nodes]) @ [Msr ''tpidr_el1'' 0] \<and>
       (\<forall>i. 1 \<le> i \<and> i < nodes \<longrightarrow> brought_up l (mpidr_of i) (stack_addr l i) i (gs i))" by auto
next
  assume r: "tx1_init_cpus nodes hw l h = Returns () h'"
  then have le: "nodes \<le> 4" by (auto simp: tx1_init_cpus_def andThen_Returns split: if_splits)
  then obtain h1 where h1: "for_each 1 nodes (tx1_start_core hw l) h = Returns () h1" "h' = h1 @ [Msr ''tpidr_el1'' 0]"
    using r by (auto simp: tx1_init_cpus_def andThen_Returns write_sys_run)
  from for_each_pieces [OF tx1_start_core_adds h1(1)] h1(2) le
  show "nodes \<le> 4" "\<exists>gs. h' = h @ concat (map gs [1..<nodes]) @ [Msr ''tpidr_el1'' 0] \<and>
       (\<forall>i. 1 \<le> i \<and> i < nodes \<longrightarrow> (\<exists>g. gs i = [Store (core_stacks l) (stack_addr l i), Asm ''dsb sy''] @ g \<and>
         brought_up l (of_nat i) 0 i g))" by auto
next
  have max: "\<exists>t. formatted (line ''CONFIG_MAX_NUM_NODES %d is greater than max number cores %d, will abort'')
      [VInt (of_nat nodes) :: uint64 varg, VInt m] = Some t" for m
    by (simp add: formatted_def read_format.simps conv_of_def line_def)
  show "\<exists>t. hikey_init_cpus nodes hw l h = Aborts (h @ [Print t, Print (line ''abort() called.'')])" if "nodes > 8"
    using that max [of 8] by (auto simp: hikey_init_cpus_def die_def run say_run kernel_word_def)
  show "\<exists>t. tx1_init_cpus nodes hw l h = Aborts (h @ [Print t, Print (line ''abort() called.'')])" if "nodes > 4"
    using that max [of 4] by (auto simp: tx1_init_cpus_def die_def run say_run kernel_word_def)
qed

text \<open>Firmware that accepts every call, and cores that are up at once.\<close>

definition prompt_cores :: hardware where
  "prompt_cores = \<lparr>reg_value = (\<lambda>h a. ucast ((a - 0x20000) div 4)), cp_value = (\<lambda>h r. 0),
     sys_value = (\<lambda>h r. 0), call_value = (\<lambda>h f args. 0)\<rparr>"

theorem cores_started_in_order_witness:
  "\<exists>gs h'. tx1_init_cpus 3 prompt_cores sample_smp [] = Returns () h' \<and>
    h' = concat (map gs [1..<3]) @ [Msr ''tpidr_el1'' 0] \<and>
    (\<exists>g. gs 2 = [Store 0x10000 0x12000, Asm ''dsb sy''] @ g \<and> brought_up sample_smp 2 0 2 g)"
proof -
  have msg: "\<exists>t. formatted (line ''Core %d is up with logic ID %d'') [VInt i :: uint64 varg, VInt i] = Some t" for i
    by (simp add: formatted_def read_format.simps conv_of_def line_def)
  have core: "\<exists>h'. tx1_start_core prompt_cores sample_smp i h = Returns () h'" if "i = 1 \<or> i = 2" for i h
    using that msg [of "of_nat i"]
    by (auto simp: tx1_start_core_def psci_cpu_on_def psci_func_def run prompt_cores_def PSCI_SUCCESS_def
        wait_core_up_now core_up_addr_def sample_smp_def say_run kernel_word_def)
  have "\<exists>h'. for_each 1 3 (tx1_start_core prompt_cores sample_smp) [] = Returns () h' \<and> True"
    by (rule for_each_invariant [where I = "\<lambda>_ _. True"]) (use core in \<open>auto simp: less_Suc_eq numeral_eq_Suc\<close>)
  then obtain h' where "tx1_init_cpus 3 prompt_cores sample_smp [] = Returns () h'"
    by (auto simp: tx1_init_cpus_def run)
  then obtain gs where run: "tx1_init_cpus 3 prompt_cores sample_smp [] = Returns () h'"
      "h' = concat (map gs [1..<3]) @ [Msr ''tpidr_el1'' 0]"
    and core: "\<forall>i. 1 \<le> i \<and> i < 3 \<longrightarrow> (\<exists>g. gs i = [Store (core_stacks sample_smp) (stack_addr sample_smp i), Asm ''dsb sy''] @ g \<and>
      brought_up sample_smp (of_nat i) 0 i g)"
    using cores_started_in_order [of 3 prompt_cores sample_smp "[]" h'] by auto
  have "core_stacks sample_smp = 0x10000" "stack_addr sample_smp 2 = 0x12000"
    by (simp_all add: sample_smp_def stack_addr_def STACK_SIZE_def)
  with core [rule_format, of 2] run show ?thesis by (intro exI [of _ gs] exI [of _ h']) simp
qed

end
