(* ===== verification/Registers.thy ===== *)
theory Registers
  imports Smp_Init
begin

text \<open>
  Devices whose registers keep what is written to them. Under this assumption about the hardware
  the effect of start-up code is the register contents it leaves.
\<close>

section \<open>Register contents\<close>

definition reg_after :: "(uint64 \<Rightarrow> uint32) \<Rightarrow> history \<Rightarrow> uint64 \<Rightarrow> uint32" where
  "reg_after init h = foldl (\<lambda>m (a, v). m(a := v)) init (writes h)"

definition register_file :: "hardware \<Rightarrow> (uint64 \<Rightarrow> uint32) \<Rightarrow> bool" where
  "register_file hw init \<longleftrightarrow> (\<forall>h a. reg_value hw h a = reg_after init h a)"

lemma reg_after_append: "reg_after init (h @ g) = foldl (\<lambda>m (a, v). m(a := v)) (reg_after init h) (writes g)"
  by (simp add: reg_after_def)

lemma register_file_value: "register_file hw init \<Longrightarrow> reg_value hw h a = reg_after init h a"
  by (simp add: register_file_def)

section \<open>i.MX6\<close>

definition SRC_SCR_reg :: uint64 where "SRC_SCR_reg = 0x020D8000"
definition SRC_GPR1_reg :: "nat \<Rightarrow> uint64" where "SRC_GPR1_reg i = 0x020D8020 + of_nat i * 8"

text \<open>The SCU enable touches the SCU only.\<close>

lemma scu_enable_returns:
  "\<exists>g. scu_enable errata hw scu h = Returns () (h @ g) \<and>
    (\<forall>(a, v) \<in> set (writes g). a = ucast scu \<or> a = ucast (scu + 0x30))"
  unfolding scu_enable_def read_cpuid_id32_def SCU_CTRL_def
  by (simp add: run Let_def)

lemma foldl_other: "\<forall>(a, v) \<in> set ws. a \<noteq> b \<Longrightarrow> foldl (\<lambda>m (a, v). m(a := v)) m ws b = m b"
  by (induction ws arbitrary: m) auto

text \<open>One round of the loop, with the cores below \<open>i\<close> already released.\<close>

definition imx6_started :: "(uint64 \<Rightarrow> uint32) \<Rightarrow> (uint64 \<Rightarrow> uint32) \<Rightarrow> uint32 \<Rightarrow> nat \<Rightarrow> bool" where
  "imx6_started m0 m entry i \<longleftrightarrow>
     m SRC_SCR_reg = m0 SRC_SCR_reg OR push_bit 22 (mask (i - 1)) \<and>
     (\<forall>j. 1 \<le> j \<and> j < i \<longrightarrow> m (SRC_GPR1_reg j) = entry) \<and>
     (\<forall>a. a \<noteq> SRC_SCR_reg \<and> (\<forall>j. 1 \<le> j \<and> j < i \<longrightarrow> a \<noteq> SRC_GPR1_reg j) \<longrightarrow> m a = m0 a)"

lemma mask_next: "1 \<le> i \<Longrightarrow> push_bit 22 (mask (i - 1)) OR push_bit (22 + i - 1) 1 = (push_bit 22 (mask i) :: uint32)"
  by (rule bit_word_eqI) (auto simp: bit_simps)

lemma imx6_registers_distinct:
  assumes "i < 4"
  shows "SRC_GPR1_reg i \<noteq> SRC_SCR_reg" and "j < i \<Longrightarrow> SRC_GPR1_reg j \<noteq> SRC_GPR1_reg i"
proof -
  have cases: "i = 0 \<or> i = 1 \<or> i = 2 \<or> i = 3" using assms by auto
  then show "SRC_GPR1_reg i \<noteq> SRC_SCR_reg" by (auto simp: SRC_GPR1_reg_def SRC_SCR_reg_def)
  assume "j < i"
  then have "j = 0 \<or> j = 1 \<or> j = 2" using assms by auto
  with cases \<open>j < i\<close> show "SRC_GPR1_reg j \<noteq> SRC_GPR1_reg i" by (auto simp: SRC_GPR1_reg_def)
qed

lemma imx6_round:
  assumes regs: "register_file hw init" and i: "1 \<le> i" "i < 4"
    and started: "imx6_started m0 (reg_after init h) (imx_non_boot l) i"
  shows "\<exists>h'. seq [imx6_src_set_cpu_jump i (imx_non_boot l), imx6_src_enable_cpu hw i] h = Returns () h' \<and>
    imx6_started m0 (reg_after init h') (imx_non_boot l) (Suc i)"
proof -
  let ?v = "reg_after init h SRC_SCR_reg OR push_bit (22 + i - 1) 1"
  let ?m = "(reg_after init h)(SRC_GPR1_reg i := imx_non_boot l, SRC_SCR_reg := ?v)"
  have addr: "0x020D8000 + (0x020 + of_nat i * 8) = SRC_GPR1_reg i" "(0x020D8000 :: uint64) + 0x000 = SRC_SCR_reg"
    by (simp_all add: SRC_GPR1_reg_def SRC_SCR_reg_def)
  have ne: "SRC_GPR1_reg i \<noteq> SRC_SCR_reg" by (rule imx6_registers_distinct [OF i(2)])
  obtain h' where h': "seq [imx6_src_set_cpu_jump i (imx_non_boot l), imx6_src_enable_cpu hw i] h = Returns () h'"
      "reg_after init h' = ?m"
    unfolding imx6_src_set_cpu_jump_def imx6_src_enable_cpu_def addr
    using ne by (simp add: run register_file_value [OF regs] reg_after_append)
  have "?m SRC_SCR_reg = m0 SRC_SCR_reg OR push_bit 22 (mask i)"
    using started mask_next [OF i(1)] by (simp add: imx6_started_def or.assoc)
  moreover have "?m (SRC_GPR1_reg j) = imx_non_boot l" if "1 \<le> j" "j < Suc i" for j
    using that started imx6_registers_distinct(1) [of j] i(2) imx6_registers_distinct(2) [OF i(2), of j]
    by (auto simp: imx6_started_def less_Suc_eq)
  moreover have "?m a = m0 a" if "a \<noteq> SRC_SCR_reg" "\<forall>j. 1 \<le> j \<and> j < Suc i \<longrightarrow> a \<noteq> SRC_GPR1_reg j" for a
    using that started i(1) by (simp add: imx6_started_def less_Suc_eq)
  ultimately show ?thesis using h' by (intro exI [of _ h']) (simp add: imx6_started_def)
qed

lemma imx6_loop:
  assumes "register_file hw init" and "1 \<le> n" "n \<le> 4"
  shows "\<exists>h'. for_each 1 n (\<lambda>i. seq [imx6_src_set_cpu_jump i (imx_non_boot l), imx6_src_enable_cpu hw i]) h = Returns () h' \<and>
    imx6_started (reg_after init h) (reg_after init h') (imx_non_boot l) n"
proof (rule for_each_invariant [where I = "\<lambda>i h'. imx6_started (reg_after init h) (reg_after init h') (imx_non_boot l) i"])
  show "imx6_started (reg_after init h) (reg_after init h) (imx_non_boot l) 1" by (simp add: imx6_started_def)
  fix i h' assume "1 \<le> i" "i < n" "imx6_started (reg_after init h) (reg_after init h') (imx_non_boot l) i"
  with assms(3) show "\<exists>h''. seq [imx6_src_set_cpu_jump i (imx_non_boot l), imx6_src_enable_cpu hw i] h' = Returns () h'' \<and>
      imx6_started (reg_after init h) (reg_after init h'') (imx_non_boot l) (Suc i)"
    by (intro imx6_round [OF assms(1)]) simp_all
qed (rule assms(2))

lemma checked_count_cases:
  "num < nodes \<Longrightarrow> \<exists>t. checked_count num nodes h = Aborts (h @ [Print t, Print (line ''abort() called.'')])"
  "nodes \<le> num \<Longrightarrow> checked_count num nodes h = Returns nodes h"
proof -
  have "\<exists>t. formatted (line ''Error: Unsupported number of CPUs! This platform has %u CPUs, while static configuration provided is %u CPUs'')
      [VInt num :: uint32 varg, VInt nodes] = Some t"
    by (simp add: formatted_def read_format.simps conv_of_def line_def)
  then show "num < nodes \<Longrightarrow> \<exists>t. checked_count num nodes h = Aborts (h @ [Print t, Print (line ''abort() called.'')])"
    by (auto simp: checked_count_def die_def run say_run kernel_word_def)
  show "nodes \<le> num \<Longrightarrow> checked_count num nodes h = Returns nodes h"
    by (auto simp: checked_count_def run)
qed

lemma say_bringing_up_adds: "\<exists>t. say_bringing_up num h = Returns () (h @ [Print t])"
proof -
  have "\<exists>t. formatted (line ''Bringing up %d other cpus'') [VInt (num - 1) :: uint32 varg] = Some t"
    by (simp add: formatted_def read_format.simps conv_of_def line_def)
  then show ?thesis by (auto simp: say_bringing_up_def say_run kernel_word_def)
qed

definition IMX6_SCU_PADDR :: uint32 where "IMX6_SCU_PADDR = 0x00a00000"

text \<open>The number of cores the SCU reports.\<close>

definition imx6_cores :: "(uint64 \<Rightarrow> uint32) \<Rightarrow> nat" where
  "imx6_cores m = unat (m 0x00a00004 AND 3) + 1"

text \<open>What \<^verbatim>\<open>init_cpus\<close> has done when it compares the number of cores.\<close>

lemma imx6_before_the_cores:
  assumes regs: "register_file hw init" and scu: "cp_value hw h (4, 15, 0, 0) = IMX6_SCU_PADDR"
    and m: "m = reg_after init h"
  obtains num h3 where "imx6_init_cpus errata nodes hw l h =
      andThen (checked_count num nodes) (\<lambda>num. seq [say_bringing_up num,
        for_each 1 (unat num) (\<lambda>i. seq [imx6_src_set_cpu_jump i (imx_non_boot l), imx6_src_enable_cpu hw i])]) h3"
    and "unat num = imx6_cores m" and "imx6_cores m \<le> 4"
    and "reg_after init h3 SRC_SCR_reg = m SRC_SCR_reg AND NOT 1"
    and "\<And>a. a \<notin> {SRC_SCR_reg, 0x00a00000, 0x00a00030} \<Longrightarrow> reg_after init h3 a = m a"
proof -
  let ?h1 = "h @ [Mrc (4, 15, 0, 0) IMX6_SCU_PADDR]"
  obtain g where g: "scu_enable errata hw IMX6_SCU_PADDR ?h1 = Returns () (?h1 @ g)"
    "\<forall>(a, v) \<in> set (writes g). a = ucast IMX6_SCU_PADDR \<or> a = ucast (IMX6_SCU_PADDR + 0x30)"
    using scu_enable_returns by blast
  have other: "reg_after init (?h1 @ g) a = m a" if "a \<notin> {0x00a00000, 0x00a00030}" for a
  proof -
    have "\<forall>(b, v) \<in> set (writes g). b \<noteq> a" using g(2) that by (auto simp: IMX6_SCU_PADDR_def)
    then show ?thesis by (simp add: reg_after_append m foldl_other)
  qed
  obtain h2 where h2: "imx6_src_init hw (?h1 @ g) = Returns () h2"
    "reg_after init h2 = (reg_after init (?h1 @ g))(SRC_SCR_reg := m SRC_SCR_reg AND NOT 1)"
    using other [of SRC_SCR_reg]
    by (auto simp: imx6_src_init_def run register_file_value [OF regs] reg_after_append SRC_SCR_reg_def)
  let ?num = "(m 0x00a00004 AND 3) + 1"
  obtain h3 where h3: "scu_get_core_count hw IMX6_SCU_PADDR h2 = Returns ?num h3" "reg_after init h3 = reg_after init h2"
    using other [of "0x00a00004"]
    by (auto simp: scu_get_core_count_def run register_file_value [OF regs] reg_after_append h2(2)
        SRC_SCR_reg_def IMX6_SCU_PADDR_def SCU_CONFIG_def)
  have three: "unat (m 0x00a00004 AND 3) \<le> 3"
    using word_and_le1 [of "m 0x00a00004" 3] by (simp add: word_le_nat_alt)
  then have "unat (m 0x00a00004 AND 3) + unat (1 :: uint32) < 2 ^ LENGTH(32)" by simp
  then have "unat ?num = unat (m 0x00a00004 AND 3) + unat (1 :: uint32)" by (rule unat_add_lem [THEN iffD1])
  with three have few: "unat ?num = imx6_cores m" "imx6_cores m \<le> 4" by (simp_all add: imx6_cores_def)
  have base: "get_scu_base hw h = Returns IMX6_SCU_PADDR ?h1" by (simp add: get_scu_base_def read_cp_run scu)
  have start: "imx6_init_cpus errata nodes hw l h =
    andThen (checked_count ?num nodes) (\<lambda>num. seq [say_bringing_up num,
      for_each 1 (unat num) (\<lambda>i. seq [imx6_src_set_cpu_jump i (imx_non_boot l), imx6_src_enable_cpu hw i])]) h3"
    unfolding imx6_init_cpus_def seq.simps andThen_ret 
      andThen_step [where p = "get_scu_base hw", OF base]
      andThen_step [where p = "scu_enable errata hw IMX6_SCU_PADDR", OF g(1)]
      andThen_step [where p = "imx6_src_init hw", OF h2(1)]
      andThen_step [where p = "scu_get_core_count hw IMX6_SCU_PADDR", OF h3(1)] ..
  show thesis
    using that [OF start few] other by (simp add: h3(2) h2(2))
qed

text \<open>C34: On an i.MX6 whose registers keep what is written, \<^verbatim>\<open>init_cpus\<close> for \<open>nodes\<close> cores
  leaves the reset controller with warm reset off and the release bits of exactly the cores 1 to
  \<open>nodes - 1\<close> added, each of these cores with the entry stub as its start address, and every other
  register but those of the SCU as it was. If the chip has fewer cores than configured it aborts and
  has released none.\<close>

theorem imx6_releases_the_cores:
  assumes regs: "register_file hw init" and scu: "cp_value hw h (4, 15, 0, 0) = IMX6_SCU_PADDR"
    and nodes: "1 \<le> nodes" "nodes < 2 ^ 32" and m: "m = reg_after init h"
  shows "if imx6_cores m < nodes
    then \<exists>h'. imx6_init_cpus errata (of_nat nodes) hw l h = Aborts h' \<and>
      reg_after init h' SRC_SCR_reg = m SRC_SCR_reg AND NOT 1
    else \<exists>h'. imx6_init_cpus errata (of_nat nodes) hw l h = Returns () h' \<and>
      reg_after init h' SRC_SCR_reg = (m SRC_SCR_reg AND NOT 1) OR push_bit 22 (mask (nodes - 1)) \<and>
      (\<forall>i. 1 \<le> i \<and> i < nodes \<longrightarrow> reg_after init h' (SRC_GPR1_reg i) = imx_non_boot l) \<and>
      (\<forall>a. a \<notin> {SRC_SCR_reg, 0x00a00000, 0x00a00030} \<union> SRC_GPR1_reg ` {1..<nodes} \<longrightarrow> reg_after init h' a = m a)"
proof -
  obtain num h3 where start: "imx6_init_cpus errata (of_nat nodes) hw l h =
      andThen (checked_count num (of_nat nodes)) (\<lambda>num. seq [say_bringing_up num,
        for_each 1 (unat num) (\<lambda>i. seq [imx6_src_set_cpu_jump i (imx_non_boot l), imx6_src_enable_cpu hw i])]) h3"
    and few: "unat num = imx6_cores m" "imx6_cores m \<le> 4"
    and off: "reg_after init h3 SRC_SCR_reg = m SRC_SCR_reg AND NOT 1"
    and other: "\<And>a. a \<notin> {SRC_SCR_reg, 0x00a00000, 0x00a00030} \<Longrightarrow> reg_after init h3 a = m a"
    using imx6_before_the_cores [OF regs scu m, where errata = errata and nodes = "of_nat nodes" and l = l] by blast
  have un: "unat (of_nat nodes :: uint32) = nodes" using nodes(2) by (intro unat_of_nat_less) simp
  show ?thesis
  proof (cases "imx6_cores m < nodes")
    case True
    then have "num < of_nat nodes" using few(1) un by (simp add: word_less_nat_alt)
    from checked_count_cases(1) [OF this, of h3] obtain t where
      "checked_count num (of_nat nodes) h3 = Aborts (h3 @ [Print t, Print (line ''abort() called.'')])" by blast
    then show ?thesis using True by (simp add: start run reg_after_append off)
  next
    case False
    then have "of_nat nodes \<le> num" using few(1) un by (simp add: word_le_nat_alt)
    note ok = checked_count_cases(2) [OF this, of h3]
    obtain t where t: "say_bringing_up (of_nat nodes) h3 = Returns () (h3 @ [Print t])"
      using say_bringing_up_adds by blast
    have n: "nodes \<le> 4" using False few(2) by simp
    obtain h4 where h4: "for_each 1 nodes (\<lambda>i. seq [imx6_src_set_cpu_jump i (imx_non_boot l), imx6_src_enable_cpu hw i])
          (h3 @ [Print t]) = Returns () h4"
        "imx6_started (reg_after init (h3 @ [Print t])) (reg_after init h4) (imx_non_boot l) nodes"
      using imx6_loop [OF regs nodes(1) n] by blast
    have "imx6_init_cpus errata (of_nat nodes) hw l h = Returns () h4"
      using h4(1) by (simp add: start andThen_run ok t un ret_run)
    moreover have "imx6_started (reg_after init h3) (reg_after init h4) (imx_non_boot l) nodes"
      using h4(2) by (simp add: reg_after_append)
    ultimately show ?thesis using False other off
      by (auto simp: imx6_started_def)
  qed
qed

definition sample_imx6 :: hardware where
  "sample_imx6 = \<lparr>reg_value = reg_after ((\<lambda>_. 0)(0x00a00004 := 3, 0x020D8000 := 0x521)),
     cp_value = (\<lambda>h r. IMX6_SCU_PADDR), sys_value = (\<lambda>h r. 0), call_value = (\<lambda>h f args. 0)\<rparr>"

theorem imx6_releases_the_cores_witness:
  "\<exists>h'. imx6_init_cpus False 2 sample_imx6 sample_smp [] = Returns () h' \<and>
    reg_after ((\<lambda>_. 0)(0x00a00004 := 3, 0x020D8000 := 0x521)) h' 0x020D8000 = 0x400520 \<and>
    reg_after ((\<lambda>_. 0)(0x00a00004 := 3, 0x020D8000 := 0x521)) h' 0x020D8028 = 0x30100"
proof -
  let ?init = "(\<lambda>_. 0)(0x00a00004 := 3, 0x020D8000 := 0x521) :: uint64 \<Rightarrow> uint32"
  have regs: "register_file sample_imx6 ?init" by (simp add: register_file_def sample_imx6_def)
  have scu: "cp_value sample_imx6 [] (4, 15, 0, 0) = IMX6_SCU_PADDR" by (simp add: sample_imx6_def)
  have "\<not> imx6_cores ?init < 2" by (simp add: imx6_cores_def)
  then obtain h' where h': "imx6_init_cpus False (of_nat 2) sample_imx6 sample_smp [] = Returns () h'"
    "reg_after ?init h' SRC_SCR_reg = (?init SRC_SCR_reg AND NOT 1) OR push_bit 22 (mask (2 - 1))"
    "\<forall>i. 1 \<le> i \<and> i < 2 \<longrightarrow> reg_after ?init h' (SRC_GPR1_reg i) = imx_non_boot sample_smp"
    using imx6_releases_the_cores [OF regs scu, of 2 ?init False sample_smp] by (auto simp: reg_after_def)
  have "reg_after ?init h' (SRC_GPR1_reg 1) = imx_non_boot sample_smp" using h'(3) by simp
  then show ?thesis using h'(1,2)
    by (intro exI [of _ h']) (simp add: SRC_SCR_reg_def SRC_GPR1_reg_def sample_smp_def mask_eq_decr_exp)
qed

end
