(* ===== verification/Platforms.thy ===== *)
theory Platforms
  imports Registers
begin

text \<open>
  \<^verbatim>\<open>platform_init\<close> of the platforms that have something to do, src/plat/*/platform_init.c.
  Stack switching and cache maintenance are assembly and appear as instructions and calls. An
  endless loop (\<^verbatim>\<open>arm_halt\<close>, the shutdown of exynos5) is observed for a number of rounds,
  a parameter.
\<close>

text \<open>The mode the image is built for.\<close>

record arm_config =
  monitor_hook :: bool
  ns_supervisor_mode :: bool
  hypervisor_mode :: bool
  monitor_mode :: bool

text \<open>\<^verbatim>\<open>for (i = 0; i < n; i += s) body(i)\<close>\<close>

definition for_steps :: "nat \<Rightarrow> nat \<Rightarrow> (nat \<Rightarrow> unit code) \<Rightarrow> unit code" where
  "for_steps s n body = for_each 0 ((n + s - 1) div s) (\<lambda>k. body (k * s))"

definition arm_halt :: "nat \<Rightarrow> 'r code" where
  "arm_halt rounds = forever rounds (instr ''wfe'')"

definition SCR :: cpreg where "SCR = (0, 1, 1, 0)"
definition NSACR :: cpreg where "NSACR = (0, 1, 1, 2)"
text \<open>In the non-secure world the secure configuration register cannot be read and NSACR cannot be
  written: the instruction is an exception, and nothing is said about what follows. \<open>nonsecure\<close> is the world
  the loader has been started in.\<close>

definition read_SCR :: "hardware \<Rightarrow> bool \<Rightarrow> uint32 code" where
  "read_SCR hw nonsecure = (if nonsecure then (\<lambda>h. Undefined) else read_cp hw SCR)"

definition write_NSACR :: "bool \<Rightarrow> uint32 \<Rightarrow> unit code" where
  "write_NSACR nonsecure v = (if nonsecure then (\<lambda>h. Undefined) else write_cp NSACR v)"

abbreviation (input) SCR_NS :: nat where "SCR_NS \<equiv> 0"
abbreviation (input) SCR_SCD :: nat where "SCR_SCD \<equiv> 7"
abbreviation (input) SCR_HCE :: nat where "SCR_HCE \<equiv> 8"
abbreviation (input) SCR_SIF :: nat where "SCR_SIF \<equiv> 9"

section \<open>Interrupt controller: the same code in tk1 and imx6\<close>

text \<open>\<^verbatim>\<open>struct gicd_map\<close> and \<^verbatim>\<open>struct gicc_map\<close>: offsets of the members in use. The
  array \<^verbatim>\<open>priority\<close> has 255 elements; a store past its end is undefined.\<close>

definition gicd_enable :: uint64 where "gicd_enable = 0"
definition gicd_ic_type :: uint64 where "gicd_ic_type = 4"
definition gicd_security :: "nat \<Rightarrow> uint64" where "gicd_security i = 128 + of_nat (4 * i)"
definition gicd_priority :: "nat \<Rightarrow> uint64" where "gicd_priority i = 1024 + of_nat (4 * i)"
definition gicc_ctrl :: uint64 where "gicc_ctrl = 0"
definition gicc_pri_mask :: uint64 where "gicc_pri_mask = 4"

definition store_within :: "nat \<Rightarrow> nat \<Rightarrow> uint64 \<Rightarrow> uint32 \<Rightarrow> unit code" where
  "store_within len i a v = (if i < len then write32 a v else (\<lambda>h. Undefined))"

definition route_irqs_to_nonsecure :: "hardware \<Rightarrow> uint64 \<Rightarrow> uint64 \<Rightarrow> unit code" where
  "route_irqs_to_nonsecure hw gicd gicc = andThen (read32 hw (gicd + gicd_ic_type)) (\<lambda>ic_type.
     let nirqs = 32 * (unat (ic_type AND 0x1f) + 1)
     in seq [
       say (line ''Number of IRQs: %d'') [VInt (of_nat nirqs) :: uint32 varg],
       write32 (gicd + gicd_enable) 0,
       for_steps 32 nirqs (\<lambda>i. store_within 32 (i div 32) (gicd + gicd_security (i div 32)) 0xffffffff),
       for_steps 4 nirqs (\<lambda>i. store_within 255 (i div 4) (gicd + gicd_priority (i div 4)) 0x80808080),
       write32 (gicc + gicc_ctrl) 0,
       write32 (gicc + gicc_pri_mask) 0xff])"

section \<open>src/plat/tk1/platform_init.c\<close>

definition TK1_GICD_PADDR :: uint64 where "TK1_GICD_PADDR = 0x50041000"
definition TK1_GICC_PADDR :: uint64 where "TK1_GICC_PADDR = 0x50042000"
definition MON_PA_START :: uint32 where "MON_PA_START = 0x80000000 + 0x27f00000"

text \<open>The static \<^verbatim>\<open>mon_init_done\<close> is an argument and the result.\<close>

definition tk1_switch_to_mon_mode :: "nat \<Rightarrow> hardware \<Rightarrow> bool \<Rightarrow> bool \<Rightarrow> bool code" where
  "tk1_switch_to_mon_mode rounds hw nonsecure mon_init_done =
     (if mon_init_done then ret True else
      andThen (read_SCR hw nonsecure) (\<lambda>scr.
        if scr AND BIT SCR_NS \<noteq> 0
        then andThen (say_line ''In nonsecure world, you should never see this!'') (\<lambda>_. arm_halt rounds)
        else andThen (seq [
          write_cp SCR (BIT SCR_HCE),
          andThen (read_sys hw ''sp'') (\<lambda>sp. andThen (read_sys hw ''lr'') (\<lambda>lr. seq [
            instr ''cps #0x16'',
            instr ''isb'',
            write_sys ''sp'' sp,
            write_sys ''lr'' lr])),
          say_line ''ELF loader: monitor mode init done'']) (\<lambda>_. ret True)))"

definition tk1_install_monitor_hook :: "nat \<Rightarrow> hardware \<Rightarrow> bool \<Rightarrow> uint32 \<Rightarrow> uint32 \<Rightarrow> bool \<Rightarrow> bool code" where
  "tk1_install_monitor_hook rounds hw nonsecure vector vector_end mon_init_done = (let size = vector_end - vector in
     andThen (tk1_switch_to_mon_mode rounds hw nonsecure mon_init_done) (\<lambda>mon_init_done.
     andThen (seq [
       say (line ''Copy monitor mode vector from %x to %x size %x'')
         [VInt vector :: uint32 varg, VInt MON_PA_START, VInt size],
       invoke hw ''memcpy'' [ucast MON_PA_START, ucast vector, ucast size],
       write_cp (0, 12, 0, 1) MON_PA_START]) (\<lambda>_. ret mon_init_done)))"

definition switch_to_hyp_mode :: "hardware \<Rightarrow> unit code" where
  "switch_to_hyp_mode hw =
     andThen (read_sys hw ''sp'') (\<lambda>sp. andThen (read_sys hw ''fp'') (\<lambda>fp. seq [
       invoke hw ''flush_dcache'' [],
       invoke hw ''invalidate_icache'' [],
       andThen (read_cp hw SCR) (\<lambda>scr.
         let scr = scr OR BIT SCR_HCE;
             scr = scr AND NOT (BIT SCR_SCD);
             scr = scr OR BIT SCR_NS;
             scr = scr AND NOT (BIT SCR_SIF)
         in write_cp SCR scr),
       instr ''cps #0x1a'',
       instr ''isb'',
       write_sys ''sp'' sp,
       write_sys ''fp'' fp,
       andThen (read_sys hw ''cpsr'') (\<lambda>cpsr.
         say ''Load seL4 in nonsecure HYP mode %x'' [VInt (ucast cpsr) :: uint32 varg])]))"

definition switch_to_ns_svc_mode :: "hardware \<Rightarrow> unit code" where
  "switch_to_ns_svc_mode hw = seq [
     instr ''cps #0x13'',
     instr ''isb'',
     instr ''mov r0, sp'',
     andThen (read_cp hw SCR) (\<lambda>scr. write_cp SCR (scr OR BIT SCR_NS)),
     instr ''mov sp, r0'',
     say_line ''Load seL4 in nonsecure SVC mode'']"

definition tk1_enable_ns_access_cp :: "hardware \<Rightarrow> bool \<Rightarrow> unit code" where
  "tk1_enable_ns_access_cp hw nonsecure = seq [
     andThen (read_cp hw NSACR) (\<lambda>nsacr. write_NSACR nonsecure (nsacr OR (BIT 10 OR BIT 11))),
     instr ''isb'']"

definition tk1_platform_init :: "nat \<Rightarrow> arm_config \<Rightarrow> hardware \<Rightarrow> bool \<Rightarrow> uint32 \<Rightarrow> uint32 \<Rightarrow> unit code" where
  "tk1_platform_init rounds cfg hw nonsecure vector vector_end =
     andThen (if monitor_hook cfg then tk1_install_monitor_hook rounds hw nonsecure vector vector_end False else ret False) (\<lambda>done.
     andThen (tk1_enable_ns_access_cp hw nonsecure) (\<lambda>_.
     andThen (if ns_supervisor_mode cfg
       then andThen (tk1_switch_to_mon_mode rounds hw nonsecure done) (\<lambda>done.
         andThen (seq [route_irqs_to_nonsecure hw TK1_GICD_PADDR TK1_GICC_PADDR, switch_to_ns_svc_mode hw]) (\<lambda>_. ret done))
       else ret done) (\<lambda>done.
     andThen (if hypervisor_mode cfg
       then andThen (tk1_switch_to_mon_mode rounds hw nonsecure done) (\<lambda>done.
         andThen (seq [route_irqs_to_nonsecure hw TK1_GICD_PADDR TK1_GICC_PADDR, switch_to_hyp_mode hw]) (\<lambda>_. ret done))
       else ret done) (\<lambda>done.
     if monitor_mode cfg then andThen (tk1_switch_to_mon_mode rounds hw nonsecure done) (\<lambda>_. ret ()) else ret ()))))"

section \<open>src/plat/imx6/platform_init.c\<close>

text \<open>The monitor hook of this platform is behind a \<^verbatim>\<open>#error\<close> and does not compile.\<close>

definition IMX6_SCU_SACR_PADDR :: uint64 where "IMX6_SCU_SACR_PADDR = 0x00a00000 + 0x50"
definition IMX6_SCU_NSACR_PADDR :: uint64 where "IMX6_SCU_NSACR_PADDR = 0x00a00000 + 0x54"
definition IMX6_CSU_PADDR :: uint64 where "IMX6_CSU_PADDR = 0x021c0000"
definition IMX6_CSU_SIZE :: nat where "IMX6_CSU_SIZE = 160"
definition IMX6_GICD_PADDR :: uint64 where "IMX6_GICD_PADDR = 0x00a01000"
definition IMX6_GICC_PADDR :: uint64 where "IMX6_GICC_PADDR = 0x00a00100"

definition check_mode :: "hardware \<Rightarrow> unit code" where
  "check_mode hw = andThen (read_sys hw ''cpsr'') (\<lambda>cpsr.
     say (line ''CPSR is %x'') [VInt (ucast cpsr) :: uint32 varg])"

definition imx6_arm_halt :: "nat \<Rightarrow> 'r code" where
  "imx6_arm_halt rounds = forever rounds (instr ''wfe'')"

definition imx6_route_irqs_to_nonsecure :: "hardware \<Rightarrow> unit code" where
  "imx6_route_irqs_to_nonsecure hw = route_irqs_to_nonsecure hw IMX6_GICD_PADDR IMX6_GICC_PADDR"

definition imx6_switch_to_mon_mode :: "nat \<Rightarrow> hardware \<Rightarrow> bool \<Rightarrow> bool \<Rightarrow> bool code" where
  "imx6_switch_to_mon_mode rounds hw nonsecure mon_init_done =
     (if mon_init_done then ret True else
      andThen (read_SCR hw nonsecure) (\<lambda>scr.
        if scr AND BIT SCR_NS \<noteq> 0
        then andThen (say_line ''In nonsecure world, you should never see this!'') (\<lambda>_. imx6_arm_halt rounds)
        else andThen (seq [
          check_mode hw,
          instr ''mov r8, sp'',
          instr ''cps #0x16'',
          instr ''isb'',
          instr ''mov sp, r8'',
          check_mode hw,
          say_line ''ELF loader: monitor mode init done'']) (\<lambda>_. ret True)))"

definition imx6_enable_ns_access_cp :: "hardware \<Rightarrow> unit code" where
  "imx6_enable_ns_access_cp hw = andThen (read_cp hw NSACR) (\<lambda>nsacr.
     write_cp NSACR (nsacr OR (BIT 10 OR BIT 11 OR BIT 17 OR BIT 16)))"

definition set_csu :: "unit code" where
  "set_csu = for_each 0 (IMX6_CSU_SIZE div 4) (\<lambda>size. seq [
     write32 (IMX6_CSU_PADDR + of_nat (4 * size)) 0x00ff00ff,
     instr ''dsb''])"

definition set_smp_bit :: "hardware \<Rightarrow> unit code" where
  "set_smp_bit hw = seq [
     andThen (read_cp hw (0, 1, 0, 1)) (\<lambda>acr. write_cp (0, 1, 0, 1) (acr OR BIT 6)),
     andThen (read_cp hw NSACR) (\<lambda>nsacr. write_cp NSACR (nsacr OR BIT 18))]"

definition enable_scu_ns_access :: "unit code" where
  "enable_scu_ns_access = seq [
     write32 IMX6_SCU_SACR_PADDR 0xf,
     write32 IMX6_SCU_NSACR_PADDR 0x1fff]"

definition imx6_platform_init :: "nat \<Rightarrow> arm_config \<Rightarrow> hardware \<Rightarrow> bool \<Rightarrow> unit code" where
  "imx6_platform_init rounds cfg hw nonsecure =
     (if ns_supervisor_mode cfg
      then andThen (imx6_switch_to_mon_mode rounds hw nonsecure False) (\<lambda>_. seq [
        enable_scu_ns_access,
        imx6_enable_ns_access_cp hw,
        set_smp_bit hw,
        set_csu,
        imx6_route_irqs_to_nonsecure hw,
        instr ''push {r0, r1}'',
        instr ''mov r0, sp'',
        write_cp SCR 1,
        instr ''isb'',
        write_sys ''spsr_cxfs'' 0x1d3,
        instr ''movs pc, lr'',
        instr ''isb'',
        instr ''mov sp, r0'',
        instr ''pop {r0, r1}''])
      else if monitor_mode cfg then andThen (imx6_switch_to_mon_mode rounds hw nonsecure False) (\<lambda>_. ret ())
      else ret ())"

section \<open>src/plat/exynos5/platform_init.c\<close>

definition EXYNOS5_SYSRAM_NS :: uint64 where "EXYNOS5_SYSRAM_NS = 0x02020000 + 0x53000"
definition EXYNOS5_POWER_CPU_CFG :: uint64 where "EXYNOS5_POWER_CPU_CFG = 0x10040000 + 0x2000"
definition cpu1_boot_reg :: uint64 where "cpu1_boot_reg = EXYNOS5_SYSRAM_NS + 0x1C"

text \<open>\<^verbatim>\<open>cpu_cfg[cpu].core.config\<close>: a \<^verbatim>\<open>cpu_cfg_t\<close> is four \<^verbatim>\<open>struct cso\<close> of 32 bytes.\<close>

definition cpu_core_config :: "nat \<Rightarrow> uint64" where
  "cpu_core_config cpu = EXYNOS5_POWER_CPU_CFG + of_nat (cpu * (4 * 32))"

definition boot_cpu :: "nat \<Rightarrow> uint32 \<Rightarrow> unit code" where
  "boot_cpu cpu entry = seq [
     write32 cpu1_boot_reg entry,
     instr ''dmb'',
     write32 (cpu_core_config cpu) 0x3]"

definition smc :: "hardware \<Rightarrow> uint32 \<Rightarrow> unit code" where
  "smc hw r0 = invoke hw ''smc'' [ucast r0, 0, 0, 0]"

definition exynos5_platform_init :: "nat \<Rightarrow> hardware \<Rightarrow> uint32 \<Rightarrow> unit code" where
  "exynos5_platform_init rounds hw start = andThen (get_cortex_a_part (read_cpuid_id32 hw)) (\<lambda>part.
     if part = 7 then andThen (seq [
         say_line ([CHR 0x0A] @ ''Switching CPU...''),
         boot_cpu 0 start]) (\<lambda>_.
       forever rounds (seq [
         write_sys ''CPSR_cxsf'' 0xc,
         smc hw (- 7)]))
     else seq [
       write32 cpu1_boot_reg 0,
       smc hw (- 1024)])"

section \<open>src/plat/zynq7000/platform_init.c and src/plat/zynqmp/platform_init.c\<close>

abbreviation (input) SLCR :: "uint64 \<Rightarrow> uint64" where "SLCR offset \<equiv> 0xF8000000 + offset"
abbreviation (input) SCU :: "uint64 \<Rightarrow> uint64" where "SCU offset \<equiv> 0xF8F00000 + 0x0 + offset"

definition SLCR_OCM_CFG_RAMHI_ALL :: uint32 where
  "SLCR_OCM_CFG_RAMHI_ALL = BIT 0 OR BIT 1 OR BIT 2 OR BIT 3"

definition remap_ram :: "hardware \<Rightarrow> unit code" where
  "remap_ram hw = seq [
     instr ''dsb'',
     instr ''isb'',
     write32 (SLCR 0x008) 0xDF0D,
     update32 hw (SLCR 0x910) (\<lambda>v. v OR SLCR_OCM_CFG_RAMHI_ALL),
     write32 (SLCR 0x004) 0x767B,
     write32 (SCU 0x040) 0x00000000,
     write32 (SCU 0x044) 0xFFE00000,
     update32 hw (SCU 0x000) (\<lambda>v. v OR (BIT 0 OR BIT 1)),
     instr ''dmb'']"

definition zynq7000_platform_init :: "hardware \<Rightarrow> unit code" where
  "zynq7000_platform_init hw = seq [
     remap_ram hw,
     (\<lambda>h. Returns () (zynq7000_enable_uart hw h))]"

definition zynqmp_platform_init :: "bool \<Rightarrow> hardware \<Rightarrow> unit code" where
  "zynqmp_platform_init ultra96 hw = (\<lambda>h. Returns () (zynqmp_enable_uart ultra96 hw h))"

text \<open>spike, hikey and the other platforms have nothing to do.\<close>

definition spike_platform_init :: "unit code" where "spike_platform_init = ret ()"

section \<open>The interrupt controller\<close>

lemma writes_singles: "writes (map (\<lambda>k. Write (f k) c) ks) = map (\<lambda>k. (f k, c)) ks"
  by (induction ks) simp_all

lemma writes_no_device: "\<forall>x \<in> set h. \<nexists>a v. x = Write a v \<Longrightarrow> writes h = []"
  by (induction h rule: writes.induct) auto

lemma foldl_constant:
  "foldl (\<lambda>m (a, v). m(a := v)) m (map (\<lambda>k. (f k, c)) ks) a = (if a \<in> f ` set ks then c else m a)"
  by (induction ks arbitrary: m) auto

text \<open>The registers of the controller after the routine.\<close>

definition irqs_routed :: "uint64 \<Rightarrow> uint64 \<Rightarrow> nat \<Rightarrow> (uint64 \<Rightarrow> uint32) \<Rightarrow> uint64 \<Rightarrow> uint32" where
  "irqs_routed gicd gicc lines m a =
     (if a = gicc + gicc_pri_mask then 0xff
      else if a = gicc + gicc_ctrl then 0
      else if a \<in> (\<lambda>i. gicd + gicd_priority i) ` {..<8 * lines} then 0x80808080
      else if a \<in> (\<lambda>i. gicd + gicd_security i) ` {..<lines} then 0xffffffff
      else if a = gicd + gicd_enable then 0 else m a)"

lemma for_each_stores:
  assumes "n \<le> len"
  shows "for_each 0 n (\<lambda>k. store_within len k (f k) c) h = Returns () (h @ map (\<lambda>k. Write (f k) c) [0..<n])"
proof -
  have "for_each 0 n (\<lambda>k. store_within len k (f k) c) h = Returns () (h @ concat (map (\<lambda>k. [Write (f k) c]) [0..<n]))"
    by (rule for_each_adds) (use assms in \<open>simp add: store_within_def run\<close>)
  then show ?thesis by simp
qed

lemma for_each_stores_overrun:
  "for_each 0 (Suc len) (\<lambda>k. store_within len k (f k) c) h = Undefined"
  by (simp add: for_each_Suc andThen_run for_each_stores) (simp add: store_within_def)

lemma route_irqs_result:
  assumes t: "ic_type = reg_value hw h (gicd + gicd_ic_type)" and lines: "lines = unat (ic_type AND 0x1f) + 1"
  shows "route_irqs_to_nonsecure hw gicd gicc h =
    (if lines = 32 then Undefined else Returns () (h @ [Read (gicd + gicd_ic_type) ic_type,
       Print (''Number of IRQs: '' @ num_string 10 (32 * lines) @ [CHR 0x0A]), Write (gicd + gicd_enable) 0] @
       map (\<lambda>k. Write (gicd + gicd_security k) 0xffffffff) [0..<lines] @
       map (\<lambda>k. Write (gicd + gicd_priority k) 0x80808080) [0..<8 * lines] @
       [Write (gicc + gicc_ctrl) 0, Write (gicc + gicc_pri_mask) 0xff]))"
proof -
  have le: "lines \<le> 32"
    using word_and_le1 [of ic_type "0x1f"] unfolding lines by (simp add: word_le_nat_alt)
  have "unat (of_nat (32 * lines) :: uint32) = 32 * lines" by (rule unat_of_nat_less) (use le in simp)
  then have "unat (scast (of_nat (32 * lines) :: uint32) :: uint32) = 32 * lines"
    by (subst small_int) (use le in \<open>simp_all add: kernel_word_def\<close>)
  then have msg: "formatted (line ''Number of IRQs: %d'') [VInt (of_nat (32 * lines)) :: uint32 varg] =
      Some (''Number of IRQs: '' @ num_string 10 (32 * lines) @ [CHR 0x0A])"
    by (simp add: formatted_def read_format.simps conv_of_def line_def)
  have steps: "for_steps 32 (32 * lines) b = for_each 0 lines (\<lambda>k. b (k * 32))"
    "for_steps 4 (32 * lines) b = for_each 0 (8 * lines) (\<lambda>k. b (k * 4))" for b
  proof -
    have "(32 * lines + 32 - 1) div 32 = lines" "(32 * lines + 4 - 1) div 4 = 8 * lines" by presburger+
    then show "for_steps 32 (32 * lines) b = for_each 0 lines (\<lambda>k. b (k * 32))"
      "for_steps 4 (32 * lines) b = for_each 0 (8 * lines) (\<lambda>k. b (k * 4))"
      by (simp_all only: for_steps_def)
  qed
  have overrun: "for_each 0 256 (\<lambda>k. store_within 255 k (f k) c) h' = Undefined" for f c h'
    using for_each_stores_overrun [of 255] by simp
  have "8 * lines \<le> 255" if "lines \<noteq> 32" using le that by simp
  note fits = for_each_stores [OF this]
  have start: "route_irqs_to_nonsecure hw gicd gicc h = seq [
       say (line ''Number of IRQs: %d'') [VInt (of_nat (32 * lines)) :: uint32 varg],
       write32 (gicd + gicd_enable) 0,
       for_each 0 lines (\<lambda>k. store_within 32 (k * 32 div 32) (gicd + gicd_security (k * 32 div 32)) 0xffffffff),
       for_each 0 (8 * lines) (\<lambda>k. store_within 255 (k * 4 div 4) (gicd + gicd_priority (k * 4 div 4)) 0x80808080),
       write32 (gicc + gicc_ctrl) 0,
       write32 (gicc + gicc_pri_mask) 0xff] (h @ [Read (gicd + gicd_ic_type) ic_type])"
    unfolding route_irqs_to_nonsecure_def Let_def
      andThen_step [where p = "read32 hw (gicd + gicd_ic_type)", OF read32_run]
      t [symmetric] lines [symmetric] steps ..
  show ?thesis
    unfolding start seq.simps
    by (simp add: andThen_run say_run kernel_word_def msg write32_run for_each_stores [OF le] overrun fits ret_run
        del: of_nat_mult)
qed

lemma route_irqs_registers:
  assumes "ic_type = reg_value hw h (gicd + gicd_ic_type)" and lines: "lines = unat (ic_type AND 0x1f) + 1"
    and "lines \<noteq> 32"
  shows "\<exists>g. route_irqs_to_nonsecure hw gicd gicc h = Returns () (h @ g) \<and>
    reg_after init (h @ g) = irqs_routed gicd gicc lines (reg_after init h) \<and>
    (\<forall>x \<in> set g. \<nexists>r v i. x = Mcr r v \<or> x = Mrc r v \<or> x = Asm i)"
proof -
  let ?g = "[Read (gicd + gicd_ic_type) ic_type,
       Print (''Number of IRQs: '' @ num_string 10 (32 * lines) @ [CHR 0x0A]), Write (gicd + gicd_enable) 0] @
       map (\<lambda>k. Write (gicd + gicd_security k) 0xffffffff) [0..<lines] @
       map (\<lambda>k. Write (gicd + gicd_priority k) 0x80808080) [0..<8 * lines] @
       [Write (gicc + gicc_ctrl) 0, Write (gicc + gicc_pri_mask) 0xff]"
  have "reg_after init (h @ ?g) = irqs_routed gicd gicc lines (reg_after init h)"
    unfolding reg_after_append irqs_routed_def
    by (rule ext) (simp add: writes_singles foldl_constant atLeast0LessThan del: image_iff)
  moreover have "\<forall>x \<in> set ?g. \<nexists>r v i. x = Mcr r v \<or> x = Mrc r v \<or> x = Asm i" by auto
  ultimately show ?thesis using route_irqs_result [OF assms(1,2), of gicc] assms(3) by (intro exI [of _ ?g]) simp
qed

section \<open>Coprocessor registers that keep what is written\<close>

fun cp_writes :: "history \<Rightarrow> (cpreg \<times> uint32) list" where
  "cp_writes [] = []"
| "cp_writes (Mcr r v # h) = (r, v) # cp_writes h"
| "cp_writes (_ # h) = cp_writes h"

definition cp_after :: "(cpreg \<Rightarrow> uint32) \<Rightarrow> history \<Rightarrow> cpreg \<Rightarrow> uint32" where
  "cp_after init h = foldl (\<lambda>m (r, v). m(r := v)) init (cp_writes h)"

definition cp_file :: "hardware \<Rightarrow> (cpreg \<Rightarrow> uint32) \<Rightarrow> bool" where
  "cp_file hw init \<longleftrightarrow> (\<forall>h r. cp_value hw h r = cp_after init h r)"

lemma cp_writes_append [simp]: "cp_writes (g @ h) = cp_writes g @ cp_writes h"
  by (induction g rule: cp_writes.induct) simp_all

lemma cp_writes_none: "\<forall>x \<in> set h. \<nexists>r v. x = Mcr r v \<Longrightarrow> cp_writes h = []"
  by (induction h rule: cp_writes.induct) auto

lemma cp_after_append: "cp_after init (h @ g) = foldl (\<lambda>m (r, v). m(r := v)) (cp_after init h) (cp_writes g)"
  by (simp add: cp_after_def)

lemma cp_file_value: "cp_file hw init \<Longrightarrow> cp_value hw h r = cp_after init h r"
  unfolding cp_file_def by blast

section \<open>tk1 in hypervisor mode\<close>

definition MONITOR_MODE :: uint32 where "MONITOR_MODE = 0x16"
definition SUPERVISOR_MODE :: uint32 where "SUPERVISOR_MODE = 0x13"
definition HYPERVISOR_MODE :: uint32 where "HYPERVISOR_MODE = 0x1a"

text \<open>The mode of the processor after a history that starts in mode \<open>m\<close>.\<close>

fun mode_after :: "uint32 \<Rightarrow> history \<Rightarrow> uint32" where
  "mode_after m [] = m"
| "mode_after m (Asm i # h) = mode_after
     (if i = ''cps #0x16'' then MONITOR_MODE else if i = ''cps #0x13'' then SUPERVISOR_MODE
      else if i = ''cps #0x1a'' then HYPERVISOR_MODE else m) h"
| "mode_after m (_ # h) = mode_after m h"

lemma mode_after_append [simp]: "mode_after m (g @ h) = mode_after (mode_after m g) h"
  by (induction m g rule: mode_after.induct) simp_all

lemma mode_after_none: "\<forall>x \<in> set h. \<nexists>i. x = Asm i \<Longrightarrow> mode_after m h = m"
  by (induction m h rule: mode_after.induct) auto

lemma say_the:
  fixes args :: "'w::len word varg list"
  shows "kernel_word TYPE('w) \<Longrightarrow> formatted fmt args \<noteq> None \<Longrightarrow>
    say fmt args h = Returns () (h @ [Print (the (formatted fmt args))])"
  by (auto simp: say_run)

lemma halts: "arm_halt n h = Aborts (h @ replicate n (Asm ''wfe''))"
proof -
  have "forever n (instr ''wfe'') h = Aborts (h @ replicate n (Asm ''wfe''))"
    by (induction n arbitrary: h) (simp_all add: run replicate_append_same)
  then show ?thesis by (simp add: arm_halt_def)
qed

lemma hyp_scr: "((0x100 OR BIT SCR_HCE) AND NOT (BIT SCR_SCD) OR BIT SCR_NS) AND NOT (BIT SCR_SIF) = (0x101 :: uint32)"
  by (simp add: BIT_def)

text \<open>The switch: with the caches cleaned, NS and HCE are set, then the mode changes, and the banked
  stack and frame pointers get their old values.\<close>

definition hyp_switch :: "uint64 \<Rightarrow> uint64 \<Rightarrow> uint64 \<Rightarrow> uint64 \<Rightarrow> uint64 \<Rightarrow> string \<Rightarrow> history" where
  "hyp_switch sp fp r r' cpsr msg = [Mrs ''sp'' sp, Mrs ''fp'' fp, Call ''flush_dcache'' [] r, Call ''invalidate_icache'' [] r',
     Mrc SCR 0x100, Mcr SCR 0x101, Asm ''cps #0x1a'', Asm ''isb'', Msr ''sp'' sp, Msr ''fp'' fp, Mrs ''cpsr'' cpsr, Print msg]"

lemma switch_to_hyp_mode_result:
  assumes cps: "cp_file hw init" and scr: "cp_after init h SCR = 0x100"
  shows "\<exists>sp fp r r' cpsr msg. switch_to_hyp_mode hw h = Returns () (h @ hyp_switch sp fp r r' cpsr msg)"
proof -
  have msg: "formatted ''Load seL4 in nonsecure HYP mode %x'' [VInt v :: uint32 varg] \<noteq> None" for v
    by (simp add: formatted_def read_format.simps conv_of_def)
  show ?thesis
    unfolding switch_to_hyp_mode_def Let_def
    by (simp add: run cp_file_value [OF cps] cp_after_append scr hyp_scr say_the [OF _ msg] kernel_word_def hyp_switch_def)
qed

text \<open>Entering monitor mode: refused when the NS bit is set.\<close>

lemma tk1_switch_to_mon_mode_result:
  assumes cps: "cp_file hw init"
  shows "if cp_after init h SCR AND 1 \<noteq> 0
    then \<exists>g. tk1_switch_to_mon_mode n hw False False h = Aborts (h @ g @ replicate n (Asm ''wfe'')) \<and>
      writes g = [] \<and> cp_writes g = []
    else \<exists>g. tk1_switch_to_mon_mode n hw False False h = Returns True (h @ g) \<and>
      writes g = [] \<and> cp_writes g = [(SCR, 0x100)] \<and> (\<forall>m. mode_after m g = MONITOR_MODE)"
  by (auto simp: tk1_switch_to_mon_mode_def read_SCR_def run halts cp_file_value [OF cps] BIT_def)

lemma tk1_enable_ns_access_cp_result:
  assumes "cp_file hw init"
  shows "\<exists>g. tk1_enable_ns_access_cp hw False h = Returns () (h @ g) \<and> writes g = [] \<and>
    cp_writes g = [(NSACR, cp_after init h NSACR OR 0xc00)]"
  by (simp add: tk1_enable_ns_access_cp_def write_NSACR_def run cp_file_value [OF assms] BIT_def)

lemma SCR_NSACR [simp]: "SCR \<noteq> NSACR" "NSACR \<noteq> SCR"
  by (simp_all add: SCR_def NSACR_def)

section \<open>Properties\<close>

text \<open>C35: \<^verbatim>\<open>route_irqs_to_nonsecure\<close> of tk1 and imx6, on a distributor that reports
  \<open>lines\<close> blocks of 32 interrupts: it returns with every implemented interrupt in group 1 at
  priority 0x80, distributor and CPU interface off, the priority mask open and every other register as
  it was; but on a distributor that reports the full 32 blocks it writes one element past the end of
  the 255 priority words of \<^verbatim>\<open>struct gicd_map\<close>.\<close>

theorem irqs_routed_to_nonsecure:
  "let lines = unat (reg_value hw h (gicd + gicd_ic_type) AND 0x1f) + 1
   in if lines = 32 then route_irqs_to_nonsecure hw gicd gicc h = Undefined
      else \<exists>h'. route_irqs_to_nonsecure hw gicd gicc h = Returns () h' \<and>
        reg_after init h' = irqs_routed gicd gicc lines (reg_after init h)"
  using route_irqs_result [OF refl refl, where hw = hw and h = h and gicd = gicd and gicc = gicc]
    route_irqs_registers [OF refl refl, where hw = hw and h = h and gicd = gicd and gicc = gicc and init = init]
  by (auto simp: Let_def)

lemma tk1_leaves_secure_world:
  assumes cps: "cp_file hw cinit" and regs: "register_file hw init"
    and gic: "lines = unat (reg_after init h (TK1_GICD_PADDR + gicd_ic_type) AND 0x1f) + 1" "lines \<noteq> 32"
    and secure: "cp_after cinit h SCR AND 1 = 0"
  obtains g sp fp r r' cpsr msg where "andThen (tk1_switch_to_mon_mode n hw False False) (\<lambda>done.
      andThen (seq [route_irqs_to_nonsecure hw TK1_GICD_PADDR TK1_GICC_PADDR, switch_to_hyp_mode hw]) (\<lambda>_. ret ())) h =
        Returns () (h @ g @ hyp_switch sp fp r r' cpsr msg)"
    and "cp_after cinit (h @ g) = (cp_after cinit h)(SCR := 0x100)"
    and "reg_after init (h @ g) = irqs_routed TK1_GICD_PADDR TK1_GICC_PADDR lines (reg_after init h)"
    and "\<forall>m. mode_after m g = MONITOR_MODE"
proof -
  obtain gb where gb: "tk1_switch_to_mon_mode n hw False False h = Returns True (h @ gb)"
      "writes gb = []" "cp_writes gb = [(SCR, 0x100)]" "\<And>m. mode_after m gb = MONITOR_MODE"
    using tk1_switch_to_mon_mode_result [OF cps, of h n] secure by auto
  have r: "reg_after init (h @ gb) = reg_after init h" by (simp add: reg_after_def gb)
  obtain gc where gc: "route_irqs_to_nonsecure hw TK1_GICD_PADDR TK1_GICC_PADDR (h @ gb) = Returns () ((h @ gb) @ gc)"
      "reg_after init ((h @ gb) @ gc) = irqs_routed TK1_GICD_PADDR TK1_GICC_PADDR lines (reg_after init (h @ gb))"
      "\<forall>x \<in> set gc. \<nexists>r v i. x = Mcr r v \<or> x = Mrc r v \<or> x = Asm i"
    using route_irqs_registers [OF refl, of lines hw "h @ gb" TK1_GICD_PADDR TK1_GICC_PADDR init] gic
    unfolding register_file_value [OF regs] r by blast
  have c: "cp_writes gc = []" using gc(3) by (intro cp_writes_none) blast
  have d: "mode_after m gc = m" for m using gc(3) by (intro mode_after_none) blast
  have m: "cp_after cinit ((h @ gb) @ gc) = (cp_after cinit h)(SCR := 0x100)"
    by (simp add: cp_after_append gb(3) c)
  then obtain sp fp x x' cpsr msg where gd: "switch_to_hyp_mode hw ((h @ gb) @ gc) =
      Returns () (((h @ gb) @ gc) @ hyp_switch sp fp x x' cpsr msg)"
    using switch_to_hyp_mode_result [OF cps, of "(h @ gb) @ gc"] by auto
  show thesis
    by (rule that [of "gb @ gc" sp fp x x' cpsr msg])
      (use m gc(2) in \<open>simp_all add: andThen_run gb gc(1) [simplified] gd(1) [simplified] r d ret_run\<close>)
qed


definition sample_tk1 :: hardware where
  "sample_tk1 = \<lparr>reg_value = reg_after ((\<lambda>_. 0)(0x50041004 := 0xfc05)), cp_value = cp_after (\<lambda>_. 0),
     sys_value = (\<lambda>h r. 0), call_value = (\<lambda>h f args. 0)\<rparr>"


text \<open>The OCM is mapped high and the address filter opened, between unlock and lock.\<close>

lemma zynq7000_remap_registers:
  assumes "register_file hw init"
  shows "\<exists>g. remap_ram hw h = Returns () (h @ g) \<and>
    writes g = [(0xF8000008, 0xDF0D), (0xF8000910, reg_after init h 0xF8000910 OR 0xF), (0xF8000004, 0x767B),
      (0xF8F00040, 0), (0xF8F00044, 0xFFE00000), (0xF8F00000, reg_after init h 0xF8F00000 OR 3)]"
  by (simp add: remap_ram_def run register_file_value [OF assms] reg_after_append SLCR_OCM_CFG_RAMHI_ALL_def BIT_def)

text \<open>The core that is left turns its interrupts off and asks for its shutdown, for ever.\<close>

abbreviation shutdown_round :: "uint64 \<Rightarrow> history" where
  "shutdown_round r \<equiv> [Msr ''CPSR_cxsf'' 0xc, Call ''smc'' [0xfffffff9, 0, 0, 0] r]"

lemma exynos5_shuts_down:
  "\<exists>rs. length rs = n \<and> (forever n (seq [write_sys ''CPSR_cxsf'' 0xc, smc hw (- 7)]) :: unit code) h =
    Aborts (h @ concat (map shutdown_round rs))"
proof (induction n arbitrary: h)
  case (Suc n)
  define r where "r = call_value hw (h @ [Msr ''CPSR_cxsf'' 0xc]) ''smc'' [0xfffffff9, 0, 0, 0]"
  obtain rs where "length rs = n" and rs: "(forever n (seq [write_sys ''CPSR_cxsf'' 0xc, smc hw (- 7)]) :: unit code)
      (h @ shutdown_round r) = Aborts ((h @ shutdown_round r) @ concat (map shutdown_round rs))"
    using Suc by blast
  moreover have "seq [write_sys ''CPSR_cxsf'' 0xc, smc hw (- 7)] h = Returns () (h @ shutdown_round r)"
    by (simp add: smc_def run r_def)
  then have "(forever (Suc n) (seq [write_sys ''CPSR_cxsf'' 0xc, smc hw (- 7)]) :: unit code) h =
      forever n (seq [write_sys ''CPSR_cxsf'' 0xc, smc hw (- 7)]) (h @ shutdown_round r)"
    by (simp only: forever.simps andThen_run outcome.case)
  ultimately show ?case by (intro exI [of _ "r # rs"]) (simp only: rs, simp)
qed simp

text \<open>C37: exynos5 decides by the low byte of the part number, and only of an ARM core with the CPUID
  scheme. With 7 there (a Cortex-A7, but also a Cortex-A57) \<^verbatim>\<open>platform_init\<close> starts core 0 of the other
  cluster at the loader's entry point, announced before it is powered, and then shuts down for ever:
  every further round is turning the interrupts off and then the secure call for the shutdown, and after any number of rounds it
  has not returned. On every other core, of ARM or not, it clears the boot register, makes one secure call, the
  one that disables TrustZone, and returns.\<close>

theorem exynos5_switches_clusters:
  assumes cpuid: "cp_value hw h (0, 0, 0, 0) = cpuid"
  shows "if unat cpuid div 2 ^ 16 mod 16 = 15 \<and> unat cpuid div 2 ^ 24 = 0x41 \<and> unat cpuid div 16 mod 256 = 7
    then \<exists>rs. length rs = n \<and> exynos5_platform_init n hw start h =
      Aborts (h @ [Mrc (0, 0, 0, 0) cpuid, Print (line ([CHR 0x0A] @ ''Switching CPU...'')),
        Write cpu1_boot_reg start, Asm ''dmb'', Write (cpu_core_config 0) 3] @
        concat (map (\<lambda>r. [Msr ''CPSR_cxsf'' 0xc, Call ''smc'' [0xfffffff9, 0, 0, 0] r]) rs))
    else \<exists>r. exynos5_platform_init n hw start h =
      Returns () (h @ [Mrc (0, 0, 0, 0) cpuid, Write cpu1_boot_reg 0, Call ''smc'' [0xfffffc00, 0, 0, 0] r])"
proof -
  let ?arm = "unat cpuid div 2 ^ 16 mod 16 = 15 \<and> unat cpuid div 2 ^ 24 = 0x41"
  let ?part = "if ?arm then of_nat (unat cpuid div 16 mod 256) else - 1 :: uint32"
  have part: "get_cortex_a_part (read_cpuid_id32 hw) h = Returns ?part (h @ [Mrc (0, 0, 0, 0) cpuid])"
    using get_cortex_a_part_low_byte [of "read_cpuid_id32 hw" h cpuid] cpuid
    by (simp add: read_cpuid_id32_def run)
  have "unat (of_nat (unat cpuid div 16 mod 256) :: uint32) = unat cpuid div 16 mod 256"
    by (rule unat_of_nat_less) (simp add: order.strict_trans1 [OF mod_le_divisor])
  then have "(of_nat (unat cpuid div 16 mod 256) :: uint32) = 7 \<longleftrightarrow> unat cpuid div 16 mod 256 = 7"
    by (simp add: word_unat_eq_iff)
  moreover have "(- 1 :: uint32) \<noteq> 7" by simp
  ultimately have seven: "?part = 7 \<longleftrightarrow> ?arm \<and> unat cpuid div 16 mod 256 = 7" by (cases ?arm) auto
  show ?thesis
  proof (cases "?part = 7")
    case True
    define h' where "h' = h @ [Mrc (0, 0, 0, 0) cpuid, Print (line ([CHR 0x0A] @ ''Switching CPU...'')),
      Write cpu1_boot_reg start, Asm ''dmb'', Write (cpu_core_config 0) 3]"
    have "seq [say_line ([CHR 0x0A] @ ''Switching CPU...''), boot_cpu 0 start] (h @ [Mrc (0, 0, 0, 0) cpuid]) = Returns () h'"
      by (simp add: boot_cpu_def run h'_def)
    then have "exynos5_platform_init n hw start h = forever n (seq [write_sys ''CPSR_cxsf'' 0xc, smc hw (- 7)]) h'"
      unfolding exynos5_platform_init_def
      by (simp only: andThen_run part outcome.case True refl if_True)
    moreover obtain rs where "length rs = n" "(forever n (seq [write_sys ''CPSR_cxsf'' 0xc, smc hw (- 7)]) :: unit code) h' =
        Aborts (h' @ concat (map shutdown_round rs))"
      using exynos5_shuts_down by blast
    ultimately have "exynos5_platform_init n hw start h = Aborts (h @ [Mrc (0, 0, 0, 0) cpuid,
        Print (line ([CHR 0x0A] @ ''Switching CPU...'')), Write cpu1_boot_reg start, Asm ''dmb'', Write (cpu_core_config 0) 3] @
        concat (map shutdown_round rs))"
      by (simp add: h'_def)
    with \<open>length rs = n\<close> True show ?thesis unfolding seven by auto
  next
    case False
    have "exynos5_platform_init n hw start h = seq [write32 cpu1_boot_reg 0, smc hw (- 1024)] (h @ [Mrc (0, 0, 0, 0) cpuid])"
      unfolding exynos5_platform_init_def
      by (simp only: andThen_run part outcome.case False if_False)
    then have "\<exists>r. exynos5_platform_init n hw start h =
        Returns () (h @ [Mrc (0, 0, 0, 0) cpuid, Write cpu1_boot_reg 0, Call ''smc'' [0xfffffc00, 0, 0, 0] r])"
      by (simp add: smc_def run)
    with False show ?thesis unfolding seven by auto
  qed
qed

definition sample_a57 :: hardware where
  "sample_a57 = \<lparr>reg_value = (\<lambda>h a. 0), cp_value = (\<lambda>h r. 0x410FD070), sys_value = (\<lambda>h r. 0),
     call_value = (\<lambda>h f args. 0)\<rparr>"

theorem exynos5_switches_clusters_witness:
  "\<exists>r. exynos5_platform_init 1 sample_a57 0x41000000 [] = Aborts [Mrc (0, 0, 0, 0) 0x410FD070,
    Print (line ([CHR 0x0A] @ ''Switching CPU...'')), Write 0x0207301C 0x41000000, Asm ''dmb'', Write 0x10042000 3,
    Msr ''CPSR_cxsf'' 0xc, Call ''smc'' [0xfffffff9, 0, 0, 0] r]"
proof -
  have "cp_value sample_a57 [] (0, 0, 0, 0) = 0x410FD070" by (simp add: sample_a57_def)
  moreover have "cpu1_boot_reg = 0x0207301C" "cpu_core_config 0 = 0x10042000"
    by (simp_all add: cpu1_boot_reg_def EXYNOS5_SYSRAM_NS_def cpu_core_config_def EXYNOS5_POWER_CPU_CFG_def)
  ultimately show ?thesis
    using exynos5_switches_clusters [of sample_a57 "[]" "0x410FD070" 1 "0x41000000"]
    by (auto simp: length_Suc_conv)
qed

end
