(* ===== verification/Efi.thy ===== *)
theory Efi
  imports Printf "HOL-Library.Monad_Syntax"
begin

text \<open>
  Start-up from UEFI firmware on AArch64, src/binaries/efi/*.c and include/binaries/efi/efi.h:
  the firmware tables, the console, and leaving the boot services. The boot services are the
  parameter \<^verbatim>\<open>boot_services\<close>, functions on a firmware state; \<open>uefi_contract\<close> states
  what the UEFI specification says of the four that are used.
\<close>

section \<open>The firmware tables: efi.h, efi_utils.c\<close>

record efi_table_hdr =
  hdr_signature :: uint64
  hdr_revision :: uint32
  hdr_headersize :: uint32
  hdr_crc32 :: uint32
  hdr_reserved :: uint32

record efi_system_table =
  hdr :: efi_table_hdr
  fw_vendor :: uint64
  fw_revision :: uint32
  con_in_handle :: uint64
  con_in :: uint64
  con_out_handle :: uint64
  con_out :: uint64
  stderr_handle :: uint64
  efi_stderr :: uint64
  runtime :: uint64
  boottime :: uint64
  nr_tables :: uint32
  efi_tables :: uint64

definition read_efi_table_hdr :: "64 mem \<Rightarrow> uint64 \<Rightarrow> efi_table_hdr" where
  "read_efi_table_hdr m p = \<lparr>hdr_signature = load64 m p, hdr_revision = load32 m (p + 8),
     hdr_headersize = load32 m (p + 12), hdr_crc32 = load32 m (p + 16), hdr_reserved = load32 m (p + 20)\<rparr>"

definition read_efi_system_table :: "64 mem \<Rightarrow> uint64 \<Rightarrow> efi_system_table" where
  "read_efi_system_table m p = \<lparr>hdr = read_efi_table_hdr m p,
     fw_vendor = load64 m (p + 24), fw_revision = load32 m (p + 32),
     con_in_handle = load64 m (p + 40), con_in = load64 m (p + 48),
     con_out_handle = load64 m (p + 56), con_out = load64 m (p + 64),
     stderr_handle = load64 m (p + 72), efi_stderr = load64 m (p + 80),
     runtime = load64 m (p + 88), boottime = load64 m (p + 96),
     nr_tables = load32 m (p + 104), efi_tables = load64 m (p + 112)\<rparr>"

record efi_globals =
  application_handle :: uint64
  efi_system_table :: uint64

definition efi_early_init :: "uint64 \<Rightarrow> uint64 \<Rightarrow> efi_globals" where
  "efi_early_init handle table = \<lparr>application_handle = handle, efi_system_table = table\<rparr>"

definition get_efi_boot_services :: "64 mem \<Rightarrow> efi_globals \<Rightarrow> uint64" where
  "get_efi_boot_services m g = boottime (read_efi_system_table m (efi_system_table g))"

definition get_efi_con_out :: "64 mem \<Rightarrow> efi_globals \<Rightarrow> uint64" where
  "get_efi_con_out m g = con_out (read_efi_system_table m (efi_system_table g))"

section \<open>The console: efi_fputc.c\<close>

text \<open>The strings handed to \<^verbatim>\<open>output_string\<close>, in order, with their terminating zero.\<close>

definition efi_fputc :: "uint16 list list \<Rightarrow> uint32 \<Rightarrow> uint16 list list" where
  "efi_fputc out c =
     (let char_to_print = [ucast c, 0];
          out = (if char_to_print ! 0 = of_char CHR 0x0A then out @ [[of_char CHR 0x0D, 0]] else out)
      in out @ [char_to_print])"

section \<open>Leaving the boot services: efi_init.c\<close>

definition EFI_SUCCESS :: uint64 where "EFI_SUCCESS = 0"
definition EFI_LOAD_ERROR :: uint64 where "EFI_LOAD_ERROR = 1 OR push_bit (8 * 8 - 1) 1"
definition EFI_BUFFER_TOO_SMALL :: uint64 where "EFI_BUFFER_TOO_SMALL = 5 OR push_bit (8 * 8 - 1) 1"
definition EFI_LOADER_DATA :: uint32 where "EFI_LOADER_DATA = 2"

text \<open>\<^verbatim>\<open>sizeof(efi_memory_desc_t)\<close>: two 32-bit and four 64-bit members.\<close>

definition efi_memory_desc_size :: uint64 where "efi_memory_desc_size = 40"

text \<open>What \<^verbatim>\<open>get_memory_map\<close> returns and stores through its pointers.\<close>

record map_result =
  map_status :: uint64
  out_map_size :: uint64
  out_key :: uint64
  out_desc_size :: uint64
  out_desc_version :: uint32

record 'f boot_services =
  get_memory_map :: "uint64 \<Rightarrow> uint64 \<Rightarrow> 'f \<Rightarrow> map_result \<times> 'f"
  allocate_pool :: "uint32 \<Rightarrow> uint64 \<Rightarrow> 'f \<Rightarrow> (uint64 \<times> uint64) \<times> 'f"
  free_pool :: "uint64 \<Rightarrow> 'f \<Rightarrow> 'f"
  exit_boot_services :: "uint64 \<Rightarrow> uint64 \<Rightarrow> 'f \<Rightarrow> uint64 \<times> 'f"

text \<open>From the label \<^verbatim>\<open>again\<close> on; \<open>None\<close> when it goes round for ever.\<close>

partial_function (option) efi_exit_again ::
    "'f boot_services \<Rightarrow> uint64 \<Rightarrow> uint64 \<Rightarrow> 'f \<Rightarrow> (uint64 \<times> 'f) option" where
  "efi_exit_again bts handle map_size f =
     (let ((status, memory_map), f) = allocate_pool bts EFI_LOADER_DATA map_size f
      in if status \<noteq> EFI_SUCCESS then Some (status, f)
         else let (r, f) = get_memory_map bts map_size memory_map f
              in if map_status r = EFI_BUFFER_TOO_SMALL
                 then efi_exit_again bts handle (out_map_size r + efi_memory_desc_size) (free_pool bts memory_map f)
                 else if map_status r \<noteq> EFI_SUCCESS
                 then Some (map_status r, free_pool bts memory_map f)
                 else Some (exit_boot_services bts handle (out_key r) f))"

definition efi_exit_boot_services ::
    "'f boot_services \<Rightarrow> efi_globals \<Rightarrow> 'f \<Rightarrow> (uint64 \<times> 'f) option" where
  "efi_exit_boot_services bts g f =
     (let map_size = efi_memory_desc_size * 32 in efi_exit_again bts (application_handle g) map_size f)"

section \<open>What the UEFI specification promises\<close>

text \<open>
  A view of the firmware state: \<open>need\<close> is the size of its memory map in bytes, \<open>pools\<close> the
  buffers allocated from it, \<open>key\<close> the key of the current map. A successful
  allocation returns a new buffer; a map that does not fit is reported with its size; a map that
  fits comes with the current key; leaving with the current key succeeds.
\<close>

record 'f uefi_view =
  need :: "'f \<Rightarrow> nat"
  pools :: "'f \<Rightarrow> uint64 set"
  key :: "'f \<Rightarrow> uint64"

definition uefi_contract :: "'f boot_services \<Rightarrow> 'f uefi_view \<Rightarrow> bool" where
  "uefi_contract bts v \<longleftrightarrow>
     (\<forall>t n f st b f'. allocate_pool bts t n f = ((st, b), f') \<longrightarrow>
        (if st = EFI_SUCCESS then b \<notin> pools v f \<and> pools v f' = insert b (pools v f) else pools v f' = pools v f)) \<and>
     (\<forall>n b f r f'. get_memory_map bts n b f = (r, f') \<longrightarrow> pools v f' = pools v f \<and> key v f' = key v f \<and>
        (if unat n < need v f then map_status r = EFI_BUFFER_TOO_SMALL \<and> unat (out_map_size r) = need v f
         else map_status r \<noteq> EFI_BUFFER_TOO_SMALL \<and> (map_status r = EFI_SUCCESS \<longrightarrow> out_key r = key v f))) \<and>
     (\<forall>b f. pools v (free_pool bts b f) = pools v f - {b}) \<and>
     (\<forall>app k f. k = key v f \<longrightarrow> fst (exit_boot_services bts app k f) = EFI_SUCCESS)"

lemma uefi_contractD:
  assumes "uefi_contract bts v"
  shows "allocate_pool bts t n f = ((EFI_SUCCESS, b), f') \<Longrightarrow> b \<notin> pools v f \<and> pools v f' = insert b (pools v f)"
    and "allocate_pool bts t n f = ((st, b), f') \<Longrightarrow> st \<noteq> EFI_SUCCESS \<Longrightarrow> pools v f' = pools v f"
    and "get_memory_map bts n b f = (r, f') \<Longrightarrow> pools v f' = pools v f \<and> key v f' = key v f"
    and "get_memory_map bts n b f = (r, f') \<Longrightarrow> map_status r = EFI_BUFFER_TOO_SMALL \<longleftrightarrow> unat n < need v f"
    and "get_memory_map bts n b f = (r, f') \<Longrightarrow> map_status r = EFI_BUFFER_TOO_SMALL \<Longrightarrow> unat (out_map_size r) = need v f"
    and "get_memory_map bts n b f = (r, f') \<Longrightarrow> map_status r = EFI_SUCCESS \<Longrightarrow> out_key r = key v f"
    and "pools v (free_pool bts b f) = pools v f - {b}"
    and "k = key v f \<Longrightarrow> fst (exit_boot_services bts app k f) = EFI_SUCCESS"
proof -
  have alloc: "\<forall>t n f st b f'. allocate_pool bts t n f = ((st, b), f') \<longrightarrow>
      (if st = EFI_SUCCESS then b \<notin> pools v f \<and> pools v f' = insert b (pools v f) else pools v f' = pools v f)"
    and map: "\<forall>n b f r f'. get_memory_map bts n b f = (r, f') \<longrightarrow> pools v f' = pools v f \<and> key v f' = key v f \<and>
      (if unat n < need v f then map_status r = EFI_BUFFER_TOO_SMALL \<and> unat (out_map_size r) = need v f
       else map_status r \<noteq> EFI_BUFFER_TOO_SMALL \<and> (map_status r = EFI_SUCCESS \<longrightarrow> out_key r = key v f))"
    using assms [unfolded uefi_contract_def, THEN conjunct1]
      assms [unfolded uefi_contract_def, THEN conjunct2, THEN conjunct1] by - assumption+
  show "allocate_pool bts t n f = ((EFI_SUCCESS, b), f') \<Longrightarrow> b \<notin> pools v f \<and> pools v f' = insert b (pools v f)"
    using alloc [rule_format, of t n f EFI_SUCCESS b f'] by simp
  show "allocate_pool bts t n f = ((st, b), f') \<Longrightarrow> st \<noteq> EFI_SUCCESS \<Longrightarrow> pools v f' = pools v f"
    using alloc [rule_format, of t n f st b f'] by simp
  assume m: "get_memory_map bts n b f = (r, f')"
  note m' = map [rule_format, OF m]
  show "pools v f' = pools v f \<and> key v f' = key v f" using m' by blast
  show small: "map_status r = EFI_BUFFER_TOO_SMALL \<longleftrightarrow> unat n < need v f" using m' by (simp split: if_splits)
  show "map_status r = EFI_BUFFER_TOO_SMALL \<Longrightarrow> unat (out_map_size r) = need v f" using m' small by simp
  have "EFI_SUCCESS \<noteq> EFI_BUFFER_TOO_SMALL" by (simp add: EFI_SUCCESS_def EFI_BUFFER_TOO_SMALL_def)
  then show "map_status r = EFI_SUCCESS \<Longrightarrow> out_key r = key v f" using m' by (simp split: if_splits)
qed (use assms [unfolded uefi_contract_def] in blast)+

section \<open>The loop\<close>

lemma efi_exit_again_outcome:
  assumes c: "uefi_contract bts v" and bound: "\<And>f. need v f \<le> B" "B + 40 < 2 ^ 64"
    and "pools v f = P"
  shows "\<exists>st f'. efi_exit_again bts app n f = Some (st, f') \<and> (st \<noteq> EFI_SUCCESS \<longrightarrow> pools v f' = P) \<and>
    ((\<forall>t n f. pools v f = P \<longrightarrow> fst (fst (allocate_pool bts t n f)) = EFI_SUCCESS) \<and>
     (\<forall>n b f. map_status (fst (get_memory_map bts n b f)) \<in> {EFI_SUCCESS, EFI_BUFFER_TOO_SMALL}) \<longrightarrow> st = EFI_SUCCESS)"
    (is "\<exists>st f'. ?run n f st f' \<and> ?clean st f' \<and> (?enough \<longrightarrow> st = EFI_SUCCESS)")
  using assms(4)
proof (induction "B + 40 - unat n" arbitrary: n f rule: less_induct)
  case less
  obtain st b f1 where a: "allocate_pool bts EFI_LOADER_DATA n f = ((st, b), f1)" by (metis prod.collapse)
  show ?case
  proof (cases "st = EFI_SUCCESS")
    case False
    then have "efi_exit_again bts app n f = Some (st, f1)"
      by (subst efi_exit_again.simps) (simp add: a Let_def)
    moreover have "pools v f1 = P" using uefi_contractD(2) [OF c a False] less.prems by simp
    moreover have "\<not> ?enough" using a False less.prems by (metis fst_conv)
    ultimately show ?thesis by blast
  next
    case True
    have pool: "b \<notin> pools v f" "pools v f1 = insert b (pools v f)"
      using uefi_contractD(1) [OF c a [unfolded True]] by auto
    obtain r f2 where m: "get_memory_map bts n b f1 = (r, f2)" by (metis prod.collapse)
    have freed: "pools v (free_pool bts b f2) = P"
      using uefi_contractD(3) [OF c m] uefi_contractD(7) [OF c] pool less.prems by simp
    show ?thesis
    proof (cases "map_status r = EFI_BUFFER_TOO_SMALL")
      case small: True
      let ?n = "out_map_size r + efi_memory_desc_size"
      have need: "unat n < need v f1" "unat (out_map_size r) = need v f1"
        using uefi_contractD(4,5) [OF c m] small by auto
      then have "unat ?n = need v f1 + 40"
        using bound(1) [of f1] bound(2) by (simp add: efi_memory_desc_size_def unat_word_ariths)
      then have "B + 40 - unat ?n < B + 40 - unat n" using need bound(1) [of f1] by simp
      from less.hyps [OF this freed] show ?thesis
        by (subst efi_exit_again.simps) (simp add: a True m small Let_def)
    next
      case large: False
      show ?thesis
      proof (cases "map_status r = EFI_SUCCESS")
        case False
        then have "efi_exit_again bts app n f = Some (map_status r, free_pool bts b f2)"
          by (subst efi_exit_again.simps) (simp add: a True m large Let_def)
        moreover have "\<not> ?enough" using m False large by (metis fst_conv insertE singletonD)
        ultimately show ?thesis using freed by blast
      next
        case ok: True
        have k: "out_key r = key v f2" using uefi_contractD(3,6) [OF c m] ok by auto
        obtain st' f3 where e: "exit_boot_services bts app (out_key r) f2 = (st', f3)" by (metis prod.collapse)
        have "st' = EFI_SUCCESS" using uefi_contractD(8) [OF c k, of app] e by simp
        moreover have "efi_exit_again bts app n f = Some (st', f3)"
          using large by (subst efi_exit_again.simps) (simp add: a True m ok e Let_def)
        ultimately show ?thesis by blast
      qed
    qed
  qed
qed

section \<open>Properties\<close>


text \<open>Firmware with one free buffer and a map of 1500 bytes.\<close>

definition sample_firmware :: "uint64 option boot_services" where
  "sample_firmware = \<lparr>
     get_memory_map = (\<lambda>n b f. (if unat n < 1500
       then \<lparr>map_status = EFI_BUFFER_TOO_SMALL, out_map_size = 1500, out_key = 0, out_desc_size = 48, out_desc_version = 1\<rparr>
       else \<lparr>map_status = EFI_SUCCESS, out_map_size = 1500, out_key = 77, out_desc_size = 48, out_desc_version = 1\<rparr>, f)),
     allocate_pool = (\<lambda>t n f. if f = None then ((EFI_SUCCESS, 0x9000), Some 0x9000) else ((EFI_LOAD_ERROR, 0), f)),
     free_pool = (\<lambda>b f. if f = Some b then None else f),
     exit_boot_services = (\<lambda>app k f. (if k = 77 then EFI_SUCCESS else EFI_LOAD_ERROR, f))\<rparr>"

definition sample_view :: "uint64 option uefi_view" where
  "sample_view = \<lparr>need = (\<lambda>f. 1500), pools = set_option, key = (\<lambda>f. 77)\<rparr>"

lemma sample_contract: "uefi_contract sample_firmware sample_view"
  by (auto simp: uefi_contract_def sample_firmware_def sample_view_def EFI_SUCCESS_def EFI_LOAD_ERROR_def
      EFI_BUFFER_TOO_SMALL_def split: if_splits)

lemma sample_firmware_left: "\<exists>f'. efi_exit_boot_services sample_firmware g None = Some (EFI_SUCCESS, f')"
proof -
  have need: "need sample_view f \<le> 1500" for f by (simp add: sample_view_def)
  have pool: "pools sample_view None = {}" by (simp add: sample_view_def)
  from efi_exit_again_outcome [OF sample_contract need _ pool, of "application_handle g" "efi_memory_desc_size * 32"]
  show ?thesis
    unfolding efi_exit_boot_services_def Let_def by (auto simp: sample_view_def sample_firmware_def)
qed


end
