(* ===== verification/Images.thy ===== *)
theory Images
  imports Loader
begin

text \<open>
  What \<^verbatim>\<open>load_images\<close> of src/common.c leaves in memory when it has loaded the kernel and one
  user image, as both \<^verbatim>\<open>main\<close> functions ask for: the two images side by side, the header page
  behind the user image, and the loader with its archive untouched.
\<close>

section \<open>A user image and its header page\<close>

text \<open>The program headers lie in the file and fit a page with the two words before them.\<close>

definition headers_fit :: "'a::len mem \<Rightarrow> 'a word \<Rightarrow> nat \<Rightarrow> bool" where
  "headers_fit m elf n \<longleftrightarrow> headers_inside m elf n \<and> header_size m elf \<le> 2 ^ PAGE_BITS"

definition image_pages :: "uint64 \<Rightarrow> uint64 \<Rightarrow> nat" where
  "image_pages mn mx = unat (ROUND_UP mx PAGE_BITS - mn)"

lemma length_placed_image:
  fixes elf dest :: "'a::len word"
  assumes kw: "kernel_word TYPE('a)" and p: "placeable cfg m elf n dest mn mx"
  shows "length (image_bytes m elf mn (unat (mx - mn))) = unat (mx - mn)"
    "unat (mx - mn) \<le> image_pages mn mx" "image_pages mn mx < 2 ^ LENGTH('a)"
    "unat dest + image_pages mn mx + 2 ^ PAGE_BITS \<le> 2 ^ LENGTH('a)"
proof -
  have "image_ok m elf n" "elf_getMemoryBounds m elf False (stack_bounds cfg) = (1, mn, mx)"
    using p by (simp_all add: placeable_def)
  from image_fits [OF this] show "length (image_bytes m elf mn (unat (mx - mn))) = unat (mx - mn)"
    by (rule length_image_bytes)
  show "unat (mx - mn) \<le> image_pages mn mx" "image_pages mn mx < 2 ^ LENGTH('a)"
    using placeable_bounds(2,3) [OF kw p] by (simp_all add: image_pages_def)
  show "unat dest + image_pages mn mx + 2 ^ PAGE_BITS \<le> 2 ^ LENGTH('a)"
    using p by (simp add: placeable_def image_pages_def)
qed

lemma load_elf_user:
  fixes elf dest :: "'a::len word"
  assumes kw: "kernel_word TYPE('a)" and p: "placeable cfg (mem s) elf n dest mn mx"
    and run: "load_elf cfg name elf dest True file_size hash s = Returns (next, info) t"
  defines "page \<equiv> dest + of_nat (image_pages mn mx)"
    and "unpacked \<equiv> write_bytes (mem s) dest (image_bytes (mem s) elf mn (unat (mx - mn)))"
  shows "\<exists>hs. mem t = write_bytes unpacked page hs \<and> length hs = header_size (mem s) elf \<and>
    (headers_inside (mem s) elf n \<and> region page (header_size (mem s) elf) \<inter> loader_region cfg = {} \<longrightarrow>
      hs = header_bytes (mem s) elf)"
proof -
  note e = load_elf_effect [OF kw p run, folded unpacked_def image_pages_def, folded page_def]
  have hw: "headers_within (mem s) elf n" and inside: "region elf n \<subseteq> loader_region cfg"
    using p by (simp_all add: placeable_def image_ok_def)
  then show ?thesis using headers_kept [OF kw hw e(6), of page "mem t"] e(5) by auto
qed

text \<open>As long as the loader's pages, which hold the archive, stay as they are, so do its files.\<close>

lemma placeable_agree:
  fixes elf dest :: "'a::len word"
  assumes kw: "kernel_word TYPE('a)" and p: "placeable cfg m elf n dest mn mx"
    and ag: "agree_on m m' (loader_region cfg)"
  shows "placeable cfg m' elf n dest mn mx"
    and "image_bytes m' elf b k = image_bytes m elf b k"
    and "image_record m' elf d v w = image_record m elf d v w"
    and "headers_inside m' elf n = headers_inside m elf n"
    and "header_size m' elf = header_size m elf"
    and "headers_inside m elf n \<Longrightarrow> header_bytes m' elf = header_bytes m elf"
proof -
  have hw: "headers_within m elf n" and inside: "region elf n \<subseteq> loader_region cfg" and ok: "image_ok m elf n"
    and n: "n \<le> 2 ^ LENGTH('a)"
    using p by (auto simp: placeable_def image_ok_def headers_within_def)
  have fag: "agree_on m m' (region elf n)" using ag inside by (auto simp: agree_on_def)
  note same = segments_agree [OF kw hw fag] file_agree [OF kw hw fag] headers_within_agree [OF kw hw fag]
    header_table_agree [OF kw hw fag]
  have "elf_getMemoryBounds m' elf False out = elf_getMemoryBounds m elf False out" for out
    by (simp add: elf_getMemoryBounds_eq same)
  then show "placeable cfg m' elf n dest mn mx"
    using p same by (simp add: placeable_def image_ok_def)
  show "image_record m' elf d v w = image_record m elf d v w"
    and "headers_inside m' elf n = headers_inside m elf n" and "header_size m' elf = header_size m elf"
    by (simp_all add: image_record_def headers_inside_def header_size_def same)
  show "header_bytes m' elf = header_bytes m elf" if "headers_inside m elf n"
    using that mem_bytes_agree [OF fag _ n] by (auto simp: headers_inside_def header_bytes_def same)
  have "put_segment m' elf b bs s = put_segment m elf b bs s"
    if "s \<in> set (loaded_segments (segments m elf))" for bs s
  proof -
    have "unat (s_offset s) + unat (s_filesz s) \<le> n"
      using ok that by (auto simp: image_ok_def loaded_segments_def)
    from mem_bytes_agree [OF fag this n] show ?thesis by (simp add: put_segment_def)
  qed
  then show "image_bytes m' elf b k = image_bytes m elf b k"
    unfolding image_bytes_def same(1) by (intro foldl_cong) simp_all
qed

section \<open>Kernel and user image\<close>

lemma load_images_one:
  fixes s :: "'a::len word machine"
  assumes run: "load_images cfg 1 s = Returns (kernel_info, [user_info]) t"
    and f: "cpio_get_file cfg (mem s) (archive_start cfg) ''kernel.elf'' = (kelf, ksize)"
    and b: "elf_getMemoryBounds (mem s) kelf True (stack_bounds cfg) = (r, kp, kp')"
  obtains nx s1 uelf uname usize nx' where
    "load_elf cfg ''kernel'' kelf (ucast kp) False ksize ''kernel.bin'' s = Returns (nx, kernel_info) s1"
    "cpio_get_entry cfg (mem s1) (archive_start cfg) 1 = (uelf, uname, usize)"
    "load_elf cfg uname uelf nx True usize ''app.bin'' s1 = Returns (nx', user_info) t"
proof -
  from run obtain nx s1 where k: "load_elf cfg ''kernel'' kelf (ucast kp) False ksize ''kernel.bin'' s =
        Returns (nx, kernel_info) s1"
    and u: "load_users cfg 1 0 nx [] s1 = Returns [user_info] t"
    unfolding load_images_def f b Let_def prod.case
    by (auto elim!: andThenE after_abort_if split: prod.splits option.splits)
  obtain uelf uname usize where e: "cpio_get_entry cfg (mem s1) (archive_start cfg) 1 = (uelf, uname, usize)"
    by (cases "cpio_get_entry cfg (mem s1) (archive_start cfg) 1") auto
  have "\<exists>nx'. load_elf cfg uname uelf nx True usize ''app.bin'' s1 = Returns (nx', user_info) t"
    using u e by (auto split: if_splits elim!: andThenE)
  then show thesis using that [OF k e] by blast
qed

text \<open>Regions one behind the other.\<close>

lemma regions_in_a_row:
  fixes p :: "'a::len word"
  assumes "i \<le> k" and "unat p + k + j \<le> 2 ^ LENGTH('a)"
  shows "region p i \<inter> region (p + of_nat k) j = {}"
proof (cases "j = 0")
  case False
  then have "unat (p + of_nat k) = unat p + k" using assms(2) by (intro unat_plus_of_nat) linarith
  then show ?thesis using assms by (intro region_disjointI) simp_all
qed (simp add: region_def)

lemma kernel_and_user_image:
  fixes s :: "'a::len word machine"
  assumes kw: "kernel_word TYPE('a)"
    and run: "load_images cfg 1 s = Returns (kernel_info, [user_info]) t"
    and f: "cpio_get_file cfg (mem s) (archive_start cfg) ''kernel.elf'' = (kelf, ksize)"
    and b: "elf_getMemoryBounds (mem s) kelf True (stack_bounds cfg) = (r, kp, kp')"
    and kernel: "placeable cfg (mem s) kelf kn (ucast kp) kmn kmx"
    and e: "\<And>m. agree_on (mem s) m (loader_region cfg) \<Longrightarrow> fst (cpio_get_entry cfg m (archive_start cfg) 1) = uelf"
  defines "udest \<equiv> ucast kp + of_nat (image_pages kmn kmx)"
  assumes user: "placeable cfg (mem s) uelf un udest umn umx"
    and fit: "headers_fit (mem s) uelf un"
  defines "page \<equiv> region (udest + of_nat (image_pages umn umx)) (header_size (mem s) uelf)"
    and "kbytes \<equiv> image_bytes (mem s) kelf kmn (unat (kmx - kmn))"
    and "ubytes \<equiv> image_bytes (mem s) uelf umn (unat (umx - umn))"
  shows "kernel_info = image_record (mem s) kelf (ucast kp) kmn (ROUND_UP kmx PAGE_BITS)"
    and "user_info = image_record (mem s) uelf udest umn (ROUND_UP umx PAGE_BITS)"
    and "mem_bytes (mem t) (ucast kp) (length kbytes) = kbytes"
    and "mem_bytes (mem t) udest (length ubytes) = ubytes"
    and "agree_on (mem s) (mem t) (loader_region cfg - page)"
    and "page \<inter> loader_region cfg = {} \<Longrightarrow> mem_bytes (mem t) (udest + of_nat (image_pages umn umx))
      (header_size (mem s) uelf) = header_bytes (mem s) uelf"
proof -
  define m1 where "m1 = write_bytes (mem s) (ucast kp) kbytes"
  obtain nx s1 uelf' uname' usize' nx' where
    k: "load_elf cfg ''kernel'' kelf (ucast kp) False ksize ''kernel.bin'' s = Returns (nx, kernel_info) s1"
    and e': "cpio_get_entry cfg (mem s1) (archive_start cfg) 1 = (uelf', uname', usize')"
    and u: "load_elf cfg uname' uelf' nx True usize' ''app.bin'' s1 = Returns (nx', user_info) t"
    by (rule load_images_one [OF run f b])
  note ke = load_elf_effect [OF kw kernel k, folded kbytes_def m1_def image_pages_def]
  note lk = length_placed_image [OF kw kernel, folded kbytes_def]
  note lu = length_placed_image [OF kw user, folded ubytes_def]
  have s1: "mem s1 = m1" and nx: "nx = udest" using ke(5) by (simp_all add: m1_def udest_def)
  have k_l: "region (ucast kp :: 'a word) (length kbytes) \<inter> loader_region cfg = {}"
    using ke(3) lk(1,2) by (auto simp: region_def disjoint_iff)
  then have ag: "agree_on (mem s) m1 (loader_region cfg)"
    unfolding m1_def agree_on_def by (auto intro: write_bytes_outside)
  note same = placeable_agree [OF kw user ag]
  have names: "uelf' = uelf" using e [OF ag] e' by (simp add: s1)
  note user' = same(1) [folded s1] and u' = u [unfolded nx names]
  note ue = load_elf_effect [OF kw user' u', folded image_pages_def]
  obtain hs where t: "mem t = write_bytes (write_bytes m1 udest ubytes) (udest + of_nat (image_pages umn umx)) hs"
    and size: "length hs = header_size (mem s) uelf"
    and kept: "page \<inter> loader_region cfg = {} \<Longrightarrow> hs = header_bytes (mem s) uelf"
    using load_elf_user [OF kw user' u'] fit same(6) unfolding s1 same(2,4,5) ubytes_def page_def headers_fit_def by auto
  have hs: "length hs \<le> 2 ^ PAGE_BITS" using fit by (simp add: size headers_fit_def)
  show "kernel_info = image_record (mem s) kelf (ucast kp) kmn (ROUND_UP kmx PAGE_BITS)" by (rule ke(4))
  show "user_info = image_record (mem s) uelf udest umn (ROUND_UP umx PAGE_BITS)" using ue(4) by (simp add: s1 same)
  have ud: "unat udest = unat (ucast kp :: 'a word) + image_pages kmn kmx"
    unfolding udest_def using lk(4) by (intro unat_plus_of_nat) (simp add: PAGE_BITS_def)
  have kb: "length kbytes < 2 ^ LENGTH('a)" and ub: "length ubytes < 2 ^ LENGTH('a)" using lk(1-3) lu(1-3) by linarith+
  have k_u: "region (ucast kp :: 'a word) (length kbytes) \<inter> region udest (length ubytes) = {}"
    unfolding udest_def using lk(1,2) lu ud by (intro regions_in_a_row) simp_all
  have at: "udest + of_nat (image_pages umn umx) = ucast kp + of_nat (image_pages kmn kmx + image_pages umn umx)"
    by (simp add: udest_def add.assoc)
  have k_h: "region (ucast kp :: 'a word) (length kbytes) \<inter> region (udest + of_nat (image_pages umn umx)) (length hs) = {}"
    unfolding at using lk(1,2) lu(4) ud hs by (intro regions_in_a_row) simp_all
  have u_h: "region udest (length ubytes) \<inter> region (udest + of_nat (image_pages umn umx)) (length hs) = {}"
    using lu hs by (intro regions_in_a_row) simp_all
  have "mem_bytes m1 (ucast kp) (length kbytes) = kbytes"
    unfolding m1_def using kb by (intro mem_bytes_write_same) simp
  then show "mem_bytes (mem t) (ucast kp) (length kbytes) = kbytes"
    unfolding t using k_u k_h kb by (simp add: mem_bytes_write_disjoint)
  have "mem_bytes (write_bytes m1 udest ubytes) udest (length ubytes) = ubytes"
    using ub by (intro mem_bytes_write_same) simp
  then show "mem_bytes (mem t) udest (length ubytes) = ubytes"
    unfolding t using u_h ub by (simp add: mem_bytes_write_disjoint)
  have "region udest (length ubytes) \<inter> loader_region cfg = {}"
    using ue(3) lu(1,2) by (auto simp: region_def disjoint_iff)
  then have "a \<notin> region (ucast kp) (length kbytes)" "a \<notin> region udest (length ubytes)"
    "a \<notin> region (udest + of_nat (image_pages umn umx)) (length hs)" if "a \<in> loader_region cfg - page" for a
    using that k_l by (auto simp: page_def size)
  then show "agree_on (mem s) (mem t) (loader_region cfg - page)"
    unfolding t m1_def agree_on_def by (simp add: write_bytes_outside)
  have "(2 :: nat) ^ PAGE_BITS < 2 ^ LENGTH('a)" using kw by (auto simp: kernel_word_def PAGE_BITS_def)
  with hs have "length hs < 2 ^ LENGTH('a)" by linarith
  then have "mem_bytes (mem t) (udest + of_nat (image_pages umn umx)) (length hs) = hs"
    unfolding t by (intro mem_bytes_write_same) simp
  then show "mem_bytes (mem t) (udest + of_nat (image_pages umn umx)) (header_size (mem s) uelf) = header_bytes (mem s) uelf"
    if "page \<inter> loader_region cfg = {}"
    using kept [OF that] unfolding size by simp
qed

text \<open>A file of the archive: where it is, how long it is, and the virtual addresses it is for.\<close>

record 'w image_file =
  file_at :: 'w
  file_len :: nat
  first_addr :: uint64
  last_addr :: uint64

definition content :: "'a::len mem \<Rightarrow> 'a word image_file \<Rightarrow> byte list" where
  "content m F = image_bytes m (file_at F) (first_addr F) (unat (last_addr F - first_addr F))"

definition pages_of :: "'a::len word image_file \<Rightarrow> 'a word" where
  "pages_of F = of_nat (image_pages (first_addr F) (last_addr F))"

definition record_of :: "'a::len mem \<Rightarrow> 'a word image_file \<Rightarrow> 'a word \<Rightarrow> 'a word image_info" where
  "record_of m F dest = image_record m (file_at F) dest (first_addr F) (ROUND_UP (last_addr F) PAGE_BITS)"

definition file_fits :: "'a::len word config \<Rightarrow> 'a mem \<Rightarrow> 'a word image_file \<Rightarrow> 'a word \<Rightarrow> bool" where
  "file_fits cfg m F dest \<longleftrightarrow> placeable cfg m (file_at F) (file_len F) dest (first_addr F) (last_addr F)"

text \<open>The archive holds the kernel \<open>kf\<close>, linked for the physical address \<open>kp\<close>, and as its second
  entry the user image \<open>uf\<close>, both in order. The archive's answer depends on its own bytes only. Where
  the header page goes, and that it is clear of the loader, is no matter of the archive.\<close>

definition header_page_at :: "'a::len word image_file \<Rightarrow> 'a word image_file \<Rightarrow> 'a word \<Rightarrow> 'a word" where
  "header_page_at kf uf kp = kp + pages_of kf + pages_of uf"

definition header_page :: "'a::len mem \<Rightarrow> 'a word image_file \<Rightarrow> 'a word image_file \<Rightarrow> 'a word \<Rightarrow> 'a word set" where
  "header_page m kf uf kp = region (header_page_at kf uf kp) (header_size m (file_at uf))"

definition header_page_clear ::
    "'a::len word config \<Rightarrow> 'a mem \<Rightarrow> 'a word \<Rightarrow> 'a word image_file \<Rightarrow> 'a word image_file \<Rightarrow> bool" where
  "header_page_clear cfg m kp kf uf \<longleftrightarrow> header_page m kf uf kp \<inter> loader_region cfg = {}"

definition archive_ok :: "'a::len word config \<Rightarrow> 'a mem \<Rightarrow> 'a word \<Rightarrow> 'a word image_file \<Rightarrow> 'a word image_file \<Rightarrow> bool" where
  "archive_ok cfg m kp kf uf \<longleftrightarrow>
     fst (cpio_get_file cfg m (archive_start cfg) ''kernel.elf'') = file_at kf \<and>
     ucast (fst (snd (elf_getMemoryBounds m (file_at kf) True (stack_bounds cfg)))) = kp \<and>
     file_fits cfg m kf kp \<and>
     (\<forall>m'. agree_on m m' (loader_region cfg) \<longrightarrow> fst (cpio_get_entry cfg m' (archive_start cfg) 1) = file_at uf) \<and>
     file_fits cfg m uf (kp + pages_of kf) \<and>
     headers_fit m (file_at uf) (file_len uf)"

lemma archive_loaded:
  fixes s :: "'a::len word machine"
  assumes kw: "kernel_word TYPE('a)" and ok: "archive_ok cfg (mem s) kp kf uf"
    and run: "load_images cfg 1 s = Returns (kernel_info, [user_info]) t"
  shows "kernel_info = record_of (mem s) kf kp" and "user_info = record_of (mem s) uf (kp + pages_of kf)"
    and "mem_bytes (mem t) kp (length (content (mem s) kf)) = content (mem s) kf"
    and "mem_bytes (mem t) (kp + pages_of kf) (length (content (mem s) uf)) = content (mem s) uf"
    and "agree_on (mem s) (mem t) (loader_region cfg - header_page (mem s) kf uf kp)"
    and "header_page_clear cfg (mem s) kp kf uf \<Longrightarrow>
      mem_bytes (mem t) (header_page_at kf uf kp) (header_size (mem s) (file_at uf)) = header_bytes (mem s) (file_at uf)"
proof -
  obtain ksize where f: "cpio_get_file cfg (mem s) (archive_start cfg) ''kernel.elf'' = (file_at kf, ksize)"
    using ok unfolding archive_ok_def by (cases "cpio_get_file cfg (mem s) (archive_start cfg) ''kernel.elf''") auto
  obtain r kp' kp'' where b: "elf_getMemoryBounds (mem s) (file_at kf) True (stack_bounds cfg) = (r, kp', kp'')"
    by (cases "elf_getMemoryBounds (mem s) (file_at kf) True (stack_bounds cfg)") auto
  have kp: "ucast kp' = kp" using ok b by (simp add: archive_ok_def)
  have e: "fst (cpio_get_entry cfg m (archive_start cfg) 1) = file_at uf" if "agree_on (mem s) m (loader_region cfg)" for m
    using ok that unfolding archive_ok_def by blast
  have k: "placeable cfg (mem s) (file_at kf) (file_len kf) (ucast kp') (first_addr kf) (last_addr kf)"
    and u: "placeable cfg (mem s) (file_at uf) (file_len uf)
      (ucast kp' + of_nat (image_pages (first_addr kf) (last_addr kf))) (first_addr uf) (last_addr uf)"
    and h: "headers_fit (mem s) (file_at uf) (file_len uf)"
    using ok by (simp_all add: archive_ok_def file_fits_def pages_of_def kp)
  note l = kernel_and_user_image [OF kw run f b k e u h]
  show "kernel_info = record_of (mem s) kf kp" and "user_info = record_of (mem s) uf (kp + pages_of kf)"
    and "mem_bytes (mem t) kp (length (content (mem s) kf)) = content (mem s) kf"
    and "mem_bytes (mem t) (kp + pages_of kf) (length (content (mem s) uf)) = content (mem s) uf"
    and "agree_on (mem s) (mem t) (loader_region cfg - header_page (mem s) kf uf kp)"
    and "header_page_clear cfg (mem s) kp kf uf \<Longrightarrow>
      mem_bytes (mem t) (header_page_at kf uf kp) (header_size (mem s) (file_at uf)) = header_bytes (mem s) (file_at uf)"
    using l by (simp_all add: record_of_def content_def pages_of_def header_page_clear_def header_page_def header_page_at_def kp)
qed

text \<open>And such an archive is loaded, when the files are linked for page boundaries, no image would
  meet the loader, and hashes are not checked.\<close>

definition archive_clear :: "'a::len word config \<Rightarrow> 'a word \<Rightarrow> 'a word image_file \<Rightarrow> 'a word image_file \<Rightarrow> bool" where
  "archive_clear cfg kp kf uf \<longleftrightarrow> hash_cfg cfg = HASH_NONE \<and> file_at kf \<noteq> 0 \<and> file_at uf \<noteq> 0 \<and>
     (\<forall>m. fst (snd (cpio_get_entry cfg m (archive_start cfg) 0)) = ''kernel.elf'') \<and>
     IS_ALIGNED kp PAGE_BITS \<and> IS_ALIGNED (first_addr kf) PAGE_BITS \<and> IS_ALIGNED (first_addr uf) PAGE_BITS \<and>
     region kp (image_pages (first_addr kf) (last_addr kf)) \<inter> loader_region cfg = {} \<and>
     region (kp + pages_of kf) (image_pages (first_addr uf) (last_addr uf)) \<inter> loader_region cfg = {}"

lemma kernel_literal: "strcmp (str_lit ''kernel.elf'') (str_lit ''kernel.elf'') = Some 0"
proof -
  have "is_cstr (str_lit ''kernel.elf'') [0x6b, 0x65, 0x72, 0x6e, 0x65, 0x6c, 0x2e, 0x65, 0x6c, 0x66]"
    by (simp add: is_cstr_Cons str_lit_def)
  from strcmp_order [OF this this] show ?thesis by auto
qed

lemma archive_loads:
  fixes s :: "'a::len word machine"
  assumes kw: "kernel_word TYPE('a)" and ok: "archive_ok cfg (mem s) kp kf uf" and clear: "archive_clear cfg kp kf uf"
  shows "\<exists>ki ui t. load_images cfg 1 s = Returns (ki, [ui]) t"
proof -
  let ?kpages = "image_pages (first_addr kf) (last_addr kf)" and ?upages = "image_pages (first_addr uf) (last_addr uf)"
  have nohash: "hash_cfg cfg = HASH_NONE"
    and al: "IS_ALIGNED kp PAGE_BITS" "IS_ALIGNED (first_addr kf) PAGE_BITS" "IS_ALIGNED (first_addr uf) PAGE_BITS"
    and apart: "region kp ?kpages \<inter> loader_region cfg = {}" "region (kp + pages_of kf) ?upages \<inter> loader_region cfg = {}"
    using clear by (simp_all add: archive_clear_def)
  have p: "placeable cfg (mem s) (file_at kf) (file_len kf) kp (first_addr kf) (last_addr kf)"
    and q: "placeable cfg (mem s) (file_at uf) (file_len uf) (kp + pages_of kf) (first_addr uf) (last_addr uf)"
    using ok by (simp_all add: archive_ok_def file_fits_def)
  obtain ksize where f: "cpio_get_file cfg (mem s) (archive_start cfg) ''kernel.elf'' = (file_at kf, ksize)"
    using ok unfolding archive_ok_def by (cases "cpio_get_file cfg (mem s) (archive_start cfg) ''kernel.elf''") auto
  obtain r kp' kp'' where b: "elf_getMemoryBounds (mem s) (file_at kf) True (stack_bounds cfg) = (r, kp', kp'')"
    by (cases "elf_getMemoryBounds (mem s) (file_at kf) True (stack_bounds cfg)") auto
  have kp: "ucast kp' = kp" using ok b by (simp add: archive_ok_def)
  obtain nx ki s1 where k: "load_elf cfg ''kernel'' (file_at kf) kp False ksize ''kernel.bin'' s = Returns (nx, ki) s1"
    using load_elf_runs [OF kw p nohash al(1,2) apart(1) [unfolded image_pages_def], of "''kernel''" False ksize "''kernel.bin''"]
    by auto
  note e = load_elf_effect [OF kw p k]
  have nx: "nx = kp + pages_of kf" using e(5) by (simp add: pages_of_def image_pages_def)
  note lk = length_placed_image [OF kw p]
  have "region kp (unat (last_addr kf - first_addr kf)) \<inter> loader_region cfg = {}"
    using apart(1) lk(2) by (auto simp: region_def disjoint_iff)
  then have ag: "agree_on (mem s) (mem s1) (loader_region cfg)"
    using e(5) lk(1) by (auto simp: agree_on_def intro!: write_bytes_outside)
  note q1 = placeable_agree(1) [OF kw q ag]
  have "2 ^ PAGE_BITS dvd ?kpages" using placeable_bounds(7) [OF kw p al(2)] by (simp add: image_pages_def)
  moreover have "unat (kp + pages_of kf) = unat kp + ?kpages"
    unfolding pages_of_def using lk(4) by (intro unat_plus_of_nat) (simp add: PAGE_BITS_def)
  ultimately have al': "IS_ALIGNED (kp + pages_of kf) PAGE_BITS" using al(1) by (simp add: IS_ALIGNED_iff_dvd)
  obtain uname usize where e1: "cpio_get_entry cfg (mem s1) (archive_start cfg) 1 = (file_at uf, uname, usize)"
    using ok ag unfolding archive_ok_def by (cases "cpio_get_entry cfg (mem s1) (archive_start cfg) 1") auto
  obtain size0 at0 where e0: "cpio_get_entry cfg (mem s1) (archive_start cfg) 0 = (at0, ''kernel.elf'', size0)"
    using clear unfolding archive_clear_def by (metis prod.collapse)
  obtain nx' ui t where u: "load_elf cfg uname (file_at uf) (kp + pages_of kf) True usize ''app.bin'' s1 = Returns (nx', ui) t"
    using load_elf_runs [OF kw q1 nohash al' al(3) apart(2) [unfolded image_pages_def], of uname True usize "''app.bin''"]
    by auto
  have "elf_checkFile (mem s) (file_at kf) = 0" "file_at kf \<noteq> 0" "file_at uf \<noteq> 0"
    using p clear by (simp_all add: placeable_def image_ok_def archive_clear_def)
  then have "load_images cfg 1 s = Returns (ki, [ui]) t"
    using k u kernel_literal unfolding load_images_def f b Let_def prod.case kp
    by (simp add: abort_if_False andThen_def ret_def nx e0 e1 [unfolded One_nat_def])
  then show ?thesis by blast
qed

section \<open>A kernel and a user image\<close>

text \<open>The loader at [0x10000, 0x11000) holds one file, which the archive lists both as the kernel
  and as the user image: a segment of four bytes and four zeros for 0xe0000000, physically
  0x10000000.\<close>

definition kernel_file :: "byte list" where
  "kernel_file = [
    0x7f, 0x45, 0x4c, 0x46, 0x01, 0x01, 0x01, 0x00, 0x00, 0x00, 0x00, 0x00, 0x00, 0x00, 0x00, 0x00,
    0x02, 0x00, 0x28, 0x00, 0x01, 0x00, 0x00, 0x00, 0x04, 0x00, 0x00, 0xe0, 0x34, 0x00, 0x00, 0x00,
    0x00, 0x00, 0x00, 0x00, 0x00, 0x00, 0x00, 0x00, 0x34, 0x00, 0x20, 0x00, 0x01, 0x00, 0x28, 0x00,
    0x00, 0x00, 0x00, 0x00, 0x01, 0x00, 0x00, 0x00, 0x54, 0x00, 0x00, 0x00, 0x00, 0x00, 0x00, 0xe0,
    0x00, 0x00, 0x00, 0x10, 0x04, 0x00, 0x00, 0x00, 0x08, 0x00, 0x00, 0x00, 0x07, 0x00, 0x00, 0x00,
    0x00, 0x10, 0x00, 0x00, 0x01, 0x02, 0x03, 0x04]"

definition kernel_mem :: "32 mem" where
  "kernel_mem = write_bytes (\<lambda>_. 0xaa) 0x10000 kernel_file"

definition pair_config :: "32 word config" where
  "pair_config = \<lparr>start_sym = 0x10000, end_sym = 0x11000, archive_start = 0x10000, hash_cfg = HASH_NONE,
     cpio_get_file = (\<lambda>m a name. (0x10000, 88)),
     cpio_get_entry = (\<lambda>m a i. if i = 0 then (0x10000, ''kernel.elf'', 88)
       else if i = 1 then (0x10000, ''app'', 88) else (0, [], 0)),
     stack_ctx = \<lparr>len = 0, h = [], buf = replicate 64 0\<rparr>, stack_bounds = (0, 0)\<rparr>"

definition pair_machine :: "32 word machine" where
  "pair_machine = \<lparr>mem = kernel_mem, console = []\<rparr>"

lemma kernel_header:
  "read_Elf32_Header kernel_mem 0x10000 =
    \<lparr>Elf32_Header.e_ident = [0x7f, 0x45, 0x4c, 0x46, 1, 1, 1, 0, 0, 0, 0, 0, 0, 0, 0, 0], Elf32_Header.e_type = 2, Elf32_Header.e_machine = 40,
     Elf32_Header.e_version = 1, Elf32_Header.e_entry = 0xe0000004, Elf32_Header.e_phoff = 52,
     Elf32_Header.e_shoff = 0, Elf32_Header.e_flags = 0, Elf32_Header.e_ehsize = 52,
     Elf32_Header.e_phentsize = 32, Elf32_Header.e_phnum = 1, Elf32_Header.e_shentsize = 40,
     Elf32_Header.e_shnum = 0, Elf32_Header.e_shstrndx = 0\<rparr>"
  by code_simp

lemma kernel_phdr:
  "read_Elf32_Phdr kernel_mem 0x10034 =
    \<lparr>Elf32_Phdr.p_type = 1, p_offset = 84, p_vaddr = 0xe0000000, p_paddr = 0x10000000, p_filesz = 4,
     p_memsz = 8, p_flags = 7, p_align = 0x1000\<rparr>"
  by code_simp

lemma kernel_accessors:
  "ISELF32 kernel_mem 0x10000" "elf_checkFile kernel_mem 0x10000 = 0"
  "elf_getNumProgramHeaders kernel_mem 0x10000 = 1"
  "Elf32_Header.e_phoff (read_Elf32_Header kernel_mem 0x10000) = 52"
  "elf_getEntryPoint kernel_mem 0x10000 = 0xe0000004"
  "header_table kernel_mem 0x10000 = (1, 32, 0x10034)"
  by (simp_all add: ISELF32_def elf_checkFile_def elf32_checkFile_def elf_getNumProgramHeaders_def
      elf32_getNumProgramHeaders_def elf_getEntryPoint_def elf32_getEntryPoint_def header_table_def
      elf32_getProgramHeaderTable_def kernel_header EI_CLASS_def ELFCLASS32_def ELFMAG_def upt_rec)

lemma kernel_segments:
  "segments kernel_mem 0x10000 =
    [\<lparr>s_type = 1, s_vaddr = 0xe0000000, s_paddr = 0x10000000, s_filesz = 4, s_offset = 84, s_memsz = 8\<rparr>]"
  by (simp add: segments_def segment_of_def kernel_accessors elf_header_defs elf32_phdr_def
      elf32_getProgramHeaderTable_def kernel_phdr)

lemma kernel_bounds: "elf_getMemoryBounds kernel_mem 0x10000 phys out =
    (1, if phys then (0x10000000, 0x10000008) else (0xe0000000, 0xe0000008))"
proof -
  have "{s \<in> set (segments kernel_mem 0x10000). s_memsz s \<noteq> 0} = set (segments kernel_mem 0x10000)"
    by (auto simp: kernel_segments)
  then show ?thesis
    by (simp add: elf_getMemoryBounds_eq kernel_accessors kernel_segments s_start_def s_end_def UINT64_MAX_def)
qed

lemma kernel_round_up: "ROUND_UP (0xe0000008 :: uint64) PAGE_BITS = 0xe0001000"
  by code_simp

lemma kernel_pages: "image_pages 0xe0000000 0xe0000008 = 0x1000"
  by (simp add: image_pages_def kernel_round_up)

definition kernel_content :: "byte list" where
  "kernel_content = [1, 2, 3, 4, 0, 0, 0, 0]"

lemma length_kernel_content [simp]: "length kernel_content = 8"
  by (simp add: kernel_content_def)

lemma kernel_image: "image_bytes kernel_mem 0x10000 0xe0000000 8 = kernel_content"
proof -
  have "mem_bytes kernel_mem 0x10054 4 = [1, 2, 3, 4]" by code_simp
  moreover have "replicate 8 (0 :: byte) = [0, 0, 0, 0, 0, 0, 0, 0]" by (simp add: numeral_eq_Suc)
  ultimately show ?thesis
    by (simp add: kernel_content_def image_bytes_def kernel_segments loaded_segments_def put_segment_def buf_put_def PT_LOAD_def)
qed

lemma pair_region: "loader_region pair_config = {0x10000 .. 0x10fff}"
  by (simp add: loader_region_def pair_config_def)

lemma pair_apart: "unat p + n \<le> 0x10000 \<or> 0x11000 \<le> unat p \<Longrightarrow> unat p + n \<le> 2 ^ 32 \<Longrightarrow>
    region p n \<inter> loader_region pair_config = {}"
  using region_interval [of p n] by (auto simp: pair_region word_le_nat_alt)

lemma pair_placeable:
  assumes "unat dest + 0x2000 \<le> 2 ^ 32"
  shows "placeable pair_config kernel_mem 0x10000 88 dest 0xe0000000 0xe0000008"
proof -
  have "headers_within kernel_mem 0x10000 88" by (simp add: headers_within_def kernel_accessors)
  then show ?thesis
    using assms region_interval [of "0x10000 :: 32 word" 88]
    by (auto simp: placeable_def image_ok_def kernel_segments kernel_accessors kernel_bounds
        kernel_round_up [unfolded PAGE_BITS_def] loader_region_def PAGE_BITS_def word_le_nat_alt pair_config_def)
qed

lemma pair_headers: "headers_fit kernel_mem 0x10000 88" "header_size kernel_mem 0x10000 = 40"
  by (auto simp: headers_fit_def headers_inside_def header_size_def kernel_accessors PAGE_BITS_def intro!: exI [of _ 52])

definition pair_file :: "32 word image_file" where
  "pair_file = \<lparr>file_at = 0x10000, file_len = 88, first_addr = 0xe0000000, last_addr = 0xe0000008\<rparr>"

lemma pair_archive_ok: "archive_ok pair_config kernel_mem 0x10000000 pair_file pair_file"
proof -
  have "fst (cpio_get_file pair_config m a n) = 0x10000" "fst (cpio_get_entry pair_config m a 1) = 0x10000" for m a n
    by (simp_all add: pair_config_def)
  then show ?thesis
    using pair_placeable [of "0x10000000"] pair_placeable [of "0x10001000"] pair_headers
    by (simp add: archive_ok_def file_fits_def pages_of_def pair_file_def kernel_bounds kernel_pages)
qed

lemma pair_file_at: "file_at pair_file = 0x10000"
  by (simp add: pair_file_def)

lemma pair_clear: "header_page_clear pair_config kernel_mem 0x10000000 pair_file pair_file"
proof -
  have "header_page_at pair_file pair_file 0x10000000 = 0x10002000"
    by (simp add: header_page_at_def pages_of_def pair_file_def kernel_pages)
  moreover have "header_size kernel_mem (file_at pair_file) = 40" by (simp add: pair_file_at pair_headers)
  ultimately show ?thesis
    using pair_apart [of "0x10002000" 40] by (simp add: header_page_clear_def header_page_def)
qed

lemma pair_content: "content kernel_mem pair_file = kernel_content"
  by (simp add: content_def pair_file_def kernel_image)

lemma pair_record: "record_of kernel_mem pair_file dest =
    \<lparr>phys_region_start = dest, phys_region_end = dest + 0x1000, virt_region_start = 0xe0000000,
     virt_region_end = 0xe0001000, virt_entry = 0xe0000004, phys_virt_offset = dest - 0xe0000000\<rparr>"
  by (simp add: record_of_def image_record_def pair_file_def kernel_round_up kernel_accessors)

lemma pair_archive_clear: "archive_clear pair_config 0x10000000 pair_file pair_file"
proof -
  have "IS_ALIGNED (0x10000000 :: 32 word) PAGE_BITS" "IS_ALIGNED (0xe0000000 :: uint64) PAGE_BITS" by code_simp+
  then show ?thesis
    using pair_apart [of "0x10000000" "0x1000"] pair_apart [of "0x10001000" "0x1000"]
    by (simp add: archive_clear_def pair_file_def pages_of_def kernel_pages) (simp add: pair_config_def)
qed

lemma pair_loads:
  "mem s = kernel_mem \<Longrightarrow> \<exists>ki ui t. load_images pair_config 1 s = Returns (ki, [ui]) t"
  using archive_loads [OF sample_word _ pair_archive_clear, of s] pair_archive_ok by simp

section \<open>Properties\<close>

text \<open>C6: When \<^verbatim>\<open>load_images\<close> has loaded a kernel and one user image, both from files in order,
  both images are complete in memory: the kernel's at its physical address, the user's on the page
  behind it, neither damaged by the other or by the header page; the records handed to the kernel
  describe these places. The loader's own pages, with the archive, are as they were, except where the
  header page lies on them, which no check prevents; if it does not, it holds the user image's
  program headers.\<close>

theorem loaded_images_in_memory:
  fixes s :: "'a::len word machine"
  assumes "kernel_word TYPE('a)" and "archive_ok cfg (mem s) kp kf uf"
    and "load_images cfg 1 s = Returns (kernel_info, [user_info]) t"
  shows "kernel_info = record_of (mem s) kf kp \<and> user_info = record_of (mem s) uf (kp + pages_of kf) \<and>
    mem_bytes (mem t) kp (length (content (mem s) kf)) = content (mem s) kf \<and>
    mem_bytes (mem t) (kp + pages_of kf) (length (content (mem s) uf)) = content (mem s) uf \<and>
    agree_on (mem s) (mem t) (loader_region cfg - header_page (mem s) kf uf kp) \<and>
    (header_page_clear cfg (mem s) kp kf uf \<longrightarrow>
      mem_bytes (mem t) (header_page_at kf uf kp) (header_size (mem s) (file_at uf)) = header_bytes (mem s) (file_at uf))"
  using archive_loaded [OF assms] by blast

theorem loaded_images_in_memory_witness:
  "\<exists>ki ui t. load_images pair_config 1 pair_machine = Returns (ki, [ui]) t \<and>
    mem_bytes (mem t) 0x10000000 8 = kernel_content \<and> mem_bytes (mem t) 0x10001000 8 = kernel_content \<and>
    mem_bytes (mem t) 0x10002000 40 = header_bytes kernel_mem 0x10000"
proof -
  have m: "mem pair_machine = kernel_mem" by (simp add: pair_machine_def)
  obtain ki ui t where run: "load_images pair_config 1 pair_machine = Returns (ki, [ui]) t"
    using pair_loads [OF m] by blast
  have "pages_of pair_file = 0x1000" by (simp add: pages_of_def pair_file_def kernel_pages)
  moreover note pair_clear
  ultimately show ?thesis
    using run loaded_images_in_memory [OF sample_word pair_archive_ok [folded m] run]
    by (auto simp: m pair_content header_page_at_def pair_headers pair_file_at)
qed



end
