(* ===== verification/Images64.thy ===== *)
theory Images64
  imports Images
begin

text \<open>
  An archive for the 64-bit ports: the loader at [0x10000, 0x11000) holds one ELF64 file, which
  the archive lists both as the kernel and as the user image. Its segment of four bytes and
  four zeros is for 0xffffffc000000000, the first gigabyte of the upper half of Sv39, physically
  0x40200000. It shows that the hypotheses about archives can be met on a 64-bit machine.
\<close>

definition kernel64_file :: "byte list" where
  "kernel64_file = [
    0x7f, 0x45, 0x4c, 0x46, 0x02, 0x01, 0x01, 0x00, 0x00, 0x00, 0x00, 0x00, 0x00, 0x00, 0x00, 0x00,
    0x02, 0x00, 0xb7, 0x00, 0x01, 0x00, 0x00, 0x00, 0x04, 0x00, 0x00, 0x00, 0xc0, 0xff, 0xff, 0xff,
    0x40, 0x00, 0x00, 0x00, 0x00, 0x00, 0x00, 0x00, 0x00, 0x00, 0x00, 0x00, 0x00, 0x00, 0x00, 0x00,
    0x00, 0x00, 0x00, 0x00, 0x40, 0x00, 0x38, 0x00, 0x01, 0x00, 0x40, 0x00, 0x00, 0x00, 0x00, 0x00,
    0x01, 0x00, 0x00, 0x00, 0x07, 0x00, 0x00, 0x00, 0x78, 0x00, 0x00, 0x00, 0x00, 0x00, 0x00, 0x00,
    0x00, 0x00, 0x00, 0x00, 0xc0, 0xff, 0xff, 0xff, 0x00, 0x00, 0x20, 0x40, 0x00, 0x00, 0x00, 0x00,
    0x04, 0x00, 0x00, 0x00, 0x00, 0x00, 0x00, 0x00, 0x08, 0x00, 0x00, 0x00, 0x00, 0x00, 0x00, 0x00,
    0x00, 0x10, 0x00, 0x00, 0x00, 0x00, 0x00, 0x00, 0x01, 0x02, 0x03, 0x04]"

definition kernel64_mem :: "64 mem" where
  "kernel64_mem = write_bytes (\<lambda>_. 0xaa) 0x10000 kernel64_file"

definition pair64_config :: "64 word config" where
  "pair64_config = \<lparr>start_sym = 0x10000, end_sym = 0x11000, archive_start = 0x10000, hash_cfg = HASH_NONE,
     cpio_get_file = (\<lambda>m a name. (0x10000, 124)),
     cpio_get_entry = (\<lambda>m a i. if i = 0 then (0x10000, ''kernel.elf'', 124)
       else if i = 1 then (0x10000, ''app'', 124) else (0, [], 0)),
     stack_ctx = \<lparr>len = 0, h = [], buf = replicate 64 0\<rparr>, stack_bounds = (0, 0)\<rparr>"

definition pair64_file :: "64 word image_file" where
  "pair64_file = \<lparr>file_at = 0x10000, file_len = 124,
     first_addr = 0xffffffc000000000, last_addr = 0xffffffc000000008\<rparr>"

lemma word64: "kernel_word TYPE(64)"
  by (simp add: kernel_word_def)

lemma kernel64_header:
  "read_Elf64_Header kernel64_mem 0x10000 =
    \<lparr>Elf64_Header.e_ident = [0x7f, 0x45, 0x4c, 0x46, 2, 1, 1, 0, 0, 0, 0, 0, 0, 0, 0, 0], Elf64_Header.e_type = 2, Elf64_Header.e_machine = 183,
     Elf64_Header.e_version = 1, Elf64_Header.e_entry = 0xffffffc000000004, Elf64_Header.e_phoff = 64,
     Elf64_Header.e_shoff = 0, Elf64_Header.e_flags = 0, Elf64_Header.e_ehsize = 64,
     Elf64_Header.e_phentsize = 56, Elf64_Header.e_phnum = 1, Elf64_Header.e_shentsize = 64,
     Elf64_Header.e_shnum = 0, Elf64_Header.e_shstrndx = 0\<rparr>"
  by code_simp

lemma kernel64_ident: "Elf32_Header.e_ident (read_Elf32_Header kernel64_mem 0x10000) ! EI_CLASS = 2"
  by code_simp

lemma kernel64_phdr:
  "read_Elf64_Phdr kernel64_mem 0x10040 =
    \<lparr>Elf64_Phdr.p_type = 1, p_flags = 7, p_offset = 120, p_vaddr = 0xffffffc000000000,
     p_paddr = 0x40200000, p_filesz = 4, p_memsz = 8, p_align = 0x1000\<rparr>"
  by code_simp

lemma kernel64_table: "elf64_getProgramHeaderTable kernel64_mem 0x10000 = 0x10040"
  using kernel64_header by (simp add: elf64_getProgramHeaderTable_def elf64_read64_load read_Elf64_Header_def)

lemma kernel64_accessors:
  "\<not> ISELF32 kernel64_mem 0x10000" "elf_checkFile kernel64_mem 0x10000 = 0"
  "elf_getNumProgramHeaders kernel64_mem 0x10000 = 1"
  "elf_getEntryPoint kernel64_mem 0x10000 = 0xffffffc000000004"
  "header_table kernel64_mem 0x10000 = (1, 56, 0x10040)"
proof -
  show 32: "\<not> ISELF32 kernel64_mem 0x10000"
    using kernel64_ident by (simp add: ISELF32_def ELFCLASS32_def)
  show "elf_checkFile kernel64_mem 0x10000 = 0"
    by (simp add: elf_checkFile_def 32 elf64_checkFile_def kernel64_header EI_CLASS_def ELFCLASS64_def ELFMAG_def)
  show "elf_getNumProgramHeaders kernel64_mem 0x10000 = 1"
    by (simp add: elf_getNumProgramHeaders_def 32 elf64_getNumProgramHeaders_def kernel64_header)
  then show "header_table kernel64_mem 0x10000 = (1, 56, 0x10040)"
    by (simp add: header_table_def 32 kernel64_header kernel64_table)
  show "elf_getEntryPoint kernel64_mem 0x10000 = 0xffffffc000000004"
    using kernel64_header
    by (simp add: elf_getEntryPoint_def 32 elf64_getEntryPoint_def elf64_read64_load read_Elf64_Header_def)
qed

lemma kernel64_segments:
  "segments kernel64_mem 0x10000 =
    [\<lparr>s_type = 1, s_vaddr = 0xffffffc000000000, s_paddr = 0x40200000, s_filesz = 4, s_offset = 120, s_memsz = 8\<rparr>]"
  by (simp add: segments_def segment_of_def kernel64_accessors elf_header_defs elf64_fields elf64_phdr_addr_def
      kernel64_table kernel64_phdr)

lemma kernel64_bounds: "elf_getMemoryBounds kernel64_mem 0x10000 phys out =
    (1, if phys then (0x40200000, 0x40200008) else (0xffffffc000000000, 0xffffffc000000008))"
proof -
  have "{s \<in> set (segments kernel64_mem 0x10000). s_memsz s \<noteq> 0} = set (segments kernel64_mem 0x10000)"
    by (auto simp: kernel64_segments)
  then show ?thesis
    by (simp add: elf_getMemoryBounds_eq kernel64_accessors kernel64_segments s_start_def s_end_def UINT64_MAX_def)
qed

lemma kernel64_round_up: "ROUND_UP (0xffffffc000000008 :: uint64) PAGE_BITS = 0xffffffc000001000"
  by code_simp

lemma kernel64_pages: "image_pages 0xffffffc000000000 0xffffffc000000008 = 0x1000"
  by (simp add: image_pages_def kernel64_round_up)

lemma kernel64_image: "image_bytes kernel64_mem 0x10000 0xffffffc000000000 8 = kernel_content"
proof -
  have "mem_bytes kernel64_mem 0x10078 4 = [1, 2, 3, 4]" by code_simp
  moreover have "replicate 8 (0 :: byte) = [0, 0, 0, 0, 0, 0, 0, 0]" by (simp add: numeral_eq_Suc)
  ultimately show ?thesis
    by (simp add: kernel_content_def image_bytes_def kernel64_segments loaded_segments_def put_segment_def buf_put_def PT_LOAD_def)
qed

lemma pair64_region: "loader_region pair64_config = {0x10000 .. 0x10fff}"
  by (simp add: loader_region_def pair64_config_def)

lemma pair64_apart: "0x11000 \<le> unat p \<Longrightarrow> unat p + n \<le> 2 ^ 64 \<Longrightarrow> region p n \<inter> loader_region pair64_config = {}"
  using region_interval [of p n] by (auto simp: pair64_region word_le_nat_alt)

lemma pair64_placeable:
  assumes "unat dest + 0x2000 \<le> 2 ^ 64"
  shows "placeable pair64_config kernel64_mem 0x10000 124 dest 0xffffffc000000000 0xffffffc000000008"
proof -
  have "headers_within kernel64_mem 0x10000 124"
    by (simp add: headers_within_def kernel64_accessors kernel64_header)
  then show ?thesis
    using assms region_interval [of "0x10000 :: 64 word" 124]
    by (auto simp: placeable_def image_ok_def kernel64_segments kernel64_accessors kernel64_bounds
        kernel64_round_up [unfolded PAGE_BITS_def] loader_region_def PAGE_BITS_def word_le_nat_alt pair64_config_def)
qed

lemma pair64_headers: "headers_fit kernel64_mem 0x10000 124" "header_size kernel64_mem 0x10000 = 64"
  by (auto simp: headers_fit_def headers_inside_def header_size_def kernel64_accessors PAGE_BITS_def intro!: exI [of _ 64])

lemma pair64_clear: "header_page_clear pair64_config kernel64_mem 0x40200000 pair64_file pair64_file"
proof -
  have "header_page_at pair64_file pair64_file 0x40200000 = 0x40202000"
    by (simp add: header_page_at_def pages_of_def pair64_file_def kernel64_pages)
  moreover have "header_size kernel64_mem (file_at pair64_file) = 64" by (simp add: pair64_file_def pair64_headers)
  ultimately show ?thesis
    using pair64_apart [of "0x40202000" 64] by (simp add: header_page_clear_def header_page_def)
qed

lemma pair64_archive_ok: "archive_ok pair64_config kernel64_mem 0x40200000 pair64_file pair64_file"
proof -
  have "fst (cpio_get_file pair64_config m a n) = 0x10000" "fst (cpio_get_entry pair64_config m a 1) = 0x10000" for m a n
    by (simp_all add: pair64_config_def)
  then show ?thesis
    using pair64_placeable [of "0x40200000"] pair64_placeable [of "0x40201000"] pair64_headers
    by (simp add: archive_ok_def file_fits_def pages_of_def pair64_file_def kernel64_bounds kernel64_pages)
qed

lemma pair64_archive_clear: "archive_clear pair64_config 0x40200000 pair64_file pair64_file"
proof -
  have "IS_ALIGNED (0x40200000 :: 64 word) PAGE_BITS" "IS_ALIGNED (0xffffffc000000000 :: uint64) PAGE_BITS" by code_simp+
  then show ?thesis
    using pair64_apart [of "0x40200000" "0x1000"] pair64_apart [of "0x40201000" "0x1000"]
    by (simp add: archive_clear_def pair64_file_def pages_of_def kernel64_pages) (simp add: pair64_config_def)
qed

lemma pair64_loads:
  "mem s = kernel64_mem \<Longrightarrow> \<exists>ki ui t. load_images pair64_config 1 s = Returns (ki, [ui]) t"
  using archive_loads [OF word64 _ pair64_archive_clear, of s] pair64_archive_ok by simp

lemma pair64_content: "content kernel64_mem pair64_file = kernel_content"
  by (simp add: content_def pair64_file_def kernel64_image)

lemma pair64_record: "record_of kernel64_mem pair64_file dest =
    \<lparr>phys_region_start = dest, phys_region_end = dest + 0x1000, virt_region_start = 0xffffffc000000000,
     virt_region_end = 0xffffffc000001000, virt_entry = 0xffffffc000000004, phys_virt_offset = dest - 0xffffffc000000000\<rparr>"
  by (simp add: record_of_def image_record_def pair64_file_def kernel64_round_up kernel64_accessors)

end
