(* ===== verification/Refusals.thy ===== *)
theory Refusals
  imports Images
begin

text \<open>
  When src/common.c refuses to load the kernel: the message it ends with, for every check it makes,
  in the order it makes them, and that nothing has been written to memory by then.
\<close>

section \<open>Ending with a message\<close>

definition refuses :: "('r, 'a::len word machine) prog \<Rightarrow> 'a word machine \<Rightarrow> string \<Rightarrow> bool" where
  "refuses p s msg \<longleftrightarrow> (\<exists>u. p s = Aborts (s\<lparr>console := console s @ u @ msg @ line ''abort() called.''\<rparr>))"

lemma refuses_abort_if:
  fixes args :: "'a::len word varg list"
  assumes "kernel_word TYPE('a)" and "formatted fmt args = Some msg"
  shows "refuses (andThen (abort_if True fmt args) q) s msg"
  using assms by (simp add: refuses_def andThen_def abort_if_def abort_def pr_formatted)
    (simp add: formatted_eval line_def exI [of _ "[]"])

lemma refuses_pr:
  fixes args :: "'a::len word varg list"
  assumes kw: "kernel_word TYPE('a)" and "formatted fmt args = Some u" and "\<And>s'. mem s' = mem s \<Longrightarrow> refuses (q ()) s' msg"
  shows "refuses (andThen (pr fmt args) q) s msg"
proof -
  let ?s = "s\<lparr>console := console s @ u\<rparr>"
  obtain v where "q () ?s = Aborts (?s\<lparr>console := console ?s @ v @ msg @ line ''abort() called.''\<rparr>)"
    using assms(3) [of ?s] unfolding refuses_def by auto
  then show ?thesis
    unfolding refuses_def by (intro exI [of _ "u @ v"]) (simp add: andThen_def pr_prints [OF kw assms(2)])
qed

lemma refuses_ret: "refuses (q r) s msg \<Longrightarrow> refuses (andThen (ret r) q) s msg"
  by (simp add: refuses_def andThen_def ret_def)

lemma refuses_first: "refuses p s msg \<Longrightarrow> refuses (andThen p q) s msg"
  by (auto simp: refuses_def andThen_def)

lemmas refuses_rules = refuses_abort_if [unfolded refuses_def] refuses_pr [unfolded refuses_def]

section \<open>One file\<close>

text \<open>The message for a file in order that is to go to \<open>dest\<close>, in memory without hash checking.\<close>

definition place_refusal :: "'a::len word config \<Rightarrow> string \<Rightarrow> 'a word \<Rightarrow> uint64 \<Rightarrow> uint64 \<Rightarrow> string option" where
  "place_refusal cfg name dest mn mx =
     (if \<not> IS_ALIGNED dest PAGE_BITS then Some (line ''Attempting to load ELF at unaligned physical address!'')
      else if \<not> IS_ALIGNED mn PAGE_BITS then Some (''Start of image '' @ [CHR 0x27] @ name @ [CHR 0x27] @ line '' is not 4K-aligned!'')
      else if region dest (unat (ROUND_UP mx PAGE_BITS - mn)) \<inter> loader_region cfg \<noteq> {}
      then Some (line ''Kernel load address would overlap ELF-loader!'')
      else None)"

lemma load_elf_refuses:
  fixes elf dest :: "'a::len word"
  assumes kw: "kernel_word TYPE('a)" and p: "placeable cfg (mem s) elf n dest mn mx"
    and nohash: "hash_cfg cfg = HASH_NONE" and msg: "place_refusal cfg name dest mn mx = Some msg"
  shows "refuses (load_elf cfg name elf dest keep file_size hash) s msg"
proof -
  have b: "elf_getMemoryBounds (mem s) elf False (stack_bounds cfg) = (1, mn, mx)"
    and valid: "elf_checkFile (mem s) elf = 0"
    using p by (simp_all add: placeable_def image_ok_def)
  note bounds = placeable_bounds [OF kw p]
  let ?k = "unat (ROUND_UP mx PAGE_BITS - mn)"
  have ov: "regions_overlap dest (dest + ucast (ROUND_UP mx PAGE_BITS - mn) - 1) (start_sym cfg) (end_sym cfg - 1) \<longleftrightarrow>
      region dest ?k \<inter> loader_region cfg \<noteq> {}"
    unfolding bounds(8) using regions_overlap_iff [OF _ bounds(4,5)] bounds(1,2) by (simp add: loader_region_def)
  have al2: "IS_ALIGNED dest 2" if "IS_ALIGNED dest PAGE_BITS"
    using that dvd_trans [of "4 :: nat" 4096] by (simp add: IS_ALIGNED_iff_dvd PAGE_BITS_def)
  note unf = load_elf_def b Let_def prod.case ensure_phys_range_valid_def nohash ov valid simp_thms if_True
  consider (dest) "\<not> IS_ALIGNED dest PAGE_BITS" | (start) "IS_ALIGNED dest PAGE_BITS" "\<not> IS_ALIGNED mn PAGE_BITS"
    | (loader) "IS_ALIGNED dest PAGE_BITS" "IS_ALIGNED mn PAGE_BITS" "region dest ?k \<inter> loader_region cfg \<noteq> {}"
    using msg by (auto simp: place_refusal_def split: if_splits)
  then have "\<exists>u. load_elf cfg name elf dest keep file_size hash s = Aborts (s\<lparr>console := console s @ u @ msg @ line ''abort() called.''\<rparr>)"
  proof cases
    case dest
    then have m: "msg = line ''Attempting to load ELF at unaligned physical address!''"
      using msg by (simp add: place_refusal_def)
    show ?thesis
      unfolding unf eq_False [THEN iffD2, OF dest] m
      by (rule refuses_abort_if [OF kw, unfolded refuses_def]) (simp add: formatted_eval line_def)
  next
    case start
    then have m: "msg = ''Start of image '' @ [CHR 0x27] @ name @ [CHR 0x27] @ line '' is not 4K-aligned!''"
      using msg by (simp add: place_refusal_def)
    show ?thesis
      unfolding unf eqTrueI [OF start(1)] eqTrueI [OF al2 [OF start(1)]] eq_False [THEN iffD2, OF start(2)] m abort_if_False
      by (rule refuses_rules [OF kw] refuses_ret [unfolded refuses_def] | simp add: formatted_eval line_def)+
  next
    case loader
    then have m: "msg = line ''Kernel load address would overlap ELF-loader!''"
      using msg by (simp add: place_refusal_def)
    show ?thesis
      unfolding unf eqTrueI [OF loader(1)] eqTrueI [OF al2 [OF loader(1)]] eqTrueI [OF loader(2)] eqTrueI [OF loader(3)]
        m abort_if_False
      by (rule refuses_rules [OF kw] refuses_ret [unfolded refuses_def] | simp add: formatted_eval line_def)+
  qed
  then show ?thesis by (simp add: refuses_def)
qed

section \<open>The kernel\<close>

definition kernel_at :: "'a::len word config \<Rightarrow> 'a mem \<Rightarrow> 'a word" where
  "kernel_at cfg m = fst (cpio_get_file cfg m (archive_start cfg) ''kernel.elf'')"

definition kernel_dest :: "'a::len word config \<Rightarrow> 'a mem \<Rightarrow> 'a word" where
  "kernel_dest cfg m = ucast (fst (snd (elf_getMemoryBounds m (kernel_at cfg m) True (stack_bounds cfg))))"

definition kernel_refusal :: "'a::len word config \<Rightarrow> 'a mem \<Rightarrow> string option" where
  "kernel_refusal cfg m =
     (if kernel_at cfg m = 0 then Some (line ''No kernel image present in archive!'')
      else if elf_checkFile m (kernel_at cfg m) \<noteq> 0 then Some (line ''Kernel image not a valid ELF file!'')
      else let (_, mn, mx) = elf_getMemoryBounds m (kernel_at cfg m) False (stack_bounds cfg)
           in place_refusal cfg ''kernel'' (kernel_dest cfg m) mn mx)"

lemma load_images_checks:
  fixes s :: "'a::len word machine"
  assumes kw: "kernel_word TYPE('a)"
  shows "kernel_at cfg (mem s) = 0 \<Longrightarrow> refuses (load_images cfg k) s (line ''No kernel image present in archive!'')"
    and "kernel_at cfg (mem s) \<noteq> 0 \<Longrightarrow> elf_checkFile (mem s) (kernel_at cfg (mem s)) \<noteq> 0 \<Longrightarrow>
      refuses (load_images cfg k) s (line ''Kernel image not a valid ELF file!'')"
    and "kernel_at cfg (mem s) \<noteq> 0 \<Longrightarrow> elf_checkFile (mem s) (kernel_at cfg (mem s)) = 0 \<Longrightarrow>
      (\<And>file_size. refuses (load_elf cfg ''kernel'' (kernel_at cfg (mem s)) (kernel_dest cfg (mem s)) False file_size ''kernel.bin'') s msg) \<Longrightarrow>
      refuses (load_images cfg k) s msg"
proof -
  obtain ksize where f: "cpio_get_file cfg (mem s) (archive_start cfg) ''kernel.elf'' = (kernel_at cfg (mem s), ksize)"
    by (cases "cpio_get_file cfg (mem s) (archive_start cfg) ''kernel.elf''") (auto simp: kernel_at_def)
  obtain r mn mx where b: "elf_getMemoryBounds (mem s) (kernel_at cfg (mem s)) True (stack_bounds cfg) = (r, mn, mx)"
    by (cases "elf_getMemoryBounds (mem s) (kernel_at cfg (mem s)) True (stack_bounds cfg)") auto
  have d: "ucast mn = kernel_dest cfg (mem s)" by (simp add: kernel_dest_def b)
  note unf = refuses_def load_images_def f b Let_def prod.case d
  show "refuses (load_images cfg k) s (line ''No kernel image present in archive!'')" if z: "kernel_at cfg (mem s) = 0"
    unfolding unf eqTrueI [OF z]
    by (rule refuses_rules [OF kw]) (simp add: formatted_eval line_def)
  assume "kernel_at cfg (mem s) \<noteq> 0"
  note nz = eq_False [THEN iffD2, OF this]
  show "refuses (load_images cfg k) s (line ''Kernel image not a valid ELF file!'')"
    if inv: "elf_checkFile (mem s) (kernel_at cfg (mem s)) \<noteq> 0"
    unfolding unf nz eqTrueI [OF inv] abort_if_False
    by (rule refuses_rules [OF kw] refuses_ret [unfolded refuses_def] | simp add: formatted_eval line_def)+
  assume valid: "elf_checkFile (mem s) (kernel_at cfg (mem s)) = 0"
    and l: "\<And>file_size. refuses (load_elf cfg ''kernel'' (kernel_at cfg (mem s)) (kernel_dest cfg (mem s)) False file_size ''kernel.bin'') s msg"
  show "refuses (load_images cfg k) s msg"
    unfolding unf nz valid simp_thms abort_if_False
    by (intro refuses_ret [unfolded refuses_def] refuses_first [unfolded refuses_def] l [unfolded refuses_def])
qed

section \<open>Property\<close>

text \<open>C13: Every error path of loading the kernel, without hash checking. The loader looks for the
  kernel in the archive, checks that it is an ELF file and, for a file in order, that its physical
  address is page-aligned, that its virtual address is, and that its pages do not meet the
  loader, in this order. At the first check that fails it prints that check's message, calls
  \<^verbatim>\<open>abort\<close> and has written nothing to memory; when none fails the kernel is loaded.\<close>

theorem load_images_refuses:
  fixes s :: "'a::len word machine"
  assumes kw: "kernel_word TYPE('a)" and nohash: "hash_cfg cfg = HASH_NONE"
    and order: "kernel_at cfg (mem s) \<noteq> 0 \<Longrightarrow> elf_checkFile (mem s) (kernel_at cfg (mem s)) = 0 \<Longrightarrow>
      placeable cfg (mem s) (kernel_at cfg (mem s)) n (kernel_dest cfg (mem s)) mn mx"
  shows "case kernel_refusal cfg (mem s) of
      Some msg \<Rightarrow> \<exists>u. load_images cfg k s = Aborts (s\<lparr>console := console s @ u @ msg @ line ''abort() called.''\<rparr>)
    | None \<Rightarrow> \<exists>r t. load_elf cfg ''kernel'' (kernel_at cfg (mem s)) (kernel_dest cfg (mem s)) False file_size ''kernel.bin'' s = Returns r t"
proof (cases "kernel_at cfg (mem s) = 0 \<or> elf_checkFile (mem s) (kernel_at cfg (mem s)) \<noteq> 0")
  case True
  then show ?thesis
    using load_images_checks(1,2) [OF kw, of cfg s k] by (auto simp: kernel_refusal_def refuses_def)
next
  case False
  then have p: "placeable cfg (mem s) (kernel_at cfg (mem s)) n (kernel_dest cfg (mem s)) mn mx" using order by blast
  then have b: "elf_getMemoryBounds (mem s) (kernel_at cfg (mem s)) False (stack_bounds cfg) = (1, mn, mx)"
    by (simp add: placeable_def)
  have k: "kernel_refusal cfg (mem s) = place_refusal cfg ''kernel'' (kernel_dest cfg (mem s)) mn mx"
    using False by (simp add: kernel_refusal_def b)
  show ?thesis
  proof (cases "place_refusal cfg ''kernel'' (kernel_dest cfg (mem s)) mn mx")
    case None
    then show ?thesis
      using load_elf_runs [OF kw p nohash, where keep = False] by (simp add: k place_refusal_def split: if_splits)
  next
    case (Some msg)
    then have "refuses (load_images cfg k) s msg"
      using load_images_checks(3) [OF kw, of cfg s msg k] load_elf_refuses [OF kw p nohash Some] False by blast
    then show ?thesis by (simp add: k Some refuses_def)
  qed
qed

text \<open>A loader that reaches up to the place the sample kernel is linked for.\<close>

definition long_config :: "32 word config" where
  "long_config = sample_config HASH_NONE\<lparr>end_sym := 0x20001\<rparr>"

theorem load_images_refuses_witness:
  "\<exists>u. load_images long_config 1 sample_machine = Aborts (sample_machine\<lparr>console :=
    u @ line ''Kernel load address would overlap ELF-loader!'' @ line ''abort() called.''\<rparr>)"
proof -
  have m: "mem sample_machine = sample_mem" by (simp add: sample_machine_def)
  have at: "kernel_at long_config sample_mem = 0x10000" "kernel_dest long_config sample_mem = 0x20000"
    by (simp_all add: kernel_at_def kernel_dest_def long_config_def sample_config_def
        sample_bounds [where phys = True, simplified])
  have region: "loader_region long_config = {0x10000 .. 0x20000}"
    by (simp add: loader_region_def long_config_def sample_config_def)
  have "placeable (sample_config HASH_NONE) sample_mem 0x10000 88 0x20000 0x8000 0x8008"
    by (rule sample_placeable) simp
  then have p: "placeable long_config sample_mem 0x10000 88 0x20000 0x8000 0x8008"
    unfolding placeable_def region by (auto simp: loader_region_def long_config_def sample_config_def word_le_nat_alt)
  have al: "IS_ALIGNED (0x20000 :: 32 word) PAGE_BITS" "IS_ALIGNED (0x8000 :: uint64) PAGE_BITS" by code_simp+
  have "0x20000 \<in> region (0x20000 :: 32 word) 0x1000 \<inter> loader_region long_config" by (simp add: region region_def)
  then have "place_refusal long_config ''kernel'' 0x20000 0x8000 0x8008 =
      Some (line ''Kernel load address would overlap ELF-loader!'')"
    using al by (auto simp: place_refusal_def sample_round_up)
  moreover have "elf_getMemoryBounds sample_mem 0x10000 False (stack_bounds long_config) = (1, 0x8000, 0x8008)"
    using p by (simp add: placeable_def)
  moreover have "elf_checkFile sample_mem 0x10000 = 0" using p by (simp add: placeable_def image_ok_def)
  ultimately have k: "kernel_refusal long_config sample_mem = Some (line ''Kernel load address would overlap ELF-loader!'')"
    by (simp add: kernel_refusal_def at)
  have "hash_cfg long_config = HASH_NONE" by (simp add: long_config_def sample_config_def)
  from load_images_refuses [OF sample_word this, of sample_machine 88 "0x8000" "0x8008" 1] show ?thesis
    using p by (simp add: m at k sample_machine_def)
qed

end
