(* ===== verification/Boot.thy ===== *)
theory Boot
  imports Images64 Mmu32 Mmu64 Riscv_Boot Platforms Efi
begin

text \<open>
  The two \<^verbatim>\<open>main\<close> functions, src/arch-arm/sys_boot.c and src/arch-riscv/boot.c, and the
  exception handlers of src/arch-arm/{32,64}/debug.c. The parts they call work on different
  states: device code on the history of accesses, the loading of images on memory, page tables on
  their arrays, the UEFI calls on the firmware. \<open>boot\<close> puts them together, and each part is
  lifted to it. What the build links in for a platform are the fields of \<open>arm_build\<close>.
\<close>

section \<open>The state\<close>

record ('a, 't, 'f) boot =
  ram :: "'a \<Rightarrow> byte"
  happened :: history
  tables :: 't
  efi_state :: 'f

definition dev :: "'r code \<Rightarrow> ('r, ('a, 't, 'f) boot) prog" where
  "dev p = (\<lambda>s. case p (happened s) of Returns r g \<Rightarrow> Returns r (s\<lparr>happened := g\<rparr>)
     | Aborts g \<Rightarrow> Aborts (s\<lparr>happened := g\<rparr>) | Hangs \<Rightarrow> Hangs | Undefined \<Rightarrow> Undefined)"

text \<open>What the loading code prints becomes one entry of the history.\<close>

definition loading :: "('r, 'a machine) prog \<Rightarrow> ('r, ('a, 't, 'f) boot) prog" where
  "loading p = (\<lambda>s. case p \<lparr>mem = ram s, console = []\<rparr> of
       Returns r m \<Rightarrow> Returns r (s\<lparr>ram := mem m, happened := happened s @ [Print (console m)]\<rparr>)
     | Aborts m \<Rightarrow> Aborts (s\<lparr>ram := mem m, happened := happened s @ [Print (console m)]\<rparr>)
     | Hangs \<Rightarrow> Hangs | Undefined \<Rightarrow> Undefined)"

definition building :: "('t \<Rightarrow> 't option) \<Rightarrow> (unit, ('a, 't, 'f) boot) prog" where
  "building f = (\<lambda>s. case f (tables s) of None \<Rightarrow> Undefined | Some t \<Rightarrow> Returns () (s\<lparr>tables := t\<rparr>))"

section \<open>src/arch-arm/sys_boot.c\<close>

text \<open>\<open>leaves_hyp\<close> is \<^verbatim>\<open>(CONFIG_ARCH_ARM_V7A || CONFIG_ARCH_ARM_V8A) && !CONFIG_ARM_HYPERVISOR_SUPPORT\<close>,
  \<open>nodes\<close> is CONFIG_MAX_NUM_NODES.\<close>

record ('a, 't) arm_build =
  aarch64 :: bool
  leaves_hyp :: bool
  nodes :: nat
  UART_PPTR :: 'a
  smp_symbols :: smp_links
  platform_init :: "unit code"
  cpuid_register :: "uint32 code"
  init_cpus :: "unit code"
  boot_vspace :: "'a image_info \<Rightarrow> 't \<Rightarrow> 't option"
  hyp_boot_vspace :: "'a image_info \<Rightarrow> 't \<Rightarrow> 't option"

definition leave_efi :: "('f boot_services \<times> efi_globals) option \<Rightarrow> (unit, ('a, 't, 'f) boot) prog" where
  "leave_efi image_efi = (case image_efi of None \<Rightarrow> ret ()
     | Some (bts, g) \<Rightarrow> (\<lambda>s. case efi_exit_boot_services bts g (efi_state s) of
           None \<Rightarrow> Hangs
         | Some (status, f) \<Rightarrow>
             (if status \<noteq> EFI_SUCCESS
              then dev (andThen (say_line ''Unable to exit UEFI boot services!'') (\<lambda>_. abort_dev)) (s\<lparr>efi_state := f\<rparr>)
              else Returns () (s\<lparr>efi_state := f\<rparr>))))"

definition say_paddr :: "'a::len word config \<Rightarrow> unit code" where
  "say_paddr cfg = say (line ''  paddr=[%p..%p]'') [VLong (start_sym cfg), VLong (end_sym cfg - 1)]"

definition check_num_apps :: "nat \<Rightarrow> unit code" where
  "check_num_apps num_apps =
     (if num_apps \<noteq> 1 then andThen (say_line ''No user images loaded!'') (\<lambda>_. abort_dev) else ret ())"

text \<open>A call of the kernel: its entry point and the values it gets.\<close>

record kernel_call =
  entry_point :: uint64
  kernel_args :: "uint64 list"

text \<open>The four values every kernel gets about the user image.\<close>

definition user_args :: "'a::len word image_info \<Rightarrow> uint64 list" where
  "user_args user_info = [ucast (phys_region_start user_info), ucast (phys_region_end user_info),
     ucast (phys_virt_offset user_info), ucast (virt_entry user_info)]"

definition banner :: "('a::len word, 't) arm_build \<Rightarrow> 'a word config \<Rightarrow> unit code" where
  "banner b cfg = seq [
     platform_init b,
     say ([CHR 0x0A] @ ''ELF-loader started on '') ([] :: 'a word varg list),
     print_cpuid TYPE('a) (cpuid_register b),
     say_paddr cfg]"

definition leave_hyp_mode :: "('a, 't) arm_build \<Rightarrow> hardware \<Rightarrow> unit code" where
  "leave_hyp_mode b hw =
     (if leaves_hyp b
      then andThen (is_hyp_mode (aarch64 b) hw) (\<lambda>hyp. if hyp then invoke hw ''leave_hyp'' [] else ret ())
      else ret ())"

definition setup_mmu :: "('a, 't) arm_build \<Rightarrow> hardware \<Rightarrow> 'a image_info \<Rightarrow> (unit, ('a, 't, 'f) boot) prog" where
  "setup_mmu b hw kernel_info = andThen (dev (is_hyp_mode (aarch64 b) hw)) (\<lambda>hyp.
     if hyp then
       andThen (dev (if aarch64 b then invoke hw ''disable_caches_hyp'' [] else ret ())) (\<lambda>_.
       building (hyp_boot_vspace b kernel_info))
     else building (boot_vspace b kernel_info))"

definition enable_mmu :: "('a, 't) arm_build \<Rightarrow> hardware \<Rightarrow> unit code" where
  "enable_mmu b hw = andThen (is_hyp_mode (aarch64 b) hw) (\<lambda>hyp.
     if hyp then seq [say_line ''Enabling hypervisor MMU and paging'', invoke hw ''arm_enable_hyp_mmu'' []]
     else seq [say_line ''Enabling MMU and paging'', invoke hw ''arm_enable_mmu'' []])"

definition say_jump :: "('a::ord, 't) arm_build \<Rightarrow> 'a image_info \<Rightarrow> unit code" where
  "say_jump b kernel_info =
     (if UART_PPTR b < virt_region_start kernel_info
      then say_line (''Jumping to kernel-image entry point...'' @ [CHR 0x0A]) else ret ())"

text \<open>\<^verbatim>\<open>main\<close> up to the jump; the result is the call of the kernel.\<close>

definition arm_hand_over :: "('a::len word, 't) arm_build \<Rightarrow> hardware \<Rightarrow> 'a word image_info \<Rightarrow>
    'a word image_info list \<Rightarrow> (kernel_call, ('a word, 't, 'f) boot) prog" where
  "arm_hand_over b hw kernel_info user_infos =
     andThen (dev (check_num_apps (length user_infos))) (\<lambda>_.
     andThen (dev (leave_hyp_mode b hw)) (\<lambda>_.
     andThen (setup_mmu b hw kernel_info) (\<lambda>_.
     andThen (dev (seq [
       if nodes b > 1 then smp_boot (aarch64 b) hw (smp_symbols b) (init_cpus b) else ret (),
       enable_mmu b hw,
       say_jump b kernel_info])) (\<lambda>_.
     ret \<lparr>entry_point = ucast (virt_entry kernel_info), kernel_args = user_args (hd user_infos)\<rparr>))))"

definition arm_prepare :: "('f boot_services \<times> efi_globals) option \<Rightarrow> ('a::len word, 't) arm_build \<Rightarrow>
    hardware \<Rightarrow> 'a word config \<Rightarrow> (kernel_call, ('a word, 't, 'f) boot) prog" where
  "arm_prepare image_efi b hw cfg =
     andThen (leave_efi image_efi) (\<lambda>_.
     andThen (dev (banner b cfg)) (\<lambda>_.
     andThen (loading (load_images cfg 1)) (\<lambda>(kernel_info, user_infos).
     arm_hand_over b hw kernel_info user_infos)))"

definition arm_main :: "('f boot_services \<times> efi_globals) option \<Rightarrow> ('a::len word, 't) arm_build \<Rightarrow>
    hardware \<Rightarrow> 'a word config \<Rightarrow> (unit, ('a word, 't, 'f) boot) prog" where
  "arm_main image_efi b hw cfg = andThen (arm_prepare image_efi b hw cfg) (\<lambda>k. dev (seq [
     invoke hw ''kernel'' (entry_point k # kernel_args k),
     say_line ''Kernel returned back to the elf-loader.'',
     abort_dev]))"

section \<open>src/arch-riscv/boot.c\<close>

text \<open>\<open>l1pt_at\<close> and \<open>l2pt_at\<close> are the addresses of the two tables.\<close>

definition riscv_prepare :: "nat \<Rightarrow> 'a::len word \<Rightarrow> 'a word \<Rightarrow> 'a word config \<Rightarrow> 'a word \<Rightarrow>
    (kernel_call, ('a word, 'a word riscv_tables, 'f) boot) prog" where
  "riscv_prepare levels l1pt_at l2pt_at cfg dtb =
     andThen (dev (seq [say_line ''ELF-loader started on'', say_paddr cfg])) (\<lambda>_.
     andThen (loading (load_images cfg 1)) (\<lambda>(kernel_info, user_infos).
     andThen (dev (check_num_apps (length user_infos))) (\<lambda>_.
     andThen (\<lambda>s. case map_kernel_window levels l2pt_at kernel_info (tables s) of
         None \<Rightarrow> Undefined
       | Some None \<Rightarrow> dev (andThen (say_line ''Kernel not properly aligned'') (\<lambda>_. abort_dev)) s
       | Some (Some t) \<Rightarrow> Returns () (s\<lparr>tables := t\<rparr>)) (\<lambda>_.
     andThen (dev (seq [
       say_line (''Jumping to kernel-image entry point...'' @ [CHR 0x0A]),
       instr ''sfence.vma'',
       write_sys ''sptbr'' (ucast (sptbr_value levels l1pt_at))])) (\<lambda>_.
     ret \<lparr>entry_point = ucast (virt_entry kernel_info), kernel_args = user_args (hd user_infos) @ [0, ucast dtb]\<rparr>)))))"

definition riscv_main :: "nat \<Rightarrow> 'a::len word \<Rightarrow> 'a word \<Rightarrow> hardware \<Rightarrow> 'a word config \<Rightarrow> 'a word \<Rightarrow>
    (unit, ('a word, 'a word riscv_tables, 'f) boot) prog" where
  "riscv_main levels l1pt_at l2pt_at hw cfg dtb =
     andThen (riscv_prepare levels l1pt_at l2pt_at cfg dtb) (\<lambda>k. dev (seq [
       invoke hw ''kernel'' (entry_point k # kernel_args k),
       say_line ''Kernel returned back to the elf-loader.'']))"

section \<open>Exceptions: src/arch-arm/32/debug.c and src/arch-arm/64/debug.c\<close>

definition DFSR_FS_MASK :: uint32 where "DFSR_FS_MASK = 0x40f"
definition DFSR_FS_ASYNC_EXT_ABORT :: uint32 where "DFSR_FS_ASYNC_EXT_ABORT = 0x406"
definition DFSR_FS_ASYNC_PARITY_ERR :: uint32 where "DFSR_FS_ASYNC_PARITY_ERR = 0x408"

definition check_data_abort_exception :: "uint32 \<Rightarrow> uint32 \<Rightarrow> unit code" where
  "check_data_abort_exception dfsr dfar =
     (let fs = dfsr AND DFSR_FS_MASK
      in if fs = DFSR_FS_ASYNC_EXT_ABORT \<or> fs = DFSR_FS_ASYNC_PARITY_ERR then ret () else abort_dev)"

definition valid_exception :: "unit code" where "valid_exception = ret ()"

definition invalid_exception :: "unit code" where "invalid_exception = abort_dev"

definition print_register :: "hardware \<Rightarrow> string \<Rightarrow> unit code" where
  "print_register hw r = andThen (read_sys hw r) (\<lambda>val. say (r @ line '': %lx'') [VLong val])"

definition invalid_vector_entry :: "unit code" where
  "invalid_vector_entry = seq [say_line ''ELF-LOADER: Invalid exception received!'', abort_dev]"

definition el1_sync :: "hardware \<Rightarrow> unit code" where
  "el1_sync hw = seq [
     say_line ''ELF-LOADER: Synchronous exception received:'',
     print_register hw ''esr_el1'',
     print_register hw ''elr_el1'',
     print_register hw ''spsr_el1'',
     print_register hw ''far_el1'',
     abort_dev]"

section \<open>Inverting a run\<close>

lemma dev_Returns: "dev p s = Returns r t \<longleftrightarrow> (\<exists>g. p (happened s) = Returns r g \<and> t = s\<lparr>happened := g\<rparr>)"
  by (auto simp: dev_def split: outcome.splits)

lemma loading_Returns:
  "loading p s = Returns r t \<longleftrightarrow> (\<exists>m. p \<lparr>mem = ram s, console = []\<rparr> = Returns r m \<and>
     t = s\<lparr>ram := mem m, happened := happened s @ [Print (console m)]\<rparr>)"
  by (auto simp: loading_def split: outcome.splits)

lemma building_Returns: "building f s = Returns r t \<longleftrightarrow> (\<exists>x. f (tables s) = Some x \<and> t = s\<lparr>tables := x\<rparr>)"
  by (auto simp: building_def split: option.splits)

lemma stop_never_returns [simp]: "andThen p (\<lambda>_. abort_dev) g \<noteq> Returns r g'"
  by (simp add: andThen_run abort_dev_run split: outcome.split)

lemma check_num_apps_Returns: "check_num_apps n g = Returns r g' \<longleftrightarrow> n = 1 \<and> g' = g"
  by (auto simp: check_num_apps_def)

lemma leave_efi_Returns:
  assumes "leave_efi image_efi s = Returns r t"
  shows "ram t = ram s \<and> tables t = tables s \<and> happened t = happened s \<and>
    (\<forall>bts g. image_efi = Some (bts, g) \<longrightarrow> efi_exit_boot_services bts g (efi_state s) = Some (EFI_SUCCESS, efi_state t))"
  using assms by (auto simp: leave_efi_def dev_Returns split: option.splits prod.splits if_splits)

lemma one_image:
  fixes s :: "'a::len word machine"
  assumes "load_images cfg 1 s = Returns (kernel_info, user_infos) t" and "length user_infos = 1"
  obtains user_info where "user_infos = [user_info]"
  using assms(2) by (auto simp: length_Suc_conv)

text \<open>Steps that change neither memory nor tables.\<close>

definition keeps_ram :: "('r, ('a, 't, 'f) boot) prog \<Rightarrow> bool" where
  "keeps_ram p \<longleftrightarrow> (\<forall>s r t. p s = Returns r t \<longrightarrow> ram t = ram s \<and> tables t = tables s)"

lemma keeps_ram_dev [simp]: "keeps_ram (dev p)"
  by (auto simp: keeps_ram_def dev_Returns)

lemma keeps_ram_leave_efi [simp]: "keeps_ram (leave_efi image_efi)"
  using leave_efi_Returns by (fastforce simp: keeps_ram_def)

lemma after_keeps_ram:
  assumes "andThen p q s = Returns r t" and "keeps_ram p"
  obtains x u where "p s = Returns x u" "ram u = ram s" "tables u = tables s" "q x u = Returns r t"
  using assms by (auto simp: keeps_ram_def elim!: andThenE)

lemma after_loading:
  assumes "andThen (loading p) q s = Returns r t"
  obtains x m u where "p \<lparr>mem = ram s, console = []\<rparr> = Returns x m" "ram u = mem m" "tables u = tables s"
    "q x u = Returns r t"
proof -
  from assms obtain x m where "p \<lparr>mem = ram s, console = []\<rparr> = Returns x m"
    and "q x (s\<lparr>ram := mem m, happened := happened s @ [Print (console m)]\<rparr>) = Returns r t"
    by (auto simp: andThen_Returns loading_Returns)
  then show thesis by (intro that) simp_all
qed

text \<open>The mode register, and what is known of it: outside hypervisor mode the loader does not get
  back into it, and \<^verbatim>\<open>leave_hyp\<close>, an assembly routine, leaves it.\<close>

definition hyp_at :: "bool \<Rightarrow> hardware \<Rightarrow> history \<Rightarrow> bool" where
  "hyp_at a64 hw g \<longleftrightarrow> (if a64 then ucast (sys_value hw g ''CurrentEL'') = CURRENTEL_EL2
     else ucast (sys_value hw g ''cpsr'') AND CPSR_MODE_MASK = CPSR_MODE_HYPERVISOR)"

definition hyp_law :: "bool \<Rightarrow> hardware \<Rightarrow> bool" where
  "hyp_law a64 hw \<longleftrightarrow> (\<forall>g e. \<not> hyp_at a64 hw g \<longrightarrow> \<not> hyp_at a64 hw (g @ [e])) \<and>
     (\<forall>g r. \<not> hyp_at a64 hw (g @ [Call ''leave_hyp'' [] r]))"

lemma is_hyp_mode_run: "\<exists>e. is_hyp_mode a64 hw g = Returns (hyp_at a64 hw g) (g @ [e])"
  by (simp add: is_hyp_mode_def is_hyp_mode32_def is_hyp_mode64_def hyp_at_def run Let_def)

text \<open>The mode the kernel is started in.\<close>

definition kernel_mode :: "('a, 't) arm_build \<Rightarrow> hardware \<Rightarrow> bool \<Rightarrow> bool" where
  "kernel_mode b hw hyp \<longleftrightarrow>
     (if hyp then \<forall>g. hyp_at (aarch64 b) hw g
      else leaves_hyp b \<and> hyp_law (aarch64 b) hw \<or> (\<forall>g. \<not> hyp_at (aarch64 b) hw g))"

lemma leave_hyp_mode_Returns:
  assumes "leave_hyp_mode b hw g = Returns r g'" and "kernel_mode b hw hyp"
  shows "hyp_at (aarch64 b) hw g' = hyp"
proof (cases "leaves_hyp b \<and> hyp_law (aarch64 b) hw \<and> \<not> hyp")
  case True
  obtain e where e: "is_hyp_mode (aarch64 b) hw g = Returns (hyp_at (aarch64 b) hw g) (g @ [e])"
    using is_hyp_mode_run by blast
  have law: "\<not> hyp_at (aarch64 b) hw g \<Longrightarrow> \<not> hyp_at (aarch64 b) hw (g @ [e])"
    "\<not> hyp_at (aarch64 b) hw (g @ [e, Call ''leave_hyp'' [] x])" for x
    using True hyp_law_def [of "aarch64 b" hw] append_assoc [of g "[e]" "[Call ''leave_hyp'' [] x]" for x]
    by (auto simp del: append_assoc) (metis append_Cons append_Nil append_assoc)
  show ?thesis
    using assms(1) True law e by (auto simp: leave_hyp_mode_def run split: if_splits)
next
  case False
  then show ?thesis using assms(2) by (auto simp: kernel_mode_def split: if_splits)
qed

lemma setup_mmu_Returns:
  assumes "setup_mmu b hw kernel_info s = Returns r t" and "hyp_at (aarch64 b) hw (happened s) = hyp"
  shows "(if hyp then hyp_boot_vspace b else boot_vspace b) kernel_info (tables s) = Some (tables t)"
    and "ram t = ram s"
proof -
  obtain e where "is_hyp_mode (aarch64 b) hw (happened s) = Returns hyp (happened s @ [e])"
    using is_hyp_mode_run [of "aarch64 b" hw "happened s"] assms(2) by auto
  moreover define u where "u = s\<lparr>happened := happened s @ [e]\<rparr>"
  ultimately have r: "(if hyp then andThen (dev (if aarch64 b then invoke hw ''disable_caches_hyp'' [] else ret ()))
        (\<lambda>_. building (hyp_boot_vspace b kernel_info))
      else building (boot_vspace b kernel_info)) u = Returns r t"
    using assms(1) unfolding setup_mmu_def andThen_Returns dev_Returns by auto
  have u: "ram u = ram s" "tables u = tables s" by (simp_all add: u_def)
  have "(if hyp then hyp_boot_vspace b else boot_vspace b) kernel_info (tables s) = Some (tables t) \<and> ram t = ram s"
  proof (cases hyp)
    case True
    with r have "andThen (dev (if aarch64 b then invoke hw ''disable_caches_hyp'' [] else ret ()))
        (\<lambda>_. building (hyp_boot_vspace b kernel_info)) u = Returns r t" by simp
    then obtain v where "ram v = ram u" "tables v = tables u" "building (hyp_boot_vspace b kernel_info) v = Returns r t"
      by (elim after_keeps_ram [OF _ keeps_ram_dev])
    then show ?thesis using u True by (auto simp: building_Returns)
  next
    case False
    then show ?thesis using r u by (auto simp: building_Returns)
  qed
  then show "(if hyp then hyp_boot_vspace b else boot_vspace b) kernel_info (tables s) = Some (tables t)"
    and "ram t = ram s" by simp_all
qed

text \<open>A run that reaches the jump has built the tables for the mode it found itself in.\<close>

lemma arm_hand_over_Returns:
  fixes kernel_info :: "'a::len word image_info"
  assumes run: "arm_hand_over b hw kernel_info user_infos s = Returns k t" and mode: "kernel_mode b hw hyp"
  shows "length user_infos = 1 \<and> ram t = ram s \<and>
    (if hyp then hyp_boot_vspace b else boot_vspace b) kernel_info (tables s) = Some (tables t) \<and>
    k = \<lparr>entry_point = ucast (virt_entry kernel_info), kernel_args = user_args (hd user_infos)\<rparr>"
proof -
  obtain g where apps: "length user_infos = 1" and left: "leave_hyp_mode b hw (happened s) = Returns () g"
    and r: "andThen (setup_mmu b hw kernel_info) (\<lambda>_. andThen (dev (seq [
       if nodes b > 1 then smp_boot (aarch64 b) hw (smp_symbols b) (init_cpus b) else ret (),
       enable_mmu b hw, say_jump b kernel_info])) (\<lambda>_.
      ret \<lparr>entry_point = ucast (virt_entry kernel_info), kernel_args = user_args (hd user_infos)\<rparr>))
      (s\<lparr>happened := g\<rparr>) = Returns k t"
    using run unfolding arm_hand_over_def
    by (elim after_keeps_ram [OF _ keeps_ram_dev]) (auto simp: dev_Returns check_num_apps_Returns)
  define s3 where "s3 = s\<lparr>happened := g\<rparr>"
  have 3: "ram s3 = ram s" "tables s3 = tables s" and left: "leave_hyp_mode b hw (happened s) = Returns () (happened s3)"
    using left by (simp_all add: s3_def)
  note r [folded s3_def]
  then obtain s4 where mmu: "setup_mmu b hw kernel_info s3 = Returns () s4"
    and 4: "ram t = ram s4" "tables t = tables s4"
    and k: "k = \<lparr>entry_point = ucast (virt_entry kernel_info), kernel_args = user_args (hd user_infos)\<rparr>"
    by (elim andThenE after_keeps_ram [OF _ keeps_ram_dev]) (auto simp: dev_Returns)
  from setup_mmu_Returns [OF mmu leave_hyp_mode_Returns [OF left mode]] show ?thesis
    using 3 4 k apps by simp
qed

text \<open>A run of the preparation that reaches the jump has loaded the images from the memory it found.\<close>

lemma arm_prepare_Returns:
  fixes cfg :: "'a::len word config"
  assumes run: "arm_prepare image_efi b hw cfg s = Returns k t" and mode: "kernel_mode b hw hyp"
  obtains kernel_info user_info m where
    "load_images cfg 1 \<lparr>mem = ram s, console = []\<rparr> = Returns (kernel_info, [user_info]) m"
    "ram t = mem m"
    "(if hyp then hyp_boot_vspace b else boot_vspace b) kernel_info (tables s) = Some (tables t)"
    "k = \<lparr>entry_point = ucast (virt_entry kernel_info), kernel_args = user_args user_info\<rparr>"
proof -
  obtain s1 where 1: "ram s1 = ram s" "tables s1 = tables s"
    and "andThen (loading (load_images cfg 1)) (\<lambda>(kernel_info, user_infos).
      arm_hand_over b hw kernel_info user_infos) s1 = Returns k t"
    using run unfolding arm_prepare_def
    by (elim after_keeps_ram [OF _ keeps_ram_leave_efi] after_keeps_ram [OF _ keeps_ram_dev]) simp
  then obtain ki us m s2 where load: "load_images cfg 1 \<lparr>mem = ram s, console = []\<rparr> = Returns (ki, us) m"
    and 2: "ram s2 = mem m" "tables s2 = tables s"
    and "arm_hand_over b hw ki us s2 = Returns k t"
    by (elim after_loading) (auto simp: 1)
  note h = arm_hand_over_Returns [OF this(4) mode]
  then obtain ui where "us = [ui]" by (auto intro: one_image [OF load])
  then show thesis using that [of ki ui m] load 2 h by simp
qed

text \<open>With an archive in order, the images are the ones of the archive.\<close>

lemma loaded_for_boot:
  fixes cfg :: "'a::len word config"
  assumes kw: "kernel_word TYPE('a)" and ok: "archive_ok cfg m kp kf uf"
    and load: "load_images cfg 1 \<lparr>mem = m, console = []\<rparr> = Returns (ki, [ui]) t"
  shows "ki = record_of m kf kp" and "ui = record_of m uf (kp + pages_of kf)"
    and "mem_bytes (mem t) (phys_region_start ki) (length (content m kf)) = content m kf"
    and "header_page_clear cfg m kp kf uf \<Longrightarrow> agree_on m (mem t) (loader_region cfg)"
proof -
  have "archive_ok cfg (mem \<lparr>mem = m, console = []\<rparr>) kp kf uf" using ok by simp
  note a = archive_loaded [OF kw this load]
  show "ki = record_of m kf kp" and "ui = record_of m uf (kp + pages_of kf)" using a(1,2) by simp_all
  then show "mem_bytes (mem t) (phys_region_start ki) (length (content m kf)) = content m kf"
    using a(3) by (simp add: record_of_def image_record_def)
  show "agree_on m (mem t) (loader_region cfg)" if "header_page_clear cfg m kp kf uf"
    using a(5) that by (simp add: header_page_clear_def Diff_triv Int_commute)
qed

lemma arm_reaches_kernel:
  fixes cfg :: "'a::len word config"
  assumes kw: "kernel_word TYPE('a)" and ok: "archive_ok cfg (ram s) kp kf uf"
    and clear: "header_page_clear cfg (ram s) kp kf uf" and mode: "kernel_mode b hw hyp"
    and prep: "arm_prepare image_efi b hw cfg s = Returns k t"
  defines "ki \<equiv> record_of (ram s) kf kp"
  shows "k = \<lparr>entry_point = ucast (virt_entry ki), kernel_args = user_args (record_of (ram s) uf (kp + pages_of kf))\<rparr>"
    and "(if hyp then hyp_boot_vspace b else boot_vspace b) ki (tables s) = Some (tables t)"
    and "mem_bytes (ram t) (phys_region_start ki) (length (content (ram s) kf)) = content (ram s) kf"
    and "agree_on (ram s) (ram t) (loader_region cfg)"
proof -
  obtain ki' ui m where load: "load_images cfg 1 \<lparr>mem = ram s, console = []\<rparr> = Returns (ki', [ui]) m"
    and m: "ram t = mem m" and t: "(if hyp then hyp_boot_vspace b else boot_vspace b) ki' (tables s) = Some (tables t)"
    and k: "k = \<lparr>entry_point = ucast (virt_entry ki'), kernel_args = user_args ui\<rparr>"
    by (rule arm_prepare_Returns [OF prep mode])
  note l = loaded_for_boot [OF kw ok load, folded m]
  show "k = \<lparr>entry_point = ucast (virt_entry ki), kernel_args = user_args (record_of (ram s) uf (kp + pages_of kf))\<rparr>"
    and "(if hyp then hyp_boot_vspace b else boot_vspace b) ki (tables s) = Some (tables t)"
    and "mem_bytes (ram t) (phys_region_start ki) (length (content (ram s) kf)) = content (ram s) kf"
    and "agree_on (ram s) (ram t) (loader_region cfg)"
    using l t k clear by (simp_all add: ki_def)
qed

lemma riscv_prepare_Returns:
  fixes cfg :: "'a::len word config"
  assumes prep: "riscv_prepare levels l1pt_at l2pt_at cfg dtb s = Returns k t"
  obtains kernel_info user_info m where
    "load_images cfg 1 \<lparr>mem = ram s, console = []\<rparr> = Returns (kernel_info, [user_info]) m"
    "ram t = mem m" "map_kernel_window levels l2pt_at kernel_info (tables s) = Some (Some (tables t))"
    "k = \<lparr>entry_point = ucast (virt_entry kernel_info), kernel_args = user_args user_info @ [0, ucast dtb]\<rparr>"
    "\<exists>g. happened t = g @ [Asm ''sfence.vma'', Msr ''sptbr'' (ucast (sptbr_value levels l1pt_at))]"
proof -
  let ?map = "\<lambda>ki s. case map_kernel_window levels l2pt_at ki (tables s) of
         None \<Rightarrow> Undefined
       | Some None \<Rightarrow> dev (andThen (say_line ''Kernel not properly aligned'') (\<lambda>_. abort_dev)) s
       | Some (Some t) \<Rightarrow> Returns () (s\<lparr>tables := t\<rparr>)"
  let ?last = "seq [say_line (''Jumping to kernel-image entry point...'' @ [CHR 0x0A]), instr ''sfence.vma'',
       write_sys ''sptbr'' (ucast (sptbr_value levels l1pt_at))]"
  obtain s1 where 1: "ram s1 = ram s" "tables s1 = tables s"
    and "andThen (loading (load_images cfg 1)) (\<lambda>(ki, us).
      andThen (dev (check_num_apps (length us))) (\<lambda>_. andThen (?map ki) (\<lambda>_. andThen (dev ?last) (\<lambda>_.
      ret \<lparr>entry_point = ucast (virt_entry ki), kernel_args = user_args (hd us) @ [0, ucast dtb]\<rparr>)))) s1 = Returns k t"
    using prep unfolding riscv_prepare_def by (elim after_keeps_ram [OF _ keeps_ram_dev]) simp
  then obtain ki us m s2 where load: "load_images cfg 1 \<lparr>mem = ram s, console = []\<rparr> = Returns (ki, us) m"
    and 2: "ram s2 = mem m" "tables s2 = tables s"
    and r: "andThen (dev (check_num_apps (length us))) (\<lambda>_. andThen (?map ki) (\<lambda>_. andThen (dev ?last) (\<lambda>_.
      ret \<lparr>entry_point = ucast (virt_entry ki), kernel_args = user_args (hd us) @ [0, ucast dtb]\<rparr>))) s2 = Returns k t"
    by (elim after_loading) (auto simp: 1)
  from r have apps: "length us = 1" and "andThen (?map ki) (\<lambda>_. andThen (dev ?last) (\<lambda>_.
      ret \<lparr>entry_point = ucast (virt_entry ki), kernel_args = user_args (hd us) @ [0, ucast dtb]\<rparr>)) s2 = Returns k t"
    by (auto simp: andThen_Returns [of "dev (check_num_apps (length us))"] dev_Returns check_num_apps_Returns)
  then obtain s3 where "?map ki s2 = Returns () s3" and "dev ?last s3 = Returns () t"
    and k: "k = \<lparr>entry_point = ucast (virt_entry ki), kernel_args = user_args (hd us) @ [0, ucast dtb]\<rparr>"
    by (auto simp: andThen_Returns)
  then have "map_kernel_window levels l2pt_at ki (tables s) = Some (Some (tables t))" "ram t = mem m"
    and "\<exists>g. happened t = g @ [Asm ''sfence.vma'', Msr ''sptbr'' (ucast (sptbr_value levels l1pt_at))]"
    using 2 by (auto simp: dev_Returns run split: option.splits)
  moreover obtain ui where "us = [ui]" by (rule one_image [OF load apps])
  ultimately show thesis using that [of ki ui m] load k by simp
qed

section \<open>What the kernel finds\<close>

text \<open>Memory through the tables in use: 32-bit and 64-bit ARM, in hypervisor mode or not.\<close>

definition view32 :: "bool \<Rightarrow> links32 \<Rightarrow> (uint32, tables32, 'f) boot \<Rightarrow> uint32 \<Rightarrow> byte option" where
  "view32 hyp l s = (if hyp then sees (translate_hyp l (tables s)) (ram s) else sees (translate_sv l (tables s)) (ram s))"

definition view64 :: "bool \<Rightarrow> links64 \<Rightarrow> (uint64, tables64, 'f) boot \<Rightarrow> uint64 \<Rightarrow> byte option" where
  "view64 hyp l s = sees ((if hyp then translate_el2 else translate_el1) l (tables s)) (ram s)"

section \<open>A run that reaches the kernel\<close>

lemma say_paddr_run:
  "kernel_word TYPE('a::len) \<Longrightarrow> say_paddr (cfg :: 'a word config) g = Returns () (g @ [Print
     (''  paddr=['' @ num_string 16 (unat (start_sym cfg)) @ ''..'' @ num_string 16 (unat (end_sym cfg - 1)) @ line '']'')])"
  by (simp add: say_paddr_def say_run formatted_def read_format.simps conv_of_def line_def)

lemma banner_run:
  fixes cfg :: "'a::len word config"
  assumes kw: "kernel_word TYPE('a)" and p: "platform_init b g = Returns () g1"
  defines "g2 \<equiv> g1 @ [Print ([CHR 0x0A] @ ''ELF-loader started on '')]"
  assumes c: "cpuid_register b g2 = Returns cpuid g3"
  shows "\<exists>g'. banner b cfg g = Returns () g'"
proof -
  have "say ([CHR 0x0A] @ ''ELF-loader started on '') ([] :: 'a word varg list) g1 = Returns () g2"
    by (simp add: g2_def say_run [OF kw] formatted_plain)
  then show ?thesis
    using print_cpuid_run [where read_id = "cpuid_register b" and h = g2, OF kw c]
    by (simp add: banner_def run p say_paddr_run [OF kw])
qed

text \<open>What the platform has to provide: its own code returns, the processor identifies itself, and
  the other cores come up.\<close>

definition platform_works :: "('a, 't) arm_build \<Rightarrow> hardware \<Rightarrow> bool" where
  "platform_works b hw \<longleftrightarrow> (\<forall>g. \<exists>g'. platform_init b g = Returns () g') \<and>
     (\<forall>g. \<exists>cpuid e. cpuid_register b g = Returns cpuid (g @ [e])) \<and>
     (nodes b > 1 \<longrightarrow> (\<forall>g. \<exists>g'. smp_boot (aarch64 b) hw (smp_symbols b) (init_cpus b) g = Returns () g'))"

lemma banner_returns:
  fixes cfg :: "'a::len word config"
  assumes kw: "kernel_word TYPE('a)" and p: "platform_works b hw"
  shows "\<exists>g'. banner b cfg g = Returns () g'"
proof -
  obtain g1 where g1: "platform_init b g = Returns () g1" using p unfolding platform_works_def by blast
  obtain cpuid g3 where "cpuid_register b (g1 @ [Print ([CHR 0x0A] @ ''ELF-loader started on '')]) = Returns cpuid g3"
    using p unfolding platform_works_def by blast
  then show ?thesis by (rule banner_run [OF kw g1])
qed

lemma returns_dev: "p (happened s) = Returns r g \<Longrightarrow> dev p s = Returns r (s\<lparr>happened := g\<rparr>)"
  by (simp add: dev_def)

lemma leave_hyp_mode_returns: "\<exists>g'. leave_hyp_mode b hw g = Returns () g'"
  using is_hyp_mode_run [of "aarch64 b" hw g] by (auto simp: leave_hyp_mode_def run)

lemma setup_mmu_returns:
  assumes "hyp_at (aarch64 b) hw (happened s) = hyp"
    and t: "(if hyp then hyp_boot_vspace b else boot_vspace b) ki (tables s) = Some t"
  shows "\<exists>s'. setup_mmu b hw ki s = Returns () s'"
proof -
  obtain e where "is_hyp_mode (aarch64 b) hw (happened s) = Returns hyp (happened s @ [e])"
    using is_hyp_mode_run [of "aarch64 b" hw "happened s"] assms(1) by auto
  then show ?thesis
    using t by (cases hyp; cases "aarch64 b")
      (simp_all add: setup_mmu_def andThen_def returns_dev building_def run)
qed

lemma jump_returns:
  assumes "platform_works b hw"
  shows "\<exists>g'. seq [if nodes b > 1 then smp_boot (aarch64 b) hw (smp_symbols b) (init_cpus b) else ret (),
       enable_mmu b hw, say_jump b ki] g = Returns () g'"
proof -
  have "\<exists>g1. (if nodes b > 1 then smp_boot (aarch64 b) hw (smp_symbols b) (init_cpus b) else ret ()) g = Returns () g1"
    using assms unfolding platform_works_def by (cases "nodes b > 1") (simp_all add: ret_def)
  then obtain g1 where g1: "(if nodes b > 1 then smp_boot (aarch64 b) hw (smp_symbols b) (init_cpus b) else ret ()) g = Returns () g1"
    by blast
  obtain e where e: "is_hyp_mode (aarch64 b) hw g1 = Returns (hyp_at (aarch64 b) hw g1) (g1 @ [e])"
    using is_hyp_mode_run by blast
  show ?thesis
    using g1 by (simp add: enable_mmu_def say_jump_def andThen_run e run split del: if_split)
      (simp add: run)
qed

lemma arm_hand_over_runs:
  assumes platform: "platform_works b hw" and mode: "kernel_mode b hw hyp"
    and t: "(if hyp then hyp_boot_vspace b else boot_vspace b) ki (tables s) = Some t"
  shows "\<exists>k t. arm_hand_over b hw ki [ui] s = Returns k t"
proof -
  obtain g where g: "leave_hyp_mode b hw (happened s) = Returns () g" using leave_hyp_mode_returns by blast
  then obtain s2 where s2: "setup_mmu b hw ki (s\<lparr>happened := g\<rparr>) = Returns () s2"
    using setup_mmu_returns [of b hw "s\<lparr>happened := g\<rparr>" hyp ki t] leave_hyp_mode_Returns [OF g mode] t by auto
  obtain g2 where "seq [if nodes b > 1 then smp_boot (aarch64 b) hw (smp_symbols b) (init_cpus b) else ret (),
       enable_mmu b hw, say_jump b ki] (happened s2) = Returns () g2"
    using jump_returns [OF platform] by blast
  then show ?thesis
    using g s2 by (simp add: arm_hand_over_def andThen_def returns_dev check_num_apps_Returns check_num_apps_def ret_def
        del: seq.simps)
qed

lemma arm_prepare_runs:
  fixes cfg :: "'a::len word config"
  assumes kw: "kernel_word TYPE('a)" and ok: "archive_ok cfg (ram s) kp kf uf" and clear: "archive_clear cfg kp kf uf"
    and platform: "platform_works b hw" and efi: "\<exists>s1. leave_efi image_efi s = Returns () s1"
    and mode: "kernel_mode b hw hyp"
    and t: "(if hyp then hyp_boot_vspace b else boot_vspace b) (record_of (ram s) kf kp) (tables s) = Some t"
  shows "\<exists>k t. arm_prepare image_efi b hw cfg s = Returns k t"
proof -
  obtain s1 where 1: "leave_efi image_efi s = Returns () s1" "ram s1 = ram s" "tables s1 = tables s"
    using efi leave_efi_Returns by blast
  obtain g where g: "banner b cfg (happened s1) = Returns () g" using banner_returns [OF kw platform] by blast
  obtain ki ui m where l: "load_images cfg 1 \<lparr>mem = ram s, console = []\<rparr> = Returns (ki, [ui]) m"
    using archive_loads [of cfg "\<lparr>mem = ram s, console = []\<rparr>", OF kw _ clear] ok by auto
  let ?s = "s1\<lparr>ram := mem m, happened := g @ [Print (console m)]\<rparr>"
  have "ki = record_of (ram s) kf kp" by (rule loaded_for_boot(1) [OF kw ok l])
  then have "\<exists>k t. arm_hand_over b hw ki [ui] ?s = Returns k t"
    using t 1 by (intro arm_hand_over_runs [OF platform mode]) simp
  then show ?thesis
    using 1 g l by (simp add: arm_prepare_def andThen_def returns_dev loading_def ret_def)
qed

section \<open>A board that boots\<close>

text \<open>A 32-bit board at the supervisor level (or, with the argument, in hypervisor mode) with the
  archive \<open>pair_config\<close>.\<close>

definition board_links :: links32 where
  "board_links = \<lparr>boot_pt_addr = 0x20004000, arm_vector_table = 0x20005000, lpae_boot_pmd_addr = 0x20008000\<rparr>"

definition board_hardware :: "bool \<Rightarrow> hardware" where
  "board_hardware hyp = \<lparr>reg_value = (\<lambda>g a. 0), cp_value = (\<lambda>g r. 0x410fc0f0),
     sys_value = (\<lambda>g r. if hyp then 0x1da else 0x1d3), call_value = (\<lambda>g f args. 0)\<rparr>"

definition board :: "bool \<Rightarrow> (uint32, tables32) arm_build" where
  "board hyp = \<lparr>aarch64 = False, leaves_hyp = False, nodes = 1, UART_PPTR = 0xf0000000,
     smp_symbols = \<lparr>core_stacks = 0, core_up = 0, core_entry_head = 0, non_boot_lock = 0, imx_non_boot = 0, non_boot_core = 0\<rparr>,
     platform_init = ret (), cpuid_register = read_cpuid_id32 (board_hardware hyp), init_cpus = ret (),
     boot_vspace = init_boot_vspace32 board_links, hyp_boot_vspace = init_hyp_boot_vspace32 board_links\<rparr>"

definition board_start :: "(uint32, tables32, unit) boot" where
  "board_start = \<lparr>ram = kernel_mem, happened = [], tables = bss_tables32, efi_state = ()\<rparr>"

lemma board_fields [simp]:
  "\<not> aarch64 (board hyp)" "\<not> leaves_hyp (board hyp)" "nodes (board hyp) = 1" "UART_PPTR (board hyp) = 0xf0000000"
  "platform_init (board hyp) = ret ()" "cpuid_register (board hyp) = read_cpuid_id32 (board_hardware hyp)"
  "boot_vspace (board hyp) = init_boot_vspace32 board_links"
  "hyp_boot_vspace (board hyp) = init_hyp_boot_vspace32 board_links"
  by (simp_all add: board_def)

lemma board_mode: "hyp_at False (board_hardware hyp) g = hyp"
  by (simp add: hyp_at_def board_hardware_def CPSR_MODE_MASK_def CPSR_MODE_HYPERVISOR_def)

lemma board_kernel_mode: "kernel_mode (board hyp) (board_hardware hyp) hyp"
  by (simp add: kernel_mode_def board_def board_mode)

lemma board_fits:
  "sections_ok board_links (record_of kernel_mem pair_file 0x10000000)"
  "blocks_ok board_links (record_of kernel_mem pair_file 0x10000000)"
  by (simp_all add: sections_ok_def blocks_ok_def pair_record board_links_def aligned_def)

lemma board_works: "platform_works (board hyp) (board_hardware hyp)"
  by (simp add: platform_works_def run read_cpuid_id32_def)

lemma board_tables:
  "\<exists>t. (if hyp then hyp_boot_vspace (board hyp) else boot_vspace (board hyp))
    (record_of kernel_mem pair_file 0x10000000) bss_tables32 = Some t"
  using hyp.builds [OF board_fits(2)] sv.builds [OF board_fits(1)] by simp

lemma board_boots: "\<exists>k t. arm_prepare None (board hyp) (board_hardware hyp) pair_config board_start = Returns k t"
proof -
  obtain t where "(if hyp then hyp_boot_vspace (board hyp) else boot_vspace (board hyp))
    (record_of (ram board_start) pair_file 0x10000000) (tables board_start) = Some t"
    using board_tables by (auto simp: board_start_def)
  moreover have "\<exists>s1. leave_efi None board_start = Returns () s1" by (simp add: leave_efi_def)
  moreover have "archive_ok pair_config (ram board_start) 0x10000000 pair_file pair_file"
    using pair_archive_ok by (simp add: board_start_def)
  ultimately show ?thesis
    by (intro arm_prepare_runs [OF sample_word _ pair_archive_clear board_works _ board_kernel_mode])
qed

text \<open>A 64-bit board in EL1 with UEFI firmware and the archive \<open>pair64_config\<close>.\<close>

definition board64_hardware :: hardware where
  "board64_hardware = \<lparr>reg_value = (\<lambda>g a. 0), cp_value = (\<lambda>g r. 0),
     sys_value = (\<lambda>g r. if r = ''midr_el1'' then 0x410fd034 else 4), call_value = (\<lambda>g f args. 0)\<rparr>"

definition board64 :: "(uint64, tables64) arm_build" where
  "board64 = \<lparr>aarch64 = True, leaves_hyp = True, nodes = 1, UART_PPTR = 0xfffffffff0000000,
     smp_symbols = \<lparr>core_stacks = 0, core_up = 0, core_entry_head = 0, non_boot_lock = 0, imx_non_boot = 0, non_boot_core = 0\<rparr>,
     platform_init = ret (), cpuid_register = read_cpuid_id64 board64_hardware, init_cpus = ret (),
     boot_vspace = init_boot_vspace64 False sample_links64, hyp_boot_vspace = init_hyp_boot_vspace64 False sample_links64\<rparr>"

definition board64_start :: "(uint64, tables64, uint64 option) boot" where
  "board64_start = \<lparr>ram = kernel64_mem, happened = [], tables = bss_tables64, efi_state = None\<rparr>"

abbreviation (input) board64_firmware :: "(uint64 option boot_services \<times> efi_globals) option" where
  "board64_firmware \<equiv> Some (sample_firmware, efi_early_init 1 2)"

lemma board64_mode: "kernel_mode board64 board64_hardware False"
  by (simp add: kernel_mode_def hyp_at_def board64_def board64_hardware_def CURRENTEL_EL2_def)

lemma board64_fits: "el1_ok sample_links64 (record_of kernel64_mem pair64_file 0x40200000)"
  using sample_links64_good by (simp add: el1_ok_def pair64_record aligned_def)

lemma board64_works: "platform_works board64 board64_hardware"
  by (simp add: platform_works_def board64_def run read_cpuid_id64_def)

lemma board64_leaves_efi: "\<exists>s1. leave_efi board64_firmware board64_start = Returns () s1"
  using sample_firmware_left [of "efi_early_init 1 2"] by (auto simp: leave_efi_def board64_start_def)

lemma board64_boots: "\<exists>k t. arm_prepare board64_firmware board64 board64_hardware pair64_config board64_start = Returns k t"
proof -
  obtain t where "(if False then hyp_boot_vspace board64 else boot_vspace board64)
    (record_of (ram board64_start) pair64_file 0x40200000) (tables board64_start) = Some t"
    using el1.builds [OF board64_fits, where smp = False] by (auto simp: board64_start_def board64_def)
  moreover have "archive_ok pair64_config (ram board64_start) 0x40200000 pair64_file pair64_file"
    using pair64_archive_ok by (simp add: board64_start_def)
  ultimately show ?thesis
    by (intro arm_prepare_runs [OF word64 _ pair64_archive_clear board64_works board64_leaves_efi board64_mode])
qed

text \<open>A RISC-V board with the same archive.\<close>

definition board_rv_start :: "(64 word, 64 word riscv_tables, unit) boot" where
  "board_rv_start = \<lparr>ram = kernel64_mem, happened = [], tables = bss_riscv, efi_state = ()\<rparr>"

lemma board_rv_fits: "sv39_ok 0x12000 (record_of kernel64_mem pair64_file 0x40200000)"
proof -
  have "canonical39 0xffffffc000000000" by code_simp
  then show ?thesis by (simp add: sv39_ok_def pair64_record aligned_def)
qed

lemma board_rv_boots: "\<exists>k t. riscv_prepare 3 0x11000 0x12000 pair64_config dtb board_rv_start = Returns k t"
proof -
  obtain t where t: "map_kernel_window 3 0x12000 (record_of kernel64_mem pair64_file 0x40200000) bss_riscv = Some (Some t)"
    using rv39.builds [OF board_rv_fits] unfolding build_sv39_def by (auto simp: bind_eq_Some_conv)
  obtain ki ui m where l: "load_images pair64_config 1 \<lparr>mem = kernel64_mem, console = []\<rparr> = Returns (ki, [ui]) m"
    using pair64_loads [of "\<lparr>mem = kernel64_mem, console = []\<rparr>"] by auto
  have "ki = record_of kernel64_mem pair64_file 0x40200000"
    by (rule loaded_for_boot(1) [OF word64 pair64_archive_ok l])
  then show ?thesis
    using l t by (simp add: riscv_prepare_def dev_def loading_def board_rv_start_def check_num_apps_def run
        say_paddr_run [OF word64])
qed

section \<open>Properties\<close>





text \<open>C3: On 64-bit RISC-V with Sv39, from an archive in order, with a header page that is clear of the
  loader and with zeroed tables, for a kernel linked for a canonical address that is not aligned to a
  gigabyte both ways: the last thing \<^verbatim>\<open>main\<close> does to the processor before the jump is, after a fence, to write
  \<^verbatim>\<open>sptbr\<close>, and with the value it writes the processor translates by the loader's root table: the
  kernel's image is visible at the addresses it was linked for, as far as it lies in the gigabyte it starts
  in, and the loader, unchanged, at its own addresses below 16 GB outside that gigabyte. The jump goes
  to the kernel's entry point with the user image's place and the device tree as arguments.\<close>

theorem riscv_kernel_in_place:
  fixes cfg :: "64 word config" and s :: "(64 word, 64 word riscv_tables, 'f) boot"
  assumes ok: "archive_ok cfg (ram s) kp kf uf" and clear: "header_page_clear cfg (ram s) kp kf uf"
    and bss: "tables s = bss_riscv" and root: "aligned 12 l1pt_at" "take_bit 56 l1pt_at = l1pt_at"
  defines "ki \<equiv> record_of (ram s) kf kp"
  assumes fits: "sv39_ok l2pt_at ki" and run: "riscv_prepare 3 l1pt_at l2pt_at cfg dtb s = Returns k t"
  shows "k = \<lparr>entry_point = virt_entry ki,
      kernel_args = user_args (record_of (ram s) uf (kp + pages_of kf)) @ [0, dtb]\<rparr> \<and>
    (\<exists>g v. happened t = g @ [Asm ''sfence.vma'', Msr ''sptbr'' v] \<and>
      sees_bytes (sees (rv64_translate v l1pt_at l2pt_at (tables t)) (ram t))
        {va. drop_bit 30 va = drop_bit 30 (virt_region_start ki) \<and> virt_region_start ki \<le> va}
        (virt_region_start ki) (content (ram s) kf) \<and>
      sees_same (sees (rv64_translate v l1pt_at l2pt_at (tables t)) (ram t)) (ram s)
        (loader_region cfg \<inter> {va. take_bit 34 va = va \<and> drop_bit 30 va \<noteq> drop_bit 30 (virt_region_start ki)}))"
proof -
  obtain ki' ui m where load: "load_images cfg 1 \<lparr>mem = ram s, console = []\<rparr> = Returns (ki', [ui]) m"
    and m: "ram t = mem m" and t: "map_kernel_window 3 l2pt_at ki' (tables s) = Some (Some (tables t))"
    and k: "k = \<lparr>entry_point = ucast (virt_entry ki'), kernel_args = user_args ui @ [0, ucast dtb]\<rparr>"
    and last: "\<exists>g. happened t = g @ [Asm ''sfence.vma'', Msr ''sptbr'' (ucast (sptbr_value 3 l1pt_at))]"
    by (rule riscv_prepare_Returns [OF run])
  note l = loaded_for_boot [OF word64 ok load, folded m]
  have ki: "ki' = ki" using l(1) by (simp add: ki_def)
  have "build_sv39 l2pt_at ki = Some (tables t)" using t by (simp add: build_sv39_def bss ki)
  from rv39.kernel_and_loader_seen [OF fits this l(3) [unfolded ki] l(4) [OF clear]] show ?thesis
    using l(2) last sptbr_selects_sv39 [OF root] by (auto simp: k ki slot_def)
qed

theorem riscv_kernel_in_place_witness:
  "\<exists>k t. riscv_prepare 3 0x11000 0x12000 pair64_config 0x88000000 board_rv_start = Returns k t \<and>
    entry_point k = 0xffffffc000000004 \<and> last (kernel_args k) = 0x88000000 \<and>
    (\<exists>v. last (happened t) = Msr ''sptbr'' v \<and>
      sees (rv64_translate v 0x11000 0x12000 (tables t)) (ram t) 0xffffffc000000002 = Some 3 \<and>
      sees (rv64_translate v 0x11000 0x12000 (tables t)) (ram t) 0x10000 = Some 0x7f)"
proof -
  obtain k t where p: "riscv_prepare 3 0x11000 0x12000 pair64_config 0x88000000 board_rv_start = Returns k t"
    using board_rv_boots by blast
  have r: "ram board_rv_start = kernel64_mem" "tables board_rv_start = bss_riscv" by (simp_all add: board_rv_start_def)
  have "kernel64_mem 0x10000 = 0x7f" by code_simp
  moreover have "aligned 12 (0x11000 :: uint64)" "take_bit 56 (0x11000 :: uint64) = 0x11000" by (simp_all add: aligned_def)
  note riscv_kernel_in_place [OF pair64_archive_ok [folded r(1)] pair64_clear [folded r(1)] r(2) this board_rv_fits [folded r(1)] p]
  ultimately show ?thesis
    using p by (auto simp: r pair64_record pair64_content pair64_region sees_bytes_def sees_same_def
        kernel_content_def dest: spec [of _ 2])
qed



end
