(* ===== verification/Other_Cores.thy ===== *)
theory Other_Cores
  imports Boot
begin

text \<open>
  How the other cores follow the boot core into the kernel: \<^verbatim>\<open>non_boot_main\<close> of
  src/arch-arm/smp_boot.c against what \<^verbatim>\<open>main\<close> has prepared. Each core has a history of its
  own; what it shares with the boot core is the lock, the page tables and \<^verbatim>\<open>kernel_info\<close>.
\<close>

section \<open>The wait for the lock\<close>

lemma spin_lock_read:
  assumes "spin (lock_read a64 hw a) (\<lambda>v. v \<noteq> 0) g = Some g'"
  shows "\<exists>x v. g' = g @ x @ [Read a v] \<and> v \<noteq> 0"
proof -
  have "read = lock_read a64 hw a \<and> stop = (\<lambda>v. v \<noteq> 0) \<longrightarrow> (\<exists>x v. g' = g @ x @ [Read a v] \<and> v \<noteq> 0)"
    if "spin read stop g = Some g'" for read stop
  proof (rule spin.raw_induct [OF _ that, where P = "\<lambda>read stop g g'. read = lock_read a64 hw a \<and> stop = (\<lambda>v. v \<noteq> 0) \<longrightarrow>
      (\<exists>x v. g' = g @ x @ [Read a v] \<and> v \<noteq> 0)"])
    fix spin read stop g g'
    assume IH: "\<And>read stop g g'. spin read stop g = Some g' \<Longrightarrow>
        read = lock_read a64 hw a \<and> stop = (\<lambda>v. v \<noteq> 0) \<longrightarrow> (\<exists>x v. g' = g @ x @ [Read a v] \<and> v \<noteq> 0)"
      and round: "(let (v, h1) = read g in if stop v then Some h1 else spin read stop h1) = Some g'"
    show "read = lock_read a64 hw a \<and> stop = (\<lambda>v. v \<noteq> 0) \<longrightarrow> (\<exists>x v. g' = g @ x @ [Read a v] \<and> v \<noteq> 0)"
    proof
      assume r: "read = lock_read a64 hw a \<and> stop = (\<lambda>v. v \<noteq> 0)"
      show "\<exists>x v. g' = g @ x @ [Read a v] \<and> v \<noteq> 0"
      proof (cases "reg_value hw g a = 0")
        case False
        then show ?thesis using round r by (auto simp: lock_read_def rd32_def Let_def)
      next
        case True
        then obtain y where "spin read stop (g @ y) = Some g'"
          using round r by (auto simp: lock_read_def rd32_def asm_def Let_def split: if_splits)
        with IH [of read stop "g @ y" g'] r show ?thesis by fastforce
      qed
    qed
  qed
  then show ?thesis using assms by blast
qed

lemma wait_lock_Returns:
  assumes "wait_lock a64 hw a g = Returns r g'"
  obtains x v where "g' = g @ x @ [Read a v]" "v \<noteq> 0"
  using assms spin_lock_read [of a64 hw a g] by (fastforce simp: wait_lock_def split: option.splits)

section \<open>The mode\<close>

definition mode_access :: "access \<Rightarrow> bool" where
  "mode_access x \<longleftrightarrow> (\<exists>r v. x = Mrs r v) \<or> (\<exists>v. x = Call ''leave_hyp'' [] v)"

lemma is_hyp_mode_reads: "\<exists>r v. is_hyp_mode a64 hw g = Returns (hyp_at a64 hw g) (g @ [Mrs r v])"
  by (simp add: is_hyp_mode_def is_hyp_mode32_def is_hyp_mode64_def hyp_at_def run Let_def)

lemma leave_hyp_mode_accesses:
  "\<exists>x. leave_hyp_mode b hw g = Returns () (g @ x) \<and> list_all mode_access x"
proof -
  obtain r v where "is_hyp_mode (aarch64 b) hw g = Returns (hyp_at (aarch64 b) hw g) (g @ [Mrs r v])"
    using is_hyp_mode_reads by blast
  then show ?thesis by (auto simp: leave_hyp_mode_def run mode_access_def)
qed

text \<open>The part of \<^verbatim>\<open>non_boot_main\<close> that leaves hypervisor mode is the one of \<^verbatim>\<open>main\<close>, on
  the processors that can be in it.\<close>

lemma non_boot_mode:
  assumes mode: "kernel_mode b hw hyp" and support: "leaves_hyp b \<Longrightarrow> \<not> hyp_support" "hyp \<Longrightarrow> hyp_support"
  shows "\<exists>x. (if hyp_support then ret () else andThen (is_hyp_mode (aarch64 b) hw) (\<lambda>hyp.
       if hyp then invoke hw ''leave_hyp'' [] else ret ())) g = Returns () (g @ x) \<and>
    list_all mode_access x \<and> hyp_at (aarch64 b) hw (g @ x) = hyp"
proof (cases "leaves_hyp b")
  case True
  obtain x where x: "leave_hyp_mode b hw g = Returns () (g @ x)" "list_all mode_access x"
    using leave_hyp_mode_accesses by blast
  then show ?thesis
    using leave_hyp_mode_Returns [OF x(1) mode] True support(1) by (auto simp: leave_hyp_mode_def)
next
  case False
  then have at: "hyp_at (aarch64 b) hw g = hyp" for g using mode by (auto simp: kernel_mode_def split: if_splits)
  obtain r v where "is_hyp_mode (aarch64 b) hw g = Returns hyp (g @ [Mrs r v])"
    using is_hyp_mode_reads [of "aarch64 b" hw g] at by auto
  then show ?thesis using at support(2) by (auto simp: run mode_access_def)
qed

text \<open>A core that gets past the lock ends in the kernel.\<close>

lemma non_boot_main_Aborts:
  assumes mode: "kernel_mode b hw hyp" and support: "leaves_hyp b \<Longrightarrow> \<not> hyp_support" "hyp \<Longrightarrow> hyp_support"
    and go: "non_boot_main (aarch64 b) hyp_support hw l kernel_info user_info g = Aborts g'"
  shows "\<exists>g1 v x r r'. v \<noteq> 0 \<and> list_all mode_access x \<and>
    g' = g1 @ [Read (non_boot_lock l) v] @ x @
      [Call (if hyp then ''arm_enable_hyp_mmu'' else ''arm_enable_mmu'') [] r, Call ''kernel'' (ucast (virt_entry kernel_info) # user_args user_info) r',
       Print (line ''AP Kernel returned back to the elf-loader.''), Print (line ''abort() called.'')]"
proof -
  obtain g0 where g0: "(if aarch64 b then ret () else invoke hw ''arm_disable_dcaches'' []) g = Returns () g0"
    by (cases "aarch64 b") (simp_all add: run)
  obtain g1 where lock: "wait_lock (aarch64 b) hw (non_boot_lock l) g0 = Returns () g1"
    using go g0 by (auto simp: non_boot_main_def andThen_run wait_lock_def split: option.splits)
  obtain x where x: "(if hyp_support then ret () else andThen (is_hyp_mode (aarch64 b) hw) (\<lambda>hyp.
       if hyp then invoke hw ''leave_hyp'' [] else ret ())) g1 = Returns () (g1 @ x)"
    "list_all mode_access x" "hyp_at (aarch64 b) hw (g1 @ x) = hyp"
    using non_boot_mode [OF mode support] by blast
  obtain r v where m: "is_hyp_mode (aarch64 b) hw (g1 @ x) = Returns hyp ((g1 @ x) @ [Mrs r v])"
    using is_hyp_mode_reads [of "aarch64 b" hw "g1 @ x"] x(3) by auto
  obtain y w where g1: "g1 = g0 @ y @ [Read (non_boot_lock l) w]" "w \<noteq> 0" by (rule wait_lock_Returns [OF lock])
  have "\<exists>r1 r2. g' = ((g1 @ x) @ [Mrs r v]) @
      [Call (if hyp then ''arm_enable_hyp_mmu'' else ''arm_enable_mmu'') [] r1, Call ''kernel'' (ucast (virt_entry kernel_info) # user_args user_info) r2,
       Print (line ''AP Kernel returned back to the elf-loader.''), Print (line ''abort() called.'')]"
    using go unfolding non_boot_main_def seq.simps andThen_ret
      andThen_step [where p = "if aarch64 b then ret () else invoke hw ''arm_disable_dcaches'' []", OF g0]
      andThen_step [where p = "wait_lock (aarch64 b) hw (non_boot_lock l)", OF lock]
      andThen_step [where p = "if hyp_support then ret () else andThen (is_hyp_mode (aarch64 b) hw) (\<lambda>hyp.
        if hyp then invoke hw ''leave_hyp'' [] else ret ())", OF x(1)]
    by (cases hyp; simp add: andThen_run m; simp add: run user_args_def; blast)
  then show ?thesis using g1 x(2)
    by (intro exI [of _ "g0 @ y"] exI [of _ w] exI [of _ "x @ [Mrs r v]"]) (auto simp: mode_access_def)
qed

section \<open>Property\<close>

text \<open>C5: No core enters the kernel in another way than the boot core. If \<^verbatim>\<open>main\<close> gets to its jump
  and another core runs \<^verbatim>\<open>non_boot_main\<close> with the \<^verbatim>\<open>kernel_info\<close> and \<^verbatim>\<open>user_info\<close> the boot core has filled,
  then that core calls the kernel only after it has read the lock as set, at the same entry point and with
  the same arguments as the boot core, and in the mode the boot core built the page tables for, after
  switching on the MMU of that mode. Where the loader leaves hypervisor mode for the kernel, the
  core may have been started in it; otherwise the cores are taken to run in one mode throughout.\<close>

theorem other_cores_enter_alike:
  fixes kernel_info :: "'a::len word image_info"
  assumes mode: "kernel_mode b hw hyp" "kernel_mode b hw' hyp"
    and support: "leaves_hyp b \<Longrightarrow> \<not> hyp_support" "hyp \<Longrightarrow> hyp_support"
    and boot: "arm_hand_over b hw kernel_info user_infos s = Returns k t"
    and other: "non_boot_main (aarch64 b) hyp_support hw' (smp_symbols b) kernel_info (hd user_infos) g = Aborts g'"
  shows "(if hyp then hyp_boot_vspace b else boot_vspace b) kernel_info (tables s) = Some (tables t) \<and>
    (\<exists>g1 v x r r'. v \<noteq> 0 \<and> list_all mode_access x \<and>
      g' = g1 @ [Read (non_boot_lock (smp_symbols b)) v] @ x @
        [Call (if hyp then ''arm_enable_hyp_mmu'' else ''arm_enable_mmu'') [] r, Call ''kernel'' (entry_point k # kernel_args k) r',
         Print (line ''AP Kernel returned back to the elf-loader.''), Print (line ''abort() called.'')])"
  using arm_hand_over_Returns [OF boot mode(1)] non_boot_main_Aborts [OF mode(2) support other] by simp

text \<open>A 32-bit board with two cores in supervisor mode; the second one finds the lock set.\<close>

definition two_cores :: "(uint32, tables32) arm_build" where
  "two_cores = (board False)\<lparr>nodes := 2\<rparr>"

definition two_cores_call :: kernel_call where
  "two_cores_call = \<lparr>entry_point = 0xe0000004, kernel_args = [0x10001000, 0x10002000, 0x30001000, 0xe0000004]\<rparr>"

definition second_core :: hardware where
  "second_core = (board_hardware False)\<lparr>reg_value := \<lambda>g a. 1\<rparr>"

lemma second_core_runs: "\<exists>g. non_boot_main False False second_core (smp_symbols two_cores) ki ui [] = Aborts g"
proof -
  have "is_hyp_mode False second_core g = Returns False (g @ [Mrs ''cpsr'' 0x1d3])" for g
    by (simp add: is_hyp_mode_def is_hyp_mode32_def run Let_def second_core_def board_hardware_def
        CPSR_MODE_MASK_def CPSR_MODE_HYPERVISOR_def)
  moreover have "wait_lock False second_core a g = Returns () (g @ [Read a 1])" for a g
    unfolding wait_lock_def by (subst spin.simps) (simp add: lock_read_def rd32_def second_core_def)
  ultimately show ?thesis
    by (simp add: non_boot_main_def andThen_run) (simp add: run)
qed

theorem other_cores_enter_alike_witness:
  "\<exists>t g'. arm_hand_over two_cores (board_hardware False) (record_of kernel_mem pair_file 0x10000000)
      [record_of kernel_mem pair_file 0x10001000] board_start = Returns two_cores_call t \<and>
    non_boot_main False False second_core (smp_symbols two_cores) (record_of kernel_mem pair_file 0x10000000)
      (record_of kernel_mem pair_file 0x10001000) [] = Aborts g' \<and>
    (\<exists>r. Call ''kernel'' [0xe0000004, 0x10001000, 0x10002000, 0x30001000, 0xe0000004] r \<in> set g')"
proof -
  let ?ki = "record_of kernel_mem pair_file 0x10000000" and ?ui = "record_of kernel_mem pair_file 0x10001000"
  have mode: "kernel_mode two_cores (board_hardware False) False" "kernel_mode two_cores second_core False"
    by (simp_all add: kernel_mode_def two_cores_def second_core_def board_mode hyp_at_def board_hardware_def
        CPSR_MODE_MASK_def CPSR_MODE_HYPERVISOR_def)
  have "platform_works two_cores (board_hardware False)"
    by (simp add: platform_works_def two_cores_def smp_boot_def board_def run read_cpuid_id32_def)
  moreover obtain t where "(if False then hyp_boot_vspace two_cores else boot_vspace two_cores) ?ki (tables board_start) = Some t"
    using board_tables [of False] by (auto simp: two_cores_def board_start_def)
  ultimately obtain k t where boot: "arm_hand_over two_cores (board_hardware False) ?ki [?ui] board_start = Returns k t"
    using arm_hand_over_runs [OF _ mode(1)] by blast
  then have k: "k = two_cores_call"
    using arm_hand_over_Returns [OF boot mode(1)] by (simp add: two_cores_call_def pair_record user_args_def)
  obtain g' where g': "non_boot_main (aarch64 two_cores) False second_core (smp_symbols two_cores) ?ki (hd [?ui]) [] = Aborts g'"
    using second_core_runs [of ?ki ?ui] by (auto simp: two_cores_def)
  from other_cores_enter_alike [OF mode _ _ boot g'] have "\<exists>r. Call ''kernel'' (entry_point k # kernel_args k) r \<in> set g'"
    by (auto simp: two_cores_def)
  then show ?thesis
    using boot g' by (auto simp: k two_cores_call_def two_cores_def)
qed

end
