(* ===== verification/Cpio_Strip.thy ===== *)
theory Cpio_Strip
  imports Machine
begin

text \<open>
  src/misc/cpio-strip.c, the tool that takes the metadata of the build host out of the archive of
  images. The archive is mapped into memory. The tool runs on the host with its C library; libcpio
  and its header layout are parameters, and so are the results of the file operations.
\<close>

section \<open>The code\<close>

text \<open>\<^verbatim>\<open>struct cpio_header\<close> as far as it is used: offset and size of four fields.\<close>

record cpio_layout =
  cpio_alignment :: nat
  cpio_header_size :: nat
  c_ino :: "nat \<times> nat"
  c_uid :: "nat \<times> nat"
  c_gid :: "nat \<times> nat"
  c_mtime :: "nat \<times> nat"

record cpio_lib =
  cpio_info :: "64 mem \<Rightarrow> uint64 \<Rightarrow> int \<times> uint32"
  cpio_entry :: "64 mem \<Rightarrow> uint64 \<Rightarrow> uint32 \<Rightarrow> uint64 \<times> string \<times> uint64"

record host_file =
  fopen_ok :: bool
  seek_end_ok :: bool
  ftell_result :: int
  seek_set_ok :: bool
  mmap_result :: "uint64 option"

text \<open>\<^verbatim>\<open>assert\<close> of the host's C library.\<close>

definition assert_that :: "bool \<Rightarrow> (unit, 64 word machine) prog" where
  "assert_that b = (\<lambda>s. if b then Returns () s else Aborts s)"

definition to_stderr :: "string \<Rightarrow> (unit, 64 word machine) prog" where
  "to_stderr t = (\<lambda>s. Returns () (s\<lparr>console := console s @ t\<rparr>))"

definition get_header :: "cpio_layout \<Rightarrow> uint64 \<Rightarrow> string \<Rightarrow> (uint64, 64 word machine) prog" where
  "get_header lay data filename = andThen (assert_that (unat data mod cpio_alignment lay = 0)) (\<lambda>_.
     let p = data - of_nat (length filename) - 1 - of_nat (cpio_header_size lay)
     in ret (p - of_nat (unat p mod cpio_alignment lay)))"

text \<open>\<^verbatim>\<open>snprintf(p, n, "%08x", v)\<close>: at most \<open>n - 1\<close> characters and a zero.\<close>

definition hex8 :: "uint32 \<Rightarrow> string" where
  "hex8 v = map (\<lambda>k. ''0123456789abcdef'' ! unat (drop_bit (4 * (7 - k)) v AND 0xf)) [0..<8]"

definition snprintf_08x :: "nat \<Rightarrow> uint32 \<Rightarrow> byte list" where
  "snprintf_08x n v = (if n = 0 then [] else map of_char (take (n - 1) (hex8 v)) @ [0])"

definition store_bytes :: "uint64 \<Rightarrow> byte list \<Rightarrow> (unit, 64 word machine) prog" where
  "store_bytes p bs = (\<lambda>s. Returns () (s\<lparr>mem := write_bytes (mem s) p bs\<rparr>))"

definition blank :: "uint64 \<Rightarrow> nat \<times> nat \<Rightarrow> (unit, 64 word machine) prog" where
  "blank header field = store_bytes (header + of_nat (fst field)) (replicate (snd field) 0)"

text \<open>One round of the loop; the result is whether the entry was found.\<close>

definition strip_entry :: "cpio_layout \<Rightarrow> cpio_lib \<Rightarrow> uint64 \<Rightarrow> uint32 \<Rightarrow> (bool, 64 word machine) prog" where
  "strip_entry lay lib p i = (\<lambda>s.
     let (data, filename, _) = cpio_entry lib (mem s) p i
     in if data = 0
        then andThen (to_stderr (''failed to locate entry '' @ num_string 10 (unat i) @ line [])) (\<lambda>_. ret False) s
        else andThen (get_header lay data filename) (\<lambda>header.
             andThen (assert_that (unat header mod cpio_alignment lay = 0)) (\<lambda>_.
             let inode = 11 + i in
             andThen (store_bytes (header + of_nat (fst (c_ino lay))) (snprintf_08x (snd (c_ino lay)) inode)) (\<lambda>_.
             andThen (blank header (c_uid lay)) (\<lambda>_.
             andThen (blank header (c_gid lay)) (\<lambda>_.
             andThen (blank header (c_mtime lay)) (\<lambda>_.
             ret True)))))) s)"

text \<open>The loop, with \<open>k\<close> entries to go.\<close>

primrec strip_from :: "cpio_layout \<Rightarrow> cpio_lib \<Rightarrow> uint64 \<Rightarrow> nat \<Rightarrow> uint32 \<Rightarrow> (bool, 64 word machine) prog" where
  "strip_from lay lib p 0 i = ret True"
| "strip_from lay lib p (Suc k) i = andThen (strip_entry lay lib p i) (\<lambda>found.
     if found then strip_from lay lib p k (i + 1) else ret False)"

text \<open>\<^verbatim>\<open>perror\<close> adds the host's text for the error, which is left out.\<close>

definition cpio_strip_main :: "cpio_layout \<Rightarrow> cpio_lib \<Rightarrow> host_file \<Rightarrow> string list \<Rightarrow> (int, 64 word machine) prog" where
  "cpio_strip_main lay lib f argv =
     (if argv = [] then (\<lambda>s. Undefined)
      else if length argv \<noteq> 2
      then andThen (to_stderr (''Usage: '' @ hd argv @ line '' file'' @ line '' Strip meta data from a CPIO file'')) (\<lambda>_. ret (- 1))
      else if \<not> fopen_ok f then andThen (to_stderr (line ''failed to open archive'')) (\<lambda>_. ret (- 1))
      else if \<not> seek_end_ok f then andThen (to_stderr (line ''failed to seek archive'')) (\<lambda>_. ret (- 1))
      else if ftell_result f = - 1 then andThen (to_stderr (line ''failed to read size of archive'')) (\<lambda>_. ret (- 1))
      else if \<not> seek_set_ok f then andThen (to_stderr (line ''failed to return to beginning of archive'')) (\<lambda>_. ret (- 1))
      else case mmap_result f of
        None \<Rightarrow> andThen (to_stderr (line ''failed to mmap archive'')) (\<lambda>_. ret (- 1))
      | Some p \<Rightarrow> (\<lambda>s.
          let (err, file_count) = cpio_info lib (mem s) p
          in if err \<noteq> 0 then andThen (to_stderr (line ''failed to read CPIO info'')) (\<lambda>_. ret (- 1)) s
             else andThen (strip_from lay lib p (unat file_count) 0) (\<lambda>ok. ret (if ok then 0 else - 1)) s))"

section \<open>One entry\<close>

definition header_of :: "cpio_layout \<Rightarrow> uint64 \<times> string \<times> uint64 \<Rightarrow> uint64" where
  "header_of lay e = (let (data, filename, _) = e;
       p = data - of_nat (length filename) - 1 - of_nat (cpio_header_size lay)
     in p - of_nat (unat p mod cpio_alignment lay))"

definition strip_fields :: "cpio_layout \<Rightarrow> uint64 \<Rightarrow> uint32 \<Rightarrow> 64 mem \<Rightarrow> 64 mem" where
  "strip_fields lay hdr i m =
     foldl (\<lambda>m (f, bs). write_bytes m (hdr + of_nat (fst f)) bs) m
       [(c_ino lay, snprintf_08x (snd (c_ino lay)) (11 + i)), (c_uid lay, replicate (snd (c_uid lay)) 0),
        (c_gid lay, replicate (snd (c_gid lay)) 0), (c_mtime lay, replicate (snd (c_mtime lay)) 0)]"

definition fields_of :: "cpio_layout \<Rightarrow> uint64 \<Rightarrow> uint64 set" where
  "fields_of lay hdr = (\<Union>(off, n) \<in> {c_ino lay, c_uid lay, c_gid lay, c_mtime lay}. region (hdr + of_nat off) n)"

lemma strip_entry_eq:
  assumes "cpio_entry lib (mem s) p i = (data, filename, sz)"
  shows "strip_entry lay lib p i s =
    (if data = 0 then Returns False (s\<lparr>console := console s @ ''failed to locate entry '' @ num_string 10 (unat i) @ line []\<rparr>)
     else if unat data mod cpio_alignment lay \<noteq> 0 then Aborts s
     else if unat (header_of lay (data, filename, sz)) mod cpio_alignment lay \<noteq> 0 then Aborts s
     else Returns True (s\<lparr>mem := strip_fields lay (header_of lay (data, filename, sz)) i (mem s)\<rparr>))"
  by (simp add: strip_entry_def assms to_stderr_def get_header_def assert_that_def andThen_def ret_def
      store_bytes_def blank_def header_of_def strip_fields_def Let_def)

lemma length_hex8 [simp]: "length (hex8 v) = 8"
  by (simp add: hex8_def)

lemma length_snprintf [simp]: "n \<le> 9 \<Longrightarrow> length (snprintf_08x n v) = n"
  by (simp add: snprintf_08x_def)

lemma strip_fields_outside:
  assumes "snd (c_ino lay) \<le> 9" and "a \<notin> fields_of lay hdr"
  shows "strip_fields lay hdr i m a = m a"
  using assms by (auto simp: strip_fields_def fields_of_def write_bytes_outside split_def)

text \<open>Inside its fields the result does not depend on what was there.\<close>

lemma strip_fields_inside:
  assumes "snd (c_ino lay) \<le> 9" and "a \<in> fields_of lay hdr"
  shows "strip_fields lay hdr i m a = strip_fields lay hdr i m' a"
  using assms by (auto simp: strip_fields_def fields_of_def write_bytes_def region_def split_def)

section \<open>The whole archive\<close>

text \<open>The metadata of the first \<open>n\<close> entries, as the library finds them; and that the library
  looks at other parts of the archive only.\<close>

definition metadata :: "cpio_layout \<Rightarrow> cpio_lib \<Rightarrow> uint64 \<Rightarrow> 64 mem \<Rightarrow> nat \<Rightarrow> uint64 set" where
  "metadata lay lib p m n = (\<Union>j < n. fields_of lay (header_of lay (cpio_entry lib m p (of_nat j))))"

definition ignores :: "cpio_lib \<Rightarrow> uint64 \<Rightarrow> 64 mem \<Rightarrow> uint64 set \<Rightarrow> bool" where
  "ignores lib p m r \<longleftrightarrow> (\<forall>m'. agree_on m m' (- r) \<longrightarrow>
     cpio_info lib m' p = cpio_info lib m p \<and> (\<forall>i. cpio_entry lib m' p i = cpio_entry lib m p i))"

lemma agree_trans: "agree_on m m1 r \<Longrightarrow> agree_on m1 m2 r \<Longrightarrow> agree_on m m2 r"
  by (simp add: agree_on_def)

lemma strip_from_same:
  fixes i :: nat
  assumes ino: "snd (c_ino lay) \<le> 9" and lib: "ignores lib p m r"
    and inside: "\<And>j. j < i + k \<Longrightarrow> fields_of lay (header_of lay (cpio_entry lib m p (of_nat j))) \<subseteq> r"
  shows "strip_from lay lib p k (of_nat i) s = Returns True t \<Longrightarrow>
    agree_on m (mem s) (- r) \<Longrightarrow> agree_on m (mem s') (- r) \<Longrightarrow>
    agree_on (mem s) (mem s') (- (\<Union>j \<in> {i..<i + k}. fields_of lay (header_of lay (cpio_entry lib m p (of_nat j))))) \<Longrightarrow>
    \<exists>t'. strip_from lay lib p k (of_nat i) s' = Returns True t' \<and> mem t' = mem t \<and> agree_on m (mem t) (- r)"
  using inside
proof (induction k arbitrary: i s s')
  case 0
  then have "mem s' = mem s" by (auto simp: agree_on_def fun_eq_iff)
  then show ?case using 0 by (auto simp: ret_def)
next
  case (Suc k)
  let ?F = "\<lambda>j. fields_of lay (header_of lay (cpio_entry lib m p (of_nat j)))"
  let ?h = "header_of lay (cpio_entry lib m p (of_nat i))"
  obtain data filename sz where e: "cpio_entry lib m p (of_nat i) = (data, filename, sz)"
    by (cases "cpio_entry lib m p (of_nat i)") auto
  then have e1: "cpio_entry lib (mem s) p (of_nat i) = (data, filename, sz)"
    and e2: "cpio_entry lib (mem s') p (of_nat i) = (data, filename, sz)"
    using lib Suc.prems(2,3) by (simp_all add: ignores_def)
  define u where "u = s\<lparr>mem := strip_fields lay ?h (of_nat i) (mem s)\<rparr>"
  define u' where "u' = s'\<lparr>mem := strip_fields lay ?h (of_nat i) (mem s')\<rparr>"
  have found: "strip_entry lay lib p (of_nat i) s = Returns True u" "strip_entry lay lib p (of_nat i) s' = Returns True u'"
    and rest: "strip_from lay lib p k (of_nat (Suc i)) u = Returns True t"
    using Suc.prems(1) unfolding u_def u'_def e
    by (auto simp: strip_entry_eq [OF e1] strip_entry_eq [OF e2] andThen_Returns add.commute ret_def split: if_splits)
  have F: "?F i \<subseteq> r" using Suc.prems(5) [of i] by simp
  have out: "strip_fields lay ?h (of_nat i) x a = x a" if "a \<notin> ?F i" for x a
    using strip_fields_outside [OF ino that] .
  have keep: "strip_fields lay ?h (of_nat i) x a = x a" if "a \<in> - r" for x a
    using that F by (intro out) blast
  have ag: "agree_on m (mem u) (- r)" "agree_on m (mem u') (- r)"
    using Suc.prems(2,3) by (simp_all add: u_def u'_def agree_on_def keep)
  have ag': "agree_on (mem u) (mem u') (- (\<Union>j \<in> {Suc i..<Suc i + k}. ?F j))"
    unfolding agree_on_def
  proof
    fix a
    assume a: "a \<in> - (\<Union>j \<in> {Suc i..<Suc i + k}. ?F j)"
    show "mem u' a = mem u a"
    proof (cases "a \<in> ?F i")
      case True
      then show ?thesis using strip_fields_inside [OF ino, of a ?h] by (simp add: u_def u'_def)
    next
      case False
      then have "a \<in> - (\<Union>j \<in> {i..<i + Suc k}. ?F j)"
        using a by (auto simp: atLeastLessThanSuc_atLeastAtMost Suc_le_eq le_less)
      then show ?thesis using Suc.prems(4) False out by (simp add: u_def u'_def agree_on_def)
    qed
  qed
  have "?F j \<subseteq> r" if "j < Suc i + k" for j using Suc.prems(5) that by simp
  from Suc.IH [OF rest ag ag' this]
  obtain t' where "strip_from lay lib p k (of_nat (Suc i)) u' = Returns True t'" "mem t' = mem t"
    "agree_on m (mem t) (- r)"
    by blast
  then show ?case using found by (auto simp: andThen_Returns add.commute)
qed

lemma cpio_strip_main_Returns:
  assumes "cpio_strip_main lay lib f argv s = Returns 0 t"
  obtains p n where "mmap_result f = Some p" "cpio_info lib (mem s) p = (0, n)"
    "strip_from lay lib p (unat n) 0 s = Returns True t"
    "\<And>s' t'. cpio_info lib (mem s') p = (0, n) \<Longrightarrow> strip_from lay lib p (unat n) 0 s' = Returns True t' \<Longrightarrow>
      cpio_strip_main lay lib f argv s' = Returns 0 t'"
proof -
  have cond: "argv \<noteq> []" "length argv = 2" "fopen_ok f" "seek_end_ok f" "ftell_result f \<noteq> - 1" "seek_set_ok f"
    using assms by (auto simp: cpio_strip_main_def andThen_Returns split: if_splits)
  then obtain p where p: "mmap_result f = Some p"
    using assms by (auto simp: cpio_strip_main_def andThen_Returns split: option.splits)
  obtain err n where i: "cpio_info lib (mem s) p = (err, n)" by (cases "cpio_info lib (mem s) p") auto
  have main: "cpio_strip_main lay lib f argv s' = Returns 0 t' \<longleftrightarrow>
      err' = 0 \<and> strip_from lay lib p (unat n') 0 s' = Returns True t'"
    if "cpio_info lib (mem s') p = (err', n')" for s' t' err' n'
    using cond p that by (auto simp: cpio_strip_main_def andThen_Returns split: if_splits)
  show thesis using that [OF p] i main [OF i] main assms by auto
qed

section \<open>The layout of the format and an archive of two entries\<close>

definition newc :: cpio_layout where
  "newc = \<lparr>cpio_alignment = 4, cpio_header_size = 110,
     c_ino = (6, 8), c_uid = (22, 8), c_gid = (30, 8), c_mtime = (46, 8)\<rparr>"

definition two_entries :: cpio_lib where
  "two_entries = \<lparr>cpio_info = (\<lambda>m p. (0, 2)),
     cpio_entry = (\<lambda>m p i. if i = 0 then (p + 124, ''kernel.elf'', 4) else if i = 1 then (p + 244, ''app'', 4) else (0, [], 0))\<rparr>"

definition good_file :: host_file where
  "good_file = \<lparr>fopen_ok = True, seek_end_ok = True, ftell_result = 248, seek_set_ok = True, mmap_result = Some 0x1000\<rparr>"

definition archive_at :: "byte \<Rightarrow> 64 word machine" where
  "archive_at b = \<lparr>mem = (\<lambda>a. if a \<in> fields_of newc 0x1000 \<union> fields_of newc 0x1080 then b else 0x30), console = []\<rparr>"

lemma newc_fields: "cpio_alignment newc = 4" "c_ino newc = (6, 8)"
  by (simp_all add: newc_def)

lemma two_headers:
  "header_of newc (0x107c, ''kernel.elf'', sz) = 0x1000" "header_of newc (0x10f4, ''app'', sz) = 0x1080"
  by (simp_all add: header_of_def newc_def)

lemma two_entry:
  "cpio_entry two_entries m 0x1000 0 = (0x107c, ''kernel.elf'', 4)"
  "cpio_entry two_entries m 0x1000 1 = (0x10f4, ''app'', 4)"
  by (simp_all add: two_entries_def)

lemma two_found:
  "\<exists>u. strip_entry newc two_entries 0x1000 0 s = Returns True u"
  "\<exists>u. strip_entry newc two_entries 0x1000 1 s = Returns True u"
  by (simp_all add: strip_entry_eq [OF two_entry(1)] strip_entry_eq [OF two_entry(2)] two_headers newc_fields)

section \<open>The i-node numbers\<close>

definition nibble :: "uint32 \<Rightarrow> nat \<Rightarrow> uint32" where
  "nibble v n = drop_bit (4 * n) v AND 0xf"

lemma nibble_take: "nibble v n = take_bit 4 (drop_bit (4 * n) v)"
proof -
  have "(0xf :: uint32) = mask 4" by (simp add: mask_eq_exp_minus_1)
  then show ?thesis by (simp add: nibble_def take_bit_eq_mask)
qed

lemma nibbles_eq_iff:
  "(\<forall>n \<in> {1..7}. nibble v n = nibble w n) \<longleftrightarrow> drop_bit 4 v = (drop_bit 4 w :: uint32)"
proof
  assume eq: "\<forall>n \<in> {1..7}. nibble v n = nibble w n"
  show "drop_bit 4 v = drop_bit 4 w"
  proof (rule bit_word_eqI)
    fix j
    assume "j < LENGTH(32)"
    show "bit (drop_bit 4 v) j = bit (drop_bit 4 w) j"
    proof (cases "j < 28")
      case True
      let ?n = "j div 4 + 1"
      have "?n \<in> {1..7}" using True by auto
      then have "bit (nibble v ?n) (j mod 4) = bit (nibble w ?n) (j mod 4)" using eq by metis
      moreover have "4 * ?n + j mod 4 = 4 + j" by simp
      ultimately show ?thesis by (simp add: nibble_take bit_take_bit_iff bit_drop_bit_eq add.commute)
    next
      case False
      then have "\<not> bit x (4 + j)" for x :: uint32 using bit_imp_le_length [of x "4 + j"] by auto
      then show ?thesis by (simp add: bit_drop_bit_eq)
    qed
  qed
next
  assume eq: "drop_bit 4 v = drop_bit 4 w"
  show "\<forall>n \<in> {1..7}. nibble v n = nibble w n"
  proof
    fix n :: nat
    assume "n \<in> {1..7}"
    then obtain k where "n = Suc k" by (cases n) auto
    then have "nibble x n = take_bit 4 (drop_bit (4 * k) (drop_bit 4 x))" for x
      by (simp add: nibble_take drop_bit_drop_bit add.commute)
    then show "nibble v n = nibble w n" by (simp only: eq)
  qed
qed

lemma hex_digit_inj:
  assumes "n < 16" and "k < 16"
  shows "of_char (''0123456789abcdef'' ! n) = (of_char (''0123456789abcdef'' ! k) :: byte) \<longleftrightarrow> n = k"
proof -
  define s where "s = ''0123456789abcdef''"
  have "distinct (map of_char ''0123456789abcdef'' :: byte list)" by code_simp
  then have "distinct (map of_char s :: byte list)" by (simp add: s_def)
  moreover have "length s = 16" by (simp add: s_def)
  ultimately show ?thesis
    using nth_eq_iff_index_eq [of "map of_char s :: byte list" n k] assms unfolding s_def [symmetric] by simp
qed

lemma snprintf_eq_iff: "snprintf_08x 8 v = snprintf_08x 8 w \<longleftrightarrow> drop_bit 4 v = drop_bit 4 w"
proof -
  have small: "unat (nibble x n) < 16" for x n
  proof -
    have "unat (nibble x n) \<le> 15"
      unfolding nibble_def using word_and_le1 [of "drop_bit (4 * n) x" "0xf"] by (simp add: word_le_nat_alt)
    then show ?thesis by simp
  qed
  have "snprintf_08x 8 v = snprintf_08x 8 w \<longleftrightarrow>
      map of_char (take 7 (hex8 v)) = (map of_char (take 7 (hex8 w)) :: byte list)"
    by (simp add: snprintf_08x_def)
  also have "\<dots> \<longleftrightarrow> (\<forall>k < 7. (of_char (hex8 v ! k) :: byte) = of_char (hex8 w ! k))"
    by (simp add: list_eq_iff_nth_eq)
  also have "\<dots> \<longleftrightarrow> (\<forall>k < 7. nibble v (7 - k) = nibble w (7 - k))"
    using hex_digit_inj [OF small small] by (simp add: hex8_def nibble_def [symmetric] word_unat_eq_iff)
  also have "\<dots> \<longleftrightarrow> (\<forall>n \<in> {1..7}. nibble v n = nibble w n)"
  proof
    assume a: "\<forall>k < 7. nibble v (7 - k) = nibble w (7 - k)"
    show "\<forall>n \<in> {1..7}. nibble v n = nibble w n"
    proof
      fix n :: nat
      assume "n \<in> {1..7}"
      then show "nibble v n = nibble w n" using a [rule_format, of "7 - n"] by auto
    qed
  qed auto
  finally show ?thesis by (simp only: nibbles_eq_iff)
qed

lemma regions_apart:
  fixes p :: "'a::len word"
  assumes "j + n \<le> k" and "k + l \<le> 2 ^ LENGTH('a)"
  shows "region (p + of_nat j) n \<inter> region (p + of_nat k) l = {}"
proof -
  have "a \<notin> region (p + of_nat k) l" if "a \<in> region (p + of_nat j) n" for a
  proof
    assume a: "a \<in> region (p + of_nat k) l"
    define x where "x = unat (a - (p + of_nat j))"
    define y where "y = unat (a - (p + of_nat k))"
    have "x < n" "y < l" using a that by (simp_all add: region_def x_def y_def)
    then have "unat (of_nat (j + x) :: 'a word) = j + x" "unat (of_nat (k + y) :: 'a word) = k + y"
      using assms by (intro unat_of_nat_less, linarith)+
    moreover have "a - p = of_nat (j + x)" "a - p = of_nat (k + y)" by (simp_all add: x_def y_def)
    ultimately have "j + x = k + y" by metis
    with \<open>x < n\<close> assms show False by linarith
  qed
  then show ?thesis by blast
qed

lemma strip_fields_inode:
  "mem_bytes (strip_fields newc hdr i m) (hdr + 6) 8 = snprintf_08x 8 (11 + i)"
proof -
  have "region (hdr + 6) 8 \<inter> region (hdr + 22) 8 = {}" "region (hdr + 6) 8 \<inter> region (hdr + 30) 8 = {}"
    "region (hdr + 6) 8 \<inter> region (hdr + 46) 8 = {}"
    using regions_apart [of 6 8 22 8 hdr] regions_apart [of 6 8 30 8 hdr] regions_apart [of 6 8 46 8 hdr] by simp_all
  then show ?thesis
    using mem_bytes_write_same [of "snprintf_08x 8 (11 + i)" m "hdr + 6"]
    by (simp add: strip_fields_def newc_def mem_bytes_write_disjoint)
qed

section \<open>Properties\<close>

text \<open>C39: The tool makes builds repeatable: of two archives that differ only in the metadata of
  their entries (i-node, owner, group, time), which the archive library does not look at, if the tool succeeds
  on one it succeeds on the other and leaves the same bytes; and it changes nothing but metadata.\<close>

theorem cpio_strip_removes_metadata:
  assumes ino: "snd (c_ino lay) \<le> 9" and map: "mmap_result f = Some p"
    and n: "n = unat (snd (cpio_info lib (mem s) p))"
    and lib: "ignores lib p (mem s) (metadata lay lib p (mem s) n)"
    and same: "agree_on (mem s) (mem s') (- metadata lay lib p (mem s) n)"
    and ok: "cpio_strip_main lay lib f argv s = Returns 0 t"
  shows "\<exists>t'. cpio_strip_main lay lib f argv s' = Returns 0 t' \<and> mem t' = mem t \<and>
    agree_on (mem s) (mem t) (- metadata lay lib p (mem s) n)"
proof -
  obtain c where c: "cpio_info lib (mem s) p = (0, c)" and run: "strip_from lay lib p (unat c) 0 s = Returns True t"
    and main: "\<And>s' t'. cpio_info lib (mem s') p = (0, c) \<Longrightarrow> strip_from lay lib p (unat c) 0 s' = Returns True t' \<Longrightarrow>
      cpio_strip_main lay lib f argv s' = Returns 0 t'"
    using cpio_strip_main_Returns [OF ok] map by (metis option.inject)
  have k: "unat c = n" by (simp add: n c)
  have "cpio_info lib (mem s') p = (0, c)" using lib same c by (simp add: ignores_def)
  moreover have "fields_of lay (header_of lay (cpio_entry lib (mem s) p (of_nat j))) \<subseteq> metadata lay lib p (mem s) n"
    if "j < 0 + n" for j
    using that by (auto simp: metadata_def)
  note strip_from_same [where i = 0 and k = n and s = s and t = t and s' = s', OF ino lib this]
  with run same obtain t' where "strip_from lay lib p n 0 s' = Returns True t'" "mem t' = mem t"
    "agree_on (mem s) (mem t) (- metadata lay lib p (mem s) n)"
    by (auto simp: k metadata_def agree_on_def lessThan_atLeast0)
  ultimately show ?thesis using main by (auto simp: k)
qed

theorem cpio_strip_removes_metadata_witness:
  "\<exists>t t'. cpio_strip_main newc two_entries good_file [''cpio-strip'', ''archive.cpio''] (archive_at 0x61) = Returns 0 t \<and>
    cpio_strip_main newc two_entries good_file [''cpio-strip'', ''archive.cpio''] (archive_at 0x62) = Returns 0 t' \<and>
    mem t = mem t' \<and> mem (archive_at 0x61) \<noteq> mem (archive_at 0x62)"
proof -
  let ?r = "metadata newc two_entries 0x1000 (mem (archive_at 0x61)) 2"
  have r: "?r = fields_of newc 0x1000 \<union> fields_of newc 0x1080"
    by (auto simp: metadata_def two_entries_def two_headers numeral_2_eq_2 lessThan_Suc)
  have lib: "ignores two_entries 0x1000 (mem (archive_at 0x61)) ?r" by (simp add: ignores_def two_entries_def)
  have same: "agree_on (mem (archive_at 0x61)) (mem (archive_at 0x62)) (- ?r)"
    unfolding r by (simp add: agree_on_def archive_at_def)
  obtain t where t: "cpio_strip_main newc two_entries good_file [''cpio-strip'', ''archive.cpio''] (archive_at 0x61) = Returns 0 t"
  proof -
    have "\<exists>u. strip_from newc two_entries 0x1000 2 0 (archive_at 0x61) = Returns True u"
      using two_found by (fastforce simp: numeral_2_eq_2 andThen_Returns)
    then obtain u where "strip_from newc two_entries 0x1000 2 0 (archive_at 0x61) = Returns True u" by blast
    moreover have "cpio_info two_entries m 0x1000 = (0, 2)" for m by (simp add: two_entries_def)
    ultimately show thesis
      by (intro that [of u]) (simp add: cpio_strip_main_def good_file_def andThen_def ret_def)
  qed
  have "mem (archive_at 0x61) 0x1006 \<noteq> mem (archive_at 0x62) 0x1006"
    by (simp add: archive_at_def fields_of_def newc_def region_def)
  moreover have "mmap_result good_file = Some 0x1000" "snd (c_ino newc) \<le> 9"
    "2 = unat (snd (cpio_info two_entries (mem (archive_at 0x61)) 0x1000))"
    by (simp_all add: good_file_def newc_def two_entries_def)
  ultimately show ?thesis
    using cpio_strip_removes_metadata [OF _ _ _ lib same t] t by (metis (no_types))
qed

text \<open>C40: The synthetic i-node numbers are not distinct, although they are meant to be: the field
  has eight bytes and \<^verbatim>\<open>snprintf\<close> keeps the last one for its terminating zero, so that the last
  digit is lost. Two entries get the same bytes exactly when their numbers, from 11 on, differ in
  the last hexadecimal digit only; the first five entries of every archive all get 0000000.\<close>

theorem inode_numbers_lose_a_digit:
  assumes "cpio_entry lib (mem s) p i = e" and "strip_entry newc lib p i s = Returns True t"
    and "cpio_entry lib' (mem s') p' j = e'" and "strip_entry newc lib' p' j s' = Returns True t'"
  shows "(mem_bytes (mem t) (header_of newc e + 6) 8 = mem_bytes (mem t') (header_of newc e' + 6) 8) =
      (drop_bit 4 (11 + i) = drop_bit 4 (11 + j)) \<and>
    (i < 5 \<longrightarrow> mem_bytes (mem t) (header_of newc e + 6) 8 = map of_char ''0000000'' @ [0])"
proof -
  have m: "mem_bytes (mem t) (header_of newc e + 6) 8 = snprintf_08x 8 (11 + i)"
    if "cpio_entry lib (mem s) p i = e" "strip_entry newc lib p i s = Returns True t" for lib s p i e t
    using that strip_entry_eq [of lib s p i "fst e" "fst (snd e)" "snd (snd e)" newc]
    by (auto simp: strip_fields_inode split: if_splits)
  have "snprintf_08x 8 (11 + i) = map of_char ''0000000'' @ [0]" if "i < 5"
  proof -
    have "unat (11 + i) < 16" using that by (simp add: word_less_nat_alt unat_word_ariths)
    then have "drop_bit 4 (11 + i) = drop_bit 4 (0 :: uint32)" by (simp add: word_unat_eq_iff drop_bit_eq_div unat_div)
    then have "snprintf_08x 8 (11 + i) = snprintf_08x 8 0" by (simp only: snprintf_eq_iff)
    also have "\<dots> = map of_char ''0000000'' @ [0]" by code_simp
    finally show ?thesis .
  qed
  then show ?thesis
    by (simp only: m [OF assms(1,2)] m [OF assms(3,4)] snprintf_eq_iff) simp
qed

theorem inode_numbers_lose_a_digit_witness:
  "\<exists>t. strip_from newc two_entries 0x1000 2 0 (archive_at 0x61) = Returns True t \<and>
    mem_bytes (mem t) 0x1006 8 = mem_bytes (mem t) 0x1086 8"
proof -
  obtain t0 t1 where t0: "strip_entry newc two_entries 0x1000 0 (archive_at 0x61) = Returns True t0"
    and t1: "strip_entry newc two_entries 0x1000 1 t0 = Returns True t1"
    using two_found by blast
  have "mem_bytes (mem t0) (0x1000 + 6) 8 = mem_bytes (mem t1) (0x1080 + 6) 8"
    using inode_numbers_lose_a_digit [OF two_entry(1) t0 two_entry(2) t1]
    by (simp add: two_headers drop_bit_eq_div)
  moreover have "mem_bytes (mem t1) (0x1000 + 6) 8 = mem_bytes (mem t0) (0x1000 + 6) 8"
  proof -
    have t: "mem t1 = strip_fields newc 0x1080 1 (mem t0)"
      using t1 by (auto simp: strip_entry_eq [OF two_entry(2)] two_headers newc_fields split: if_splits)
    have "region 0x1006 8 \<inter> region 0x1086 8 = ({} :: uint64 set)" "region 0x1006 8 \<inter> region 0x1096 8 = ({} :: uint64 set)"
      "region 0x1006 8 \<inter> region 0x109e 8 = ({} :: uint64 set)" "region 0x1006 8 \<inter> region 0x10ae 8 = ({} :: uint64 set)"
      using regions_apart [of "0x1006" 8 "0x1086" 8 "0 :: uint64"] regions_apart [of "0x1006" 8 "0x1096" 8 "0 :: uint64"]
        regions_apart [of "0x1006" 8 "0x109e" 8 "0 :: uint64"] regions_apart [of "0x1006" 8 "0x10ae" 8 "0 :: uint64"] by simp_all
    then show ?thesis by (simp add: t strip_fields_def newc_def mem_bytes_write_disjoint)
  qed
  moreover have "strip_from newc two_entries 0x1000 2 0 (archive_at 0x61) = Returns True t1"
    using t0 t1 by (simp add: numeral_2_eq_2 andThen_def ret_def)
  ultimately show ?thesis by simp
qed

end
